(* ===== verification/Prelude.thy ===== *)
theory Prelude
  imports Main "HOL-Library.Word" "HOL-Library.Multiset"
begin

text \<open>
  Shared vocabulary of the development: bytes and their little-endian layout, C strings,
  the decimal formatting the code uses, \<open>snprintf\<close> and \<open>memchr\<close> of the C library, the
  vector types of R, and the collections of simplification rules that the component
  theories extend.

  The machine modelled is the one the package is built for in practice: \<open>int\<close> is 32 bits,
  \<open>size_t\<close> and \<open>uint64_t\<close> are 64 bits, and multi-byte values are laid out little-endian.
\<close>

named_theorems codec_simps \<open>unfolding rules of the encoders and decoders\<close>
named_theorems disp_simps \<open>unfolding rules of the dispatcher's state operations\<close>
named_theorems srv_simps \<open>unfolding rules of the HTTP server's state operations\<close>

type_synonym byte = "8 word"
type_synonym u64 = "64 word"
type_synonym i32 = "32 word"

section \<open>Little-endian layout\<close>

primrec to_le :: "nat \<Rightarrow> nat \<Rightarrow> byte list" where
  "to_le 0 n = []"
| "to_le (Suc k) n = of_nat n # to_le k (n div 256)"

primrec of_le :: "byte list \<Rightarrow> nat" where
  "of_le [] = 0"
| "of_le (b # bs) = unat b + 256 * of_le bs"

lemma to_le_numeral:
  "to_le (numeral v) n = of_nat n # to_le (pred_numeral v) (n div 256)"
  by (simp only: numeral_eq_Suc to_le.simps)

lemma length_to_le [simp]: "length (to_le k n) = k"
  by (induction k arbitrary: n) auto

lemma unat_byte_of_nat: "unat (of_nat n :: byte) = n mod 256"
  by (simp add: unat_of_nat)

lemma of_le_to_le: "of_le (to_le k n) = n mod 256 ^ k"
proof (induction k arbitrary: n)
  case 0
  then show ?case by simp
next
  case (Suc k)
  have "n mod 256 ^ Suc k = n mod 256 + 256 * (n div 256 mod 256 ^ k)"
    using mod_mult2_eq [of n 256 "256 ^ k"] by simp
  then show ?case by (simp add: Suc unat_byte_of_nat)
qed

lemma of_le_bound: "of_le bs < 256 ^ length bs"
proof (induction bs)
  case Nil
  then show ?case by simp
next
  case (Cons b bs)
  have "unat b < 256" using unsigned_less [of b] by simp
  with Cons show ?case by simp
qed

lemma to_le_of_le: "to_le (length bs) (of_le bs) = bs"
proof (induction bs)
  case Nil
  then show ?case by simp
next
  case (Cons b bs)
  have b: "unat b < 256" using unsigned_less [of b] by simp
  have "(of_nat (unat b + 256 * of_le bs) :: byte) = of_nat (unat b)"
  proof (rule word_unat_eq_iff [THEN iffD2])
    show "unat (of_nat (unat b + 256 * of_le bs) :: byte) = unat (of_nat (unat b) :: byte)"
      unfolding unat_byte_of_nat by simp
  qed
  moreover have "(unat b + 256 * of_le bs) div 256 = of_le bs"
    using b by simp
  ultimately show ?case using Cons by simp
qed

text \<open>A fixed-width value as its bytes in memory, and back.\<close>

definition i32_bytes :: "i32 \<Rightarrow> byte list" where
  "i32_bytes w = to_le 4 (unat w)"

definition bytes_i32 :: "byte list \<Rightarrow> i32" where
  "bytes_i32 bs = of_nat (of_le (take 4 bs))"

definition u64_bytes :: "u64 \<Rightarrow> byte list" where
  "u64_bytes w = to_le 8 (unat w)"

definition bytes_u64 :: "byte list \<Rightarrow> u64" where
  "bytes_u64 bs = of_nat (of_le (take 8 bs))"

lemma length_i32_bytes [simp]: "length (i32_bytes w) = 4"
  by (simp add: i32_bytes_def)

lemma length_u64_bytes [simp]: "length (u64_bytes w) = 8"
  by (simp add: u64_bytes_def)

lemma bytes_i32_bytes [simp]: "bytes_i32 (i32_bytes w @ rest) = w"
proof -
  have "unat w < 256 ^ 4" using unsigned_less [of w] by simp
  then show ?thesis
    by (simp add: bytes_i32_def i32_bytes_def of_le_to_le)
qed

lemma bytes_u64_bytes [simp]: "bytes_u64 (u64_bytes w @ rest) = w"
proof -
  have "unat w < 256 ^ 8" using unsigned_less [of w] by simp
  then show ?thesis
    by (simp add: bytes_u64_def u64_bytes_def of_le_to_le)
qed

lemma i32_bytes_of_bytes: "length bs = 4 \<Longrightarrow> i32_bytes (bytes_i32 bs) = bs"
proof -
  assume l: "length bs = 4"
  have "of_le bs < 2 ^ 32" using of_le_bound [of bs] l by simp
  then have "unat (bytes_i32 bs) = of_le bs"
    using l by (simp add: bytes_i32_def unat_of_nat)
  then show ?thesis
    using to_le_of_le [of bs] l by (simp add: i32_bytes_def)
qed

lemma u64_bytes_of_bytes: "length bs = 8 \<Longrightarrow> u64_bytes (bytes_u64 bs) = bs"
proof -
  assume l: "length bs = 8"
  have "of_le bs < 2 ^ 64" using of_le_bound [of bs] l by simp
  then have "unat (bytes_u64 bs) = of_le bs"
    using l by (simp add: bytes_u64_def unat_of_nat)
  then show ?thesis
    using to_le_of_le [of bs] l by (simp add: u64_bytes_def)
qed

text \<open>An array of fixed-width elements laid out contiguously, and its reading back.\<close>

definition chunks_of :: "nat \<Rightarrow> byte list \<Rightarrow> byte list list" where
  "chunks_of w bs = map (\<lambda>i. take w (drop (i * w) bs)) [0..<length bs div w]"

lemma chunks_of_Nil [simp]: "chunks_of w [] = []"
  by (simp add: chunks_of_def)

lemma chunks_of_append:
  assumes "length b = w" "0 < w"
  shows "chunks_of w (b @ bs) = b # chunks_of w bs"
proof -
  have "length (b @ bs) div w = Suc (length bs div w)"
    using assms by (simp add: div_add_self1)
  then have "[0..<length (b @ bs) div w] = 0 # map Suc [0..<length bs div w]"
    by (simp only: upt_conv_Cons [OF zero_less_Suc] map_Suc_upt One_nat_def)
  moreover have "drop (Suc i * w) (b @ bs) = drop (i * w) bs" for i
    using assms by simp
  ultimately show ?thesis
    using assms(1) unfolding chunks_of_def by (simp del: mult_Suc)
qed

lemma chunks_of_concat:
  assumes "\<forall>b \<in> set bss. length b = w" "0 < w"
  shows "chunks_of w (concat bss) = bss"
  using assms by (induction bss) (auto simp: chunks_of_append)

lemma length_concat_chunks:
  "\<forall>b \<in> set bss. length b = w \<Longrightarrow> length (concat bss) = w * length bss"
  by (induction bss) auto

lemma concat_chunks_of:
  assumes "0 < w" "w dvd length bs"
  shows "concat (chunks_of w bs) = bs"
proof -
  from assms(2) obtain n where "length bs = w * n" by blast
  then show ?thesis
  proof (induction n arbitrary: bs)
    case 0
    then show ?case by simp
  next
    case (Suc n)
    let ?b = "take w bs" and ?r = "drop w bs"
    have b: "length ?b = w" and r: "length ?r = w * n"
      using Suc.prems by auto
    have "chunks_of w (?b @ ?r) = ?b # chunks_of w ?r"
      using b assms(1) by (rule chunks_of_append)
    with Suc.IH [OF r] show ?case by simp
  qed
qed

lemma chunks_of_length:
  assumes "0 < w" "b \<in> set (chunks_of w bs)"
  shows "length b = w"
proof -
  from assms(2) obtain i where i: "i < length bs div w" and b: "b = take w (drop (i * w) bs)"
    by (auto simp: chunks_of_def)
  have "Suc i * w \<le> length bs div w * w"
    using i by (intro mult_le_mono1) simp
  also have "\<dots> \<le> length bs" by simp
  finally show ?thesis using b by simp
qed

section \<open>C strings and the C library\<close>

text \<open>
  A C string is its bytes without the terminating NUL. Names the code compares with
  literals are Isabelle strings; buffers are byte lists.
\<close>

definition nul_free :: "byte list \<Rightarrow> bool" where
  "nul_free bs \<longleftrightarrow> 0 \<notin> set bs"

definition bytes_of :: "string \<Rightarrow> byte list" where
  "bytes_of s = map of_char s"

lemma bytes_of_append [simp]: "bytes_of (s @ t) = bytes_of s @ bytes_of t"
  by (simp add: bytes_of_def)

lemma length_bytes_of [simp]: "length (bytes_of s) = length s"
  by (simp add: bytes_of_def)

text \<open>\<open>memchr (p, 0, n)\<close> as an index into the bytes from \<open>p\<close>.\<close>

fun memchr0 :: "byte list \<Rightarrow> nat option" where
  "memchr0 [] = None"
| "memchr0 (b # bs) = (if b = 0 then Some 0 else map_option Suc (memchr0 bs))"

lemma memchr0_None_iff: "memchr0 bs = None \<longleftrightarrow> nul_free bs"
  by (induction bs) (auto simp: nul_free_def)

lemma memchr0_append_nul: "nul_free s \<Longrightarrow> memchr0 (s @ 0 # rest) = Some (length s)"
  by (induction s) (auto simp: nul_free_def)

lemma memchr0_Some:
  "memchr0 bs = Some i \<Longrightarrow> i < length bs \<and> bs ! i = 0 \<and> nul_free (take i bs)"
proof (induction bs arbitrary: i)
  case Nil
  then show ?case by simp
next
  case (Cons b bs)
  then show ?case by (cases i) (auto simp: nul_free_def split: if_splits)
qed

text \<open>
  \<open>snprintf\<close> into \<open>sz\<close> bytes stores at most \<open>sz - 1\<close> characters and returns the length
  the whole text has.
\<close>

definition snprintf :: "nat \<Rightarrow> string \<Rightarrow> string \<times> nat" where
  "snprintf sz s = (take (sz - 1) s, length s)"

text \<open>\<open>%d\<close> and \<open>%0<w>lu\<close>: decimal digits.\<close>

fun dec_digits :: "nat \<Rightarrow> string" where
  "dec_digits n = (if n < 10 then [char_of (48 + n)]
                   else dec_digits (n div 10) @ [char_of (48 + n mod 10)])"

declare dec_digits.simps [simp del]

definition fmt_d :: "int \<Rightarrow> string" where
  "fmt_d i = (if i < 0 then CHR ''-'' # dec_digits (nat (- i)) else dec_digits (nat i))"

primrec dec_pad :: "nat \<Rightarrow> nat \<Rightarrow> string" where
  "dec_pad 0 n = []"
| "dec_pad (Suc k) n = dec_pad k (n div 10) @ [char_of (48 + n mod 10)]"

text \<open>\<open>strtoull (s, NULL, 10)\<close> on a run of digits.\<close>

definition digit_val :: "char \<Rightarrow> nat option" where
  "digit_val c = (let n = (of_char c :: nat) in if 48 \<le> n \<and> n < 58 then Some (n - 48) else None)"

fun strtoull_from :: "nat \<Rightarrow> string \<Rightarrow> nat" where
  "strtoull_from acc [] = acc"
| "strtoull_from acc (c # cs) =
     (case digit_val c of None \<Rightarrow> acc | Some d \<Rightarrow> strtoull_from (acc * 10 + d) cs)"

lemma of_char_digit: "d < 10 \<Longrightarrow> (of_char (char_of (48 + d) :: char) :: nat) = 48 + d"
  by (simp add: of_char_of)

lemma digit_val_char: "d < 10 \<Longrightarrow> digit_val (char_of (48 + d)) = Some d"
  by (simp add: digit_val_def of_char_digit)

lemma strtoull_append_digit:
  "\<forall>c \<in> set s. digit_val c \<noteq> None \<Longrightarrow> d < 10 \<Longrightarrow>
   strtoull_from acc (s @ [char_of (48 + d)]) = strtoull_from acc s * 10 + d"
  by (induction s arbitrary: acc) (auto simp: digit_val_char)

lemma dec_pad_digits: "\<forall>c \<in> set (dec_pad k n). digit_val c \<noteq> None"
  by (induction k arbitrary: n) (auto simp: digit_val_char)

lemma length_dec_pad [simp]: "length (dec_pad k n) = k"
  by (induction k arbitrary: n) auto

lemma strtoull_dec_pad: "strtoull_from 0 (dec_pad k n) = n mod 10 ^ k"
proof (induction k arbitrary: n)
  case 0
  then show ?case by simp
next
  case (Suc k)
  have "n mod 10 ^ Suc k = (n div 10) mod 10 ^ k * 10 + n mod 10"
    using mod_mult2_eq [of n 10 "10 ^ k"] by simp
  then show ?case
    by (simp add: strtoull_append_digit [OF dec_pad_digits] Suc)
qed

lemma dec_digits_bound:
  "0 < k \<Longrightarrow> n < 10 ^ k \<Longrightarrow> length (dec_digits n) \<le> k"
proof (induction n arbitrary: k rule: dec_digits.induct)
  case (1 n)
  show ?case
  proof (cases "n < 10")
    case True
    with 1 show ?thesis by (simp add: dec_digits.simps [of n])
  next
    case False
    with 1 obtain j where j: "k = Suc j" "0 < j"
      by (cases k; cases "k - 1") auto
    with "1.prems" have "n div 10 < 10 ^ j" by (simp add: less_mult_imp_div_less)
    with "1.IH" [OF False, of j] j False show ?thesis
      by (simp add: dec_digits.simps [of n])
  qed
qed

section \<open>Lists\<close>

lemma sum_list_map_update:
  fixes f :: "'a \<Rightarrow> 'b :: comm_monoid_add"
  assumes "i < length xs"
  shows "sum_list (map f (xs[i := x])) + f (xs ! i) = sum_list (map f xs) + f x"
  using assms
proof (induction xs arbitrary: i)
  case Nil
  then show ?case by simp
next
  case (Cons a xs)
  then show ?case by (cases i) (auto simp: ac_simps)
qed

lemma sum_list_remove_nth:
  fixes f :: "'a \<Rightarrow> 'b :: comm_monoid_add"
  assumes "k < length xs"
  shows "sum_list (map f (take k xs @ drop (Suc k) xs)) + f (xs ! k) = sum_list (map f xs)"
proof -
  have "sum_list (map f xs) = sum_list (map f (take k xs @ xs ! k # drop (Suc k) xs))"
    using id_take_nth_drop [OF assms] by simp
  then show ?thesis by (simp only: map_append sum_list_append list.map sum_list.Cons ac_simps)
qed

lemma in_set_update:
  assumes "z \<in> set (xs[i := y])"
  shows "z = y \<or> (\<exists>j < length xs. j \<noteq> i \<and> z = xs ! j)"
proof -
  from assms obtain k where k: "k < length xs" "z = xs[i := y] ! k" by (auto simp: in_set_conv_nth)
  then show ?thesis by (cases "k = i") auto
qed

text \<open>The first index satisfying a predicate: the shape of every linear scan of the code.\<close>

fun find_idx :: "('a \<Rightarrow> bool) \<Rightarrow> 'a list \<Rightarrow> nat option" where
  "find_idx P [] = None"
| "find_idx P (x # xs) = (if P x then Some 0 else map_option Suc (find_idx P xs))"

lemma find_idx_Some:
  "find_idx P xs = Some i \<Longrightarrow> i < length xs \<and> P (xs ! i) \<and> (\<forall>j < i. \<not> P (xs ! j))"
proof (induction xs arbitrary: i)
  case (Cons x xs)
  then show ?case by (cases i) (auto split: if_splits simp: less_Suc_eq_0_disj)
qed simp

lemma find_idx_None_iff: "find_idx P xs = None \<longleftrightarrow> (\<forall>x \<in> set xs. \<not> P x)"
  by (induction xs) auto

lemma find_idx_upt:
  assumes "n < m" "P n" "\<forall>i < n. \<not> P i"
  shows "find_idx P [0..<m] = Some n"
proof (cases "find_idx P [0..<m]")
  case None
  then show ?thesis using assms by (auto simp: find_idx_None_iff)
next
  case (Some k)
  from find_idx_Some [OF this] have "k < m" "P k" "\<forall>j < k. \<not> P j" by auto
  then have "k = n" using assms by (metis nat_neq_iff)
  with Some show ?thesis by simp
qed

lemma replicate_numeral: "replicate (numeral k) x = x # replicate (pred_numeral k) x"
  by (simp add: numeral_eq_Suc)

text \<open>The pop-swap the code uses to delete slot \<open>i\<close> of an array of length \<open>n\<close>.\<close>

definition pop_swap :: "nat \<Rightarrow> 'a list \<Rightarrow> 'a list" where
  "pop_swap i xs = butlast (xs[i := last xs])"

lemma length_pop_swap [simp]: "length (pop_swap i xs) = length xs - 1"
  by (simp add: pop_swap_def)

lemma mset_pop_swap:
  assumes "i < length xs"
  shows "mset (pop_swap i xs) + {# xs ! i #} = mset xs"
proof -
  have ne: "xs[i := last xs] \<noteq> []" using assms by auto
  have lst: "last (xs[i := last xs]) = last xs"
    using assms ne by (simp add: last_conv_nth nth_list_update)
  have "mset (butlast (xs[i := last xs])) + {# last (xs[i := last xs]) #}
        = mset (xs[i := last xs])"
    using append_butlast_last_id [OF ne] by (metis mset.simps mset_append)
  moreover have "mset (xs[i := last xs]) = mset xs + {# last xs #} - {# xs ! i #}"
    using assms by (simp add: mset_update)
  moreover have "xs ! i \<in># mset xs" using assms by simp
  ultimately have "mset (pop_swap i xs) + {# last xs #} + {# xs ! i #} = mset xs + {# last xs #}"
    by (simp add: pop_swap_def lst)
  then show ?thesis by (simp add: add.commute add.left_commute)
qed

lemma sum_list_pop_swap:
  fixes f :: "'a \<Rightarrow> 'b :: comm_monoid_add"
  assumes "i < length xs"
  shows "sum_list (map f (pop_swap i xs)) + f (xs ! i) = sum_list (map f xs)"
proof -
  have "sum_list (map f xs) = sum_mset (image_mset f (mset (pop_swap i xs) + {# xs ! i #}))"
    unfolding mset_pop_swap [OF assms] by (metis mset_map sum_mset_sum_list)
  then show ?thesis by (simp add: sum_mset_sum_list flip: mset_map) (simp add: add.commute)
qed

lemma set_pop_swap_subset: "i < length xs \<Longrightarrow> set (pop_swap i xs) \<subseteq> set xs"
  using mset_pop_swap [of i xs] by (metis mset_subset_eq_add_left set_mset_mono set_mset_mset)

end
