(* ===== verification/Codec.thy ===== *)
theory Codec
  imports Prelude
begin

text \<open>
  The message codec of \<^verbatim>\<open>core.c\<close>: the argument matching of \<open>nano_encode_mode\<close> and
  \<open>nano_matcharg\<close>, the raw encoder \<open>nano_encode\<close>, the decoder \<open>nano_decode\<close> with
  \<open>nano_raw_char\<close>, and \<open>nano_url_with_port\<close>. R's own unserializer is a parameter.
\<close>

section \<open>R vectors and outcomes\<close>

text \<open>
  The R objects the codec inspects, by \<open>TYPEOF\<close>; doubles, integers and logicals are the bit
  patterns R stores. \<open>OtherSXP\<close> stands for every other type.
\<close>

datatype sexp =
    NilSXP
  | StrSXP "byte list list"
  | RealSXP "u64 list"
  | IntSXP "i32 list"
  | LglSXP "i32 list"
  | CplxSXP "(u64 \<times> u64) list"
  | RawSXP "byte list"
  | OtherSXP nat

text \<open>\<open>Rf_error\<close> unwinds; its message is the value.\<close>

datatype r_error = RError string

text \<open>\<open>nano_buf\<close>: the bytes from \<open>buf\<close>, the owned capacity \<open>len\<close> (0 when borrowed), the cursor.\<close>

record nano_buf =
  nb_buf :: "byte list"
  nb_len :: nat
  nb_cur :: nat

definition NANO_INIT :: "byte list \<Rightarrow> nat \<Rightarrow> nano_buf" where
  "NANO_INIT ptr sz = \<lparr>nb_buf = ptr, nb_len = 0, nb_cur = sz\<rparr>"

text \<open>The bytes an encoder produced: those before the cursor.\<close>

definition encoded :: "nano_buf \<Rightarrow> byte list" where
  "encoded b = take (nb_cur b) (nb_buf b)"

section \<open>Mode arguments\<close>

text \<open>\<open>mode\<close> is an R integer vector (its first element counts) or a character vector.\<close>

datatype mode_arg = ModeInt i32 | ModeStr string

definition nano_encode_mode :: "mode_arg \<Rightarrow> r_error + nat" where
  "nano_encode_mode mode =
     (case mode of
        ModeInt i \<Rightarrow> Inr (if i = 2 then 1 else 0)
      | ModeStr md \<Rightarrow>
          (let slen = length md in
           if slen = 3 \<and> md = ''raw'' then Inr 1
           else if slen = 6 \<and> md = ''serial'' then Inr 0
           else Inl (RError ''`mode` should be one of: serial, raw'')))"

definition matcharg_error :: r_error where
  "matcharg_error = RError (''`mode` should be one of: serial, character, complex, double, ''
     @ ''integer, logical, numeric, raw, string'')"

definition nano_matcharg :: "mode_arg \<Rightarrow> r_error + byte" where
  "nano_matcharg mode =
     (case mode of
        ModeInt i \<Rightarrow> Inr (ucast i)
      | ModeStr md \<Rightarrow>
          (let slen = length md in
           if slen = 3 then
             (if md = ''raw'' then Inr 8 else Inl matcharg_error)
           else if slen = 6 then
             (if md = ''serial'' then Inr 1
              else if md = ''double'' then Inr 4
              else if md = ''string'' then Inr 9
              else Inl matcharg_error)
           else if slen = 7 then
             (if md = ''integer'' then Inr 5
              else if md = ''numeric'' then Inr 7
              else if md = ''logical'' then Inr 6
              else if md = ''complex'' then Inr 3
              else Inl matcharg_error)
           else if slen = 9 then
             (if md = ''character'' then Inr 2 else Inl matcharg_error)
           else Inl matcharg_error))"

text \<open>The table the switch encodes, in the order of the numeric codes.\<close>

definition mode_table :: "(string \<times> byte) list" where
  "mode_table = [(''serial'', 1), (''character'', 2), (''complex'', 3), (''double'', 4),
                 (''integer'', 5), (''logical'', 6), (''numeric'', 7), (''raw'', 8), (''string'', 9)]"

section \<open>Encoding\<close>

text \<open>
  \<open>NANO_ALLOC (enc, outlen)\<close> calls \<open>malloc (outlen)\<close>, whose outcome is the argument
  \<open>alloc\<close>; the loop then copies every string with its terminator.
\<close>

fun copy_strings :: "byte list \<Rightarrow> byte list list \<Rightarrow> byte list" where
  "copy_strings out [] = out"
| "copy_strings out (s # ss) = copy_strings (out @ s @ [0]) ss"

definition nano_encode :: "bool \<Rightarrow> sexp \<Rightarrow> r_error + nano_buf" where
  "nano_encode alloc obj =
     (case obj of
        StrSXP ss \<Rightarrow>
          (if length ss = 1 then Inr (NANO_INIT (hd ss @ [0]) (length (hd ss) + 1))
           else (let outlen = sum_list (map (\<lambda>s. length s + 1) ss) in
                 if \<not> alloc then Inl (RError ''memory allocation failed'')
                 else Inr \<lparr>nb_buf = copy_strings [] ss, nb_len = outlen,
                           nb_cur = length (copy_strings [] ss)\<rparr>))
      | RealSXP xs \<Rightarrow> Inr (NANO_INIT (concat (map u64_bytes xs)) (length xs * 8))
      | IntSXP xs \<Rightarrow> Inr (NANO_INIT (concat (map i32_bytes xs)) (length xs * 4))
      | LglSXP xs \<Rightarrow> Inr (NANO_INIT (concat (map i32_bytes xs)) (length xs * 4))
      | CplxSXP zs \<Rightarrow> Inr (NANO_INIT (concat (map (\<lambda>(re, im). u64_bytes re @ u64_bytes im) zs))
                                     (length zs * 2 * 8))
      | RawSXP bs \<Rightarrow> Inr (NANO_INIT bs (length bs))
      | NilSXP \<Rightarrow> Inr (NANO_INIT [] 0)
      | OtherSXP _ \<Rightarrow>
          Inl (RError (''`data` must be an atomic vector type or NULL to send in mode ''
                       @ [CHR 0x27] @ ''raw'' @ [CHR 0x27])))"

section \<open>Decoding\<close>

text \<open>The result and whether a warning was raised.\<close>

type_synonym decoded = "sexp \<times> bool"

definition nano_raw_char :: "byte list \<Rightarrow> decoded" where
  "nano_raw_char buf =
     (let sz = length buf;
          i = (case (if sz > 0 then memchr0 buf else None) of None \<Rightarrow> sz | Some k \<Rightarrow> k)
      in if sz - i > 1 then (RawSXP buf, True) else (StrSXP [take i buf], False))"

text \<open>
  The character loop: \<open>n\<close> strings remain to be read from the bytes at \<open>buf + np\<close>.
\<close>

primrec decode_strings :: "nat \<Rightarrow> byte list \<Rightarrow> byte list list" where
  "decode_strings 0 bs = []"
| "decode_strings (Suc n) bs =
     (let j = (case memchr0 bs of None \<Rightarrow> length bs | Some k \<Rightarrow> k)
      in take j bs # decode_strings n (if j < length bs then drop (j + 1) bs else []))"

definition count_strings :: "byte list \<Rightarrow> nat" where
  "count_strings buf = count_list buf 0 + (if buf \<noteq> [] \<and> last buf \<noteq> 0 then 1 else 0)"

text \<open>
  Cases 2 to 8 of the switch. When the size is not a multiple of the element size the bytes
  come back as a raw vector, with a warning.
\<close>

definition decode_cplx :: "byte list \<Rightarrow> u64 \<times> u64" where
  "decode_cplx b = (bytes_u64 b, bytes_u64 (drop 8 b))"

definition nano_decode_vec :: "byte list \<Rightarrow> byte \<Rightarrow> decoded option" where
  "nano_decode_vec buf md =
     (let sz = length buf in
      if md = 2 then Some (StrSXP (decode_strings (count_strings buf) buf), False)
      else if md = 3 then
        Some (if sz mod 16 \<noteq> 0 then (RawSXP buf, True)
              else (CplxSXP (map decode_cplx (chunks_of 16 buf)), False))
      else if md = 4 then
        Some (if sz mod 8 \<noteq> 0 then (RawSXP buf, True)
              else (RealSXP (map bytes_u64 (chunks_of 8 buf)), False))
      else if md = 5 then
        Some (if sz mod 4 \<noteq> 0 then (RawSXP buf, True)
              else (IntSXP (map bytes_i32 (chunks_of 4 buf)), False))
      else if md = 6 then
        Some (if sz mod 4 \<noteq> 0 then (RawSXP buf, True)
              else (LglSXP (map bytes_i32 (chunks_of 4 buf)), False))
      else if md = 7 then
        Some (if sz mod 8 \<noteq> 0 then (RawSXP buf, True)
              else (RealSXP (map bytes_u64 (chunks_of 8 buf)), False))
      else if md = 8 then Some (RawSXP buf, False)
      else None)"

text \<open>
  \<open>nano_unserialize\<close> looks at the first byte: R's ascii, binary and XDR-binary formats start
  at 0, the package's own 8-byte header puts the stream at 8, and anything else (or 12 bytes
  and less) comes back raw with a warning. \<open>unser cur buf\<close> is \<open>R_Unserialize\<close> on the
  stream that starts at \<open>cur\<close>.
\<close>

definition nano_unserialize :: "(nat \<Rightarrow> byte list \<Rightarrow> decoded) \<Rightarrow> byte list \<Rightarrow> decoded" where
  "nano_unserialize unser buf =
     (if length buf > 12 \<and> buf ! 0 \<in> {0x41, 0x42, 0x58} then unser 0 buf
      else if length buf > 12 \<and> buf ! 0 = 0x7 then unser 8 buf
      else (case nano_decode_vec buf 8 of Some (x, _) \<Rightarrow> (x, True) | None \<Rightarrow> (NilSXP, True)))"

definition nano_decode :: "(nat \<Rightarrow> byte list \<Rightarrow> decoded) \<Rightarrow> byte list \<Rightarrow> byte \<Rightarrow> decoded" where
  "nano_decode unser buf md =
     (case nano_decode_vec buf md of
        Some r \<Rightarrow> r
      | None \<Rightarrow> if md = 9 then nano_raw_char buf else nano_unserialize unser buf)"

lemmas encode_defs = nano_encode_def NANO_INIT_def encoded_def
lemmas decode_defs = nano_decode_def nano_decode_vec_def

section \<open>Facts about the character loop\<close>

lemma copy_strings_concat: "copy_strings out ss = out @ concat (map (\<lambda>s. s @ [0]) ss)"
  by (induction ss arbitrary: out) auto

lemma length_copy_strings:
  "length (copy_strings [] ss) = sum_list (map (\<lambda>s. length s + 1) ss)"
  by (induction ss) (auto simp: copy_strings_concat)

lemma count_list_nul_free [simp]: "nul_free s \<Longrightarrow> count_list s 0 = 0"
  by (simp add: nul_free_def count_list_0_iff)

lemma count_strings_terminated:
  "\<forall>s \<in> set ss. nul_free s \<Longrightarrow> count_strings (concat (map (\<lambda>s. s @ [0]) ss)) = length ss"
proof (induction ss)
  case Nil
  then show ?case by (simp add: count_strings_def)
next
  case (Cons s ss)
  then show ?case by (cases ss) (auto simp: count_strings_def)
qed

lemma decode_strings_terminated:
  "\<forall>s \<in> set ss. nul_free s \<Longrightarrow>
   decode_strings (length ss) (concat (map (\<lambda>s. s @ [0]) ss)) = ss"
  by (induction ss) (auto simp: memchr0_append_nul)

lemma decode_strings_nul_free: "\<forall>s \<in> set (decode_strings n bs). nul_free s"
proof (induction n arbitrary: bs)
  case 0
  then show ?case by simp
next
  case (Suc n)
  show ?case
  proof (cases "memchr0 bs")
    case None
    then have "nul_free bs" by (simp add: memchr0_None_iff)
    with Suc None show ?thesis by (simp add: Let_def)
  next
    case (Some k)
    with Suc memchr0_Some [OF Some] show ?thesis by (simp add: Let_def)
  qed
qed

lemma memchr0_split: "memchr0 bs = Some k \<Longrightarrow> bs = take k bs @ 0 # drop (Suc k) bs"
  by (metis memchr0_Some id_take_nth_drop)

lemma count_list_split:
  "memchr0 bs = Some k \<Longrightarrow> count_list bs 0 = Suc (count_list (drop (Suc k) bs) 0)"
proof -
  assume k: "memchr0 bs = Some k"
  from memchr0_Some [OF k] have "count_list (take k bs) 0 = 0" by simp
  moreover have "count_list bs 0 = count_list (take k bs @ 0 # drop (Suc k) bs) 0"
    using arg_cong [OF memchr0_split [OF k], of "\<lambda>x. count_list x 0"] .
  ultimately show ?thesis by simp
qed

text \<open>The bytes with a final terminator supplied when the sender left it out.\<close>

definition terminated :: "byte list \<Rightarrow> byte list" where
  "terminated buf = (if buf \<noteq> [] \<and> last buf \<noteq> 0 then buf @ [0] else buf)"

lemma unterminated_split:
  assumes "memchr0 bs = Some k"
  shows "bs \<noteq> [] \<and> last bs \<noteq> 0 \<longleftrightarrow> drop (Suc k) bs \<noteq> [] \<and> last (drop (Suc k) bs) \<noteq> 0"
  using memchr0_split [OF assms]
  by (metis append_is_Nil_conv last_ConsL last_ConsR last_appendR list.distinct(1))

lemma count_strings_split:
  "memchr0 bs = Some k \<Longrightarrow> count_strings bs = Suc (count_strings (drop (Suc k) bs))"
proof -
  assume k: "memchr0 bs = Some k"
  show ?thesis
    unfolding count_strings_def count_list_split [OF k] using unterminated_split [OF k] by auto
qed

lemma decode_strings_bytes:
  "concat (map (\<lambda>s. s @ [0]) (decode_strings (count_strings bs) bs)) = terminated bs"
proof (induction "length bs" arbitrary: bs rule: less_induct)
  case less
  show ?case
  proof (cases "memchr0 bs")
    case None
    then have nf: "nul_free bs" by (simp add: memchr0_None_iff)
    show ?thesis
    proof (cases "bs = []")
      case True
      then show ?thesis by (simp add: count_strings_def terminated_def)
    next
      case False
      then have "last bs \<noteq> 0" using nf last_in_set [OF False] by (metis nul_free_def)
      with False nf None show ?thesis by (simp add: count_strings_def terminated_def)
    qed
  next
    case (Some k)
    let ?r = "drop (Suc k) bs"
    have lt: "k < length bs" using memchr0_Some [OF Some] by simp
    then have "length ?r < length bs" by simp
    from less [OF this] have IH: "concat (map (\<lambda>s. s @ [0]) (decode_strings (count_strings ?r) ?r)) = terminated ?r" .
    have "concat (map (\<lambda>s. s @ [0]) (decode_strings (count_strings bs) bs)) = take k bs @ 0 # terminated ?r"
      using Some lt IH by (simp add: count_strings_split)
    also have "\<dots> = terminated bs"
    proof (cases "bs \<noteq> [] \<and> last bs \<noteq> 0")
      case True
      then have "?r \<noteq> [] \<and> last ?r \<noteq> 0" using unterminated_split [OF Some] by blast
      then have "terminated ?r = ?r @ [0]" and "terminated bs = bs @ [0]"
        using True unfolding terminated_def by (simp_all only: if_True simp_thms)
      then show ?thesis using arg_cong [OF memchr0_split [OF Some], of "\<lambda>x. x @ [0]"] by simp
    next
      case False
      then have "\<not> (?r \<noteq> [] \<and> last ?r \<noteq> 0)" using unterminated_split [OF Some] by blast
      then have "terminated ?r = ?r" and "terminated bs = bs"
        using False unfolding terminated_def by (simp_all only: if_False)
      then show ?thesis using memchr0_split [OF Some] by simp
    qed
    finally show ?thesis .
  qed
qed

lemma map_concat_roundtrip:
  assumes "\<forall>x. length (f x) = w" "\<forall>x. g (f x) = x" "0 < w"
  shows "map g (chunks_of w (concat (map f xs))) = xs"
  using assms by (subst chunks_of_concat) (auto simp: o_def)

lemma map_concat_inverse:
  assumes "\<forall>b. length b = w \<longrightarrow> f (g b) = b" "0 < w" "length bs mod w = 0"
  shows "concat (map f (map g (chunks_of w bs))) = bs"
proof -
  have "map f (map g (chunks_of w bs)) = chunks_of w bs"
    using assms(1) chunks_of_length [OF assms(2)] by (simp add: map_idI)
  then show ?thesis using concat_chunks_of [OF assms(2)] assms(3) by (simp add: mod_eq_0_iff_dvd)
qed

lemma length_concat_map: "\<forall>x. length (f x) = w \<Longrightarrow> length (concat (map f xs)) = w * length xs"
  by (induction xs) auto

section \<open>The round trips\<close>

text \<open>The receive mode that reads back what \<open>nano_encode\<close> writes for each vector type.\<close>

fun wire_mode :: "sexp \<Rightarrow> byte option" where
  "wire_mode (StrSXP _) = Some 2"
| "wire_mode (CplxSXP _) = Some 3"
| "wire_mode (RealSXP _) = Some 4"
| "wire_mode (IntSXP _) = Some 5"
| "wire_mode (LglSXP _) = Some 6"
| "wire_mode (RawSXP _) = Some 8"
| "wire_mode _ = None"

text \<open>R strings hold no NUL byte.\<close>

fun r_valid :: "sexp \<Rightarrow> bool" where
  "r_valid (StrSXP ss) = (\<forall>s \<in> set ss. nul_free s)"
| "r_valid _ = True"

lemma encode_strings:
  assumes "nano_encode alloc (StrSXP ss) = Inr b"
  shows "encoded b = concat (map (\<lambda>s. s @ [0]) ss)"
proof (cases "length ss = 1")
  case True
  then obtain s where "ss = [s]" by (auto simp: length_Suc_conv)
  with assms show ?thesis by (auto simp: encode_defs)
next
  case False
  with assms show ?thesis
    by (auto simp: encode_defs copy_strings_concat length_copy_strings split: if_splits)
qed

lemma decode_cplx_bytes [simp]: "decode_cplx (u64_bytes x @ u64_bytes y) = (x, y)"
  using bytes_u64_bytes [of y "[]"] by (simp add: decode_cplx_def)

lemma cplx_bytes_of_decode:
  "length b = 16 \<Longrightarrow> (case decode_cplx b of (re, im) \<Rightarrow> u64_bytes re @ u64_bytes im) = b"
proof -
  assume l: "length b = 16"
  have "bytes_u64 b = bytes_u64 (take 8 b)" by (simp add: bytes_u64_def)
  with l show ?thesis
    by (simp add: decode_cplx_def u64_bytes_of_bytes)
qed

lemma roundtrip_lists:
  "map bytes_u64 (chunks_of 8 (concat (map u64_bytes xs))) = xs"
  "map bytes_i32 (chunks_of 4 (concat (map i32_bytes is))) = is"
  "map decode_cplx (chunks_of 16 (concat (map (\<lambda>(re, im). u64_bytes re @ u64_bytes im) zs))) = zs"
proof -
  show "map bytes_u64 (chunks_of 8 (concat (map u64_bytes xs))) = xs"
    using bytes_u64_bytes [of _ "[]"] by (intro map_concat_roundtrip) auto
  show "map bytes_i32 (chunks_of 4 (concat (map i32_bytes is))) = is"
    using bytes_i32_bytes [of _ "[]"] by (intro map_concat_roundtrip) auto
  show "map decode_cplx (chunks_of 16 (concat (map (\<lambda>(re, im). u64_bytes re @ u64_bytes im) zs))) = zs"
    by (intro map_concat_roundtrip) auto
qed

lemma length_wire:
  "length (concat (map u64_bytes xs)) = 8 * length xs"
  "length (concat (map i32_bytes is)) = 4 * length is"
  "length (concat (map (\<lambda>(re, im). u64_bytes re @ u64_bytes im) zs)) = 16 * length zs"
  by (rule length_concat_map; auto)+

lemma decode_of_encode:
  assumes "r_valid x" "wire_mode x = Some md" "nano_encode alloc x = Inr b"
  shows "nano_decode unser (encoded b) md = (x, False)"
  using assms
proof (cases x)
  case (StrSXP ss)
  with assms have "encoded b = concat (map (\<lambda>s. s @ [0]) ss)" by (simp add: encode_strings)
  with assms StrSXP show ?thesis
    by (auto simp: decode_defs count_strings_terminated decode_strings_terminated)
qed (auto simp: encode_defs decode_defs roundtrip_lists length_wire)



text \<open>
  A receiver that decodes bytes in a vector mode without a warning and sends the result on
  in mode \<open>raw\<close> emits the same bytes, up to the terminator of the last string when the
  original sender left it out; and when decoding does warn, the bytes come back untouched as a
  raw vector.
\<close>

theorem decode_encode:
  assumes "nano_decode_vec buf md = Some (x, warned)" "nano_encode True x = Inr b"
  shows "if warned then x = RawSXP buf
         else encoded b = (if md = 2 then terminated buf else buf)"
proof -
  have r8: "concat (map u64_bytes (map bytes_u64 (chunks_of 8 buf))) = buf" if "length buf mod 8 = 0"
    using that by (intro map_concat_inverse) (auto simp: u64_bytes_of_bytes)
  have r4: "concat (map i32_bytes (map bytes_i32 (chunks_of 4 buf))) = buf" if "length buf mod 4 = 0"
    using that by (intro map_concat_inverse) (auto simp: i32_bytes_of_bytes)
  have r16: "concat (map (\<lambda>(re, im). u64_bytes re @ u64_bytes im) (map decode_cplx (chunks_of 16 buf))) = buf"
    if "length buf mod 16 = 0"
    using that by (intro map_concat_inverse) (auto simp: cplx_bytes_of_decode)
  have len: "length (chunks_of w buf) * w = length buf" if "length buf mod w = 0" for w
    using that by (auto simp: chunks_of_def mod_eq_0_iff_dvd)
  show ?thesis
  proof (cases "md = 2")
    case True
    with assms have "x = StrSXP (decode_strings (count_strings buf) buf)" "\<not> warned"
      by (auto simp: nano_decode_vec_def)
    with assms True show ?thesis using encode_strings by (simp add: decode_strings_bytes)
  next
    case False
    with assms show ?thesis
      unfolding nano_decode_vec_def Let_def
      by (auto simp: encode_defs r8 r4 r16 len [of 4] len [of 8] len [of 16] len [of "2 * 8"] mult.assoc
          simp del: map_map split: if_splits)
  qed
qed

theorem decode_encode_witness:
  "encoded (NANO_INIT [97, 0, 98, 0] 4) = terminated [97, 0, 98]
   \<and> encoded (NANO_INIT [1, 0, 0, 128] 4) = [1, 0, 0, 128]"
proof -
  have d1: "nano_decode_vec [97, 0, 98] 2 = Some (StrSXP [[97], [98]], False)"
    by (simp add: nano_decode_vec_def count_strings_def)
  have e1: "nano_encode True (StrSXP [[97], [98]])
            = Inr \<lparr>nb_buf = [97, 0, 98, 0], nb_len = 4, nb_cur = 4\<rparr>"
    by (simp add: nano_encode_def)
  have d2: "nano_decode_vec [1, 0, 0, 128] 5 = Some (IntSXP [0x80000001], False)"
    by (simp add: nano_decode_vec_def chunks_of_def bytes_i32_def)
  have e2: "nano_encode True (IntSXP [0x80000001]) = Inr (NANO_INIT [1, 0, 0, 128] 4)"
    by (simp add: nano_encode_def i32_bytes_def to_le_numeral NANO_INIT_def)
  show ?thesis
    using decode_encode [OF d1 e1] decode_encode [OF d2 e2]
    by (simp add: encoded_def NANO_INIT_def terminated_def)
qed

text \<open>
  The nested length-and-\<open>memcmp\<close> switch of \<open>nano_matcharg\<close> is a lookup in the table of
  the nine mode names: a name is accepted exactly when it is in the table, with its code, and
  every other string (a prefix or an extension of a name included) is the R error.
\<close>

theorem matcharg_is_table_lookup:
  "nano_matcharg (ModeStr s)
   = (case map_of mode_table s of Some i \<Rightarrow> Inr i | None \<Rightarrow> Inl matcharg_error)"
  by (auto simp: nano_matcharg_def mode_table_def Let_def)

end
