(* ===== verification/Serial.thy ===== *)
theory Serial
  imports Codec
begin

text \<open>
  Serialization in \<^verbatim>\<open>core.c\<close>: the growing output buffer and the bounded input buffer that
  R's serializer is given (\<open>nano_write_bytes\<close>, \<open>nano_read_bytes\<close>, \<open>nano_read_char\<close>), the
  hooks that frame a custom object (\<open>nano_serialize_hook\<close>, \<open>nano_unserialize_hook\<close>), the 8-byte
  header \<open>nano_serialize\<close> writes and \<open>dispatch_read_msg_info\<close> of \<^verbatim>\<open>dispatcher.c\<close> reads, and
  the zero-copy hand-over of the buffer to a message (\<open>nano_msg_set_body\<close>).

  R's serializer is a parameter: the list of blocks it passes to \<open>OutBytes\<close>. Bytes the code
  leaves uninitialised after \<open>malloc\<close> and \<open>realloc\<close> are 0 here; none of them is ever read.
\<close>

section \<open>The output buffer\<close>

definition NANONEXT_INIT_BUFSIZE :: nat where "NANONEXT_INIT_BUFSIZE = 4096"
definition NANONEXT_SERIAL_THR :: nat where "NANONEXT_SERIAL_THR = 67108864"
definition NANONEXT_CHUNK_SIZE :: nat where "NANONEXT_CHUNK_SIZE = 67108864"
definition NANO_HEADROOM :: nat where "NANO_HEADROOM = 32"
definition R_XLEN_T_MAX :: nat where "R_XLEN_T_MAX = 4503599627370496"

lemmas size_consts = NANONEXT_INIT_BUFSIZE_def NANONEXT_SERIAL_THR_def NANONEXT_CHUNK_SIZE_def
  NANO_HEADROOM_def R_XLEN_T_MAX_def

text \<open>The \<open>do ... while (buf->len < req)\<close> loop on \<open>size_t\<close>; \<open>None\<close> is not returning.\<close>

partial_function (option) grow_len :: "nat \<Rightarrow> nat \<Rightarrow> nat option" where
  "grow_len len req =
     (let len' = (len + (if len > NANONEXT_SERIAL_THR then NANONEXT_SERIAL_THR else len)) mod 2 ^ 64
      in if len' < req then grow_len len' req else Some len')"

text \<open>\<open>realloc\<close> to a larger size keeps the contents; \<open>memcpy\<close> overwrites from the cursor.\<close>

definition realloc_to :: "nat \<Rightarrow> byte list \<Rightarrow> byte list" where
  "realloc_to n bs = bs @ replicate (n - length bs) 0"

definition put_at :: "nat \<Rightarrow> byte list \<Rightarrow> byte list \<Rightarrow> byte list" where
  "put_at cur src bs = take cur bs @ src @ drop (cur + length src) bs"

definition nano_write_bytes :: "bool \<Rightarrow> nano_buf \<Rightarrow> byte list \<Rightarrow> (r_error + nano_buf) option" where
  "nano_write_bytes alloc buf src =
     (let req = (nb_cur buf + length src) mod 2 ^ 64 in
      if req > nb_len buf then
        (if req > R_XLEN_T_MAX then
           Some (Inl (RError ''serialization exceeds max length of raw vector''))
         else (case grow_len (nb_len buf) req of
                 None \<Rightarrow> None
               | Some len' \<Rightarrow>
                   (if \<not> alloc then Some (Inl (RError ''memory allocation failed''))
                    else Some (Inr \<lparr>nb_buf = put_at (nb_cur buf) src (realloc_to len' (nb_buf buf)),
                                    nb_len = len', nb_cur = nb_cur buf + length src\<rparr>))))
      else Some (Inr (buf\<lparr>nb_buf := put_at (nb_cur buf) src (nb_buf buf),
                          nb_cur := nb_cur buf + length src\<rparr>)))"

fun write_all :: "bool \<Rightarrow> nano_buf \<Rightarrow> byte list list \<Rightarrow> (r_error + nano_buf) option" where
  "write_all alloc buf [] = Some (Inr buf)"
| "write_all alloc buf (w # ws) =
     (case nano_write_bytes alloc buf w of
        None \<Rightarrow> None
      | Some (Inl e) \<Rightarrow> Some (Inl e)
      | Some (Inr buf') \<Rightarrow> write_all alloc buf' ws)"

text \<open>A live output buffer: the block has the recorded size, and the cursor is inside it.\<close>

definition wbuf_ok :: "nano_buf \<Rightarrow> bool" where
  "wbuf_ok b \<longleftrightarrow> length (nb_buf b) = nb_len b \<and> nb_cur b \<le> nb_len b \<and> 0 < nb_len b
     \<and> nb_len b < 2 * R_XLEN_T_MAX"

section \<open>The input buffer\<close>

definition nano_read_bytes :: "nano_buf \<Rightarrow> nat \<Rightarrow> r_error + (byte list \<times> nano_buf)" where
  "nano_read_bytes buf len =
     (if nb_cur buf + len > nb_len buf then Inl (RError ''unserialization error'')
      else Inr (take len (drop (nb_cur buf) (nb_buf buf)), buf\<lparr>nb_cur := nb_cur buf + len\<rparr>))"

definition nano_read_char :: "nano_buf \<Rightarrow> r_error + (byte \<times> nano_buf)" where
  "nano_read_char buf =
     (if nb_cur buf \<ge> nb_len buf then Inl (RError ''unserialization error'')
      else Inr (nb_buf buf ! nb_cur buf, buf\<lparr>nb_cur := nb_cur buf + 1\<rparr>))"

section \<open>The hooks\<close>

text \<open>The first class of the configuration that \<open>x\<close> inherits from.\<close>

fun hook_match :: "(string \<Rightarrow> bool) \<Rightarrow> string list \<Rightarrow> nat option" where
  "hook_match inherits [] = None"
| "hook_match inherits (k # ks) =
     (if inherits k then Some 0 else map_option Suc (hook_match inherits ks))"

text \<open>The chunk loop: at most \<open>NANONEXT_CHUNK_SIZE\<close> bytes per \<open>OutBytes\<close> call.\<close>

function split_chunks :: "byte list \<Rightarrow> byte list list" where
  "split_chunks bs =
     (if length bs > NANONEXT_CHUNK_SIZE
      then take NANONEXT_CHUNK_SIZE bs # split_chunks (drop NANONEXT_CHUNK_SIZE bs)
      else [bs])"
  by pat_completeness auto
termination
  by (relation "measure length") (auto simp: size_consts)

declare split_chunks.simps [simp del]

definition hook_writes :: "nat \<Rightarrow> byte list \<Rightarrow> byte list list" where
  "hook_writes i out =
     [i32_bytes 247, i32_bytes 0, i32_bytes 1, i32_bytes 9, i32_bytes 20,
      bytes_of (dec_pad 20 (length out))] @ split_chunks out @ [i32_bytes (of_nat i)]"

text \<open>
  The result of the user's function is an argument: an R error unwinds through
  \<open>nano_cleanup\<close>, anything but a raw vector is an error of the hook itself. \<open>None\<close> as the
  hook's answer is \<open>R_NilValue\<close>: R goes on to serialize \<open>x\<close> by itself.
\<close>

datatype hook_out = Declined | Written nano_buf | HookError r_error

definition nano_serialize_hook ::
  "bool \<Rightarrow> (string \<Rightarrow> bool) \<Rightarrow> string list \<Rightarrow> (nat \<Rightarrow> r_error + sexp) \<Rightarrow> nano_buf \<Rightarrow> hook_out option" where
  "nano_serialize_hook alloc inherits klass sfunc buf =
     (case hook_match inherits klass of
        None \<Rightarrow> Some Declined
      | Some i \<Rightarrow>
          (case sfunc i of
             Inl e \<Rightarrow> Some (HookError e)
           | Inr (RawSXP out) \<Rightarrow>
               (case write_all alloc buf (hook_writes i out) of
                  None \<Rightarrow> None
                | Some (Inl e) \<Rightarrow> Some (HookError e)
                | Some (Inr buf') \<Rightarrow> Some (Written buf'))
           | Inr _ \<Rightarrow>
               Some (HookError (RError (''Serialization function for `'' @ klass ! i
                                        @ ''` did not return a raw vector'')))))"

text \<open>
  Reading back. \<open>size_string\<close> is the 20-character name R has just read; the code then takes
  the payload in chunks, the index and the 20 bytes R wrote for the blank string. The index is
  used to select the function as it comes from the wire: selecting outside the configured list
  is a read past the end of an R vector, the value \<open>OutOfBounds\<close> here.
\<close>

function read_chunks :: "nano_buf \<Rightarrow> nat \<Rightarrow> r_error + (byte list \<times> nano_buf)" where
  "read_chunks buf sz =
     (if sz > NANONEXT_CHUNK_SIZE then
        (case nano_read_bytes buf NANONEXT_CHUNK_SIZE of
           Inl e \<Rightarrow> Inl e
         | Inr (bs, buf') \<Rightarrow>
             (case read_chunks buf' (sz - NANONEXT_CHUNK_SIZE) of
                Inl e \<Rightarrow> Inl e
              | Inr (bs', buf'') \<Rightarrow> Inr (bs @ bs', buf'')))
      else nano_read_bytes buf sz)"
  by pat_completeness auto
termination
  by (relation "measure snd") (auto simp: size_consts)

declare read_chunks.simps [simp del]

datatype unhook_out = UnserError r_error | OutOfBounds | UnserCall nat "byte list" nano_buf

definition nano_unserialize_hook :: "string \<Rightarrow> nat \<Rightarrow> nano_buf \<Rightarrow> unhook_out" where
  "nano_unserialize_hook size_string nfuncs buf =
     (let sz = strtoull_from 0 size_string in
      case read_chunks buf sz of
        Inl e \<Rightarrow> UnserError e
      | Inr (raw, buf1) \<Rightarrow>
          (case nano_read_bytes buf1 4 of
             Inl e \<Rightarrow> UnserError e
           | Inr (ib, buf2) \<Rightarrow>
               (case nano_read_bytes buf2 20 of
                  Inl e \<Rightarrow> UnserError e
                | Inr (_, buf3) \<Rightarrow>
                    (let i = sint (bytes_i32 ib) in
                     if 0 \<le> i \<and> i < int nfuncs then UnserCall (nat i) raw buf3
                     else OutOfBounds))))"

section \<open>The header and the message body\<close>

definition special_header :: "int \<Rightarrow> i32 \<Rightarrow> byte list" where
  "special_header special_marker header =
     (let mem = (replicate 8 0) [0 := 0x7, 3 := of_int special_marker]
      in if header \<noteq> 0 then put_at 4 (i32_bytes header) mem else mem)"

definition nano_serialize ::
  "bool \<Rightarrow> int \<Rightarrow> byte list list \<Rightarrow> i32 \<Rightarrow> nat \<Rightarrow> (r_error + nano_buf) option" where
  "nano_serialize alloc special_marker writes header headroom =
     (if \<not> alloc then Some (Inl (RError ''memory allocation failed''))
      else
        (let b0 = \<lparr>nb_buf = replicate NANONEXT_INIT_BUFSIZE 0, nb_len = NANONEXT_INIT_BUFSIZE,
                   nb_cur = headroom\<rparr>;
             b1 = (if header \<noteq> 0 \<or> special_marker \<noteq> 0
                   then b0\<lparr>nb_buf := put_at headroom (special_header special_marker header) (nb_buf b0),
                           nb_cur := nb_cur b0 + 8\<rparr>
                   else b0)
         in write_all alloc b1 writes))"

text \<open>The body part of \<open>nng_msg\<close>, as the mirror structure lays it out.\<close>

record nng_chunk =
  ch_cap :: nat
  ch_len :: nat
  ch_buf :: "byte list"
  ch_ptr :: nat

definition chunk_body :: "nng_chunk \<Rightarrow> byte list" where
  "chunk_body c = take (ch_len c) (drop (ch_ptr c) (ch_buf c))"

text \<open>
  An owned buffer is installed as the body and disowned (\<open>len = 0\<close>); a borrowed one is copied by
  \<open>nng_msg_append\<close>, a parameter that appends to the body when it succeeds.
\<close>

definition nano_msg_set_body ::
  "(nng_chunk \<Rightarrow> byte list \<Rightarrow> nng_chunk) \<Rightarrow> nng_chunk \<Rightarrow> nano_buf \<Rightarrow> nat \<Rightarrow> nng_chunk \<times> nano_buf" where
  "nano_msg_set_body nng_msg_append msg buf headroom =
     (if nb_len buf \<noteq> 0
      then (\<lparr>ch_cap = nb_cur buf, ch_len = nb_cur buf - headroom, ch_buf = nb_buf buf,
             ch_ptr = headroom\<rparr>, buf\<lparr>nb_len := 0\<rparr>)
      else (nng_msg_append msg (take (nb_cur buf) (nb_buf buf)), buf))"

definition dispatch_read_msg_info :: "byte list \<Rightarrow> i32 \<times> bool" where
  "dispatch_read_msg_info buf =
     (if length buf > 12 \<and> buf ! 0 = 0x7 then (bytes_i32 (drop 4 buf), buf ! 3 = 0x1)
      else (0, False))"

section \<open>The buffer grows far enough and never wraps\<close>

lemma grow_len_simp:
  assumes "0 < len" "len < 2 * R_XLEN_T_MAX" "req \<le> R_XLEN_T_MAX" "len < req"
  shows "\<exists>l. grow_len len req = Some l \<and> req \<le> l \<and> len < l \<and> l < 2 * R_XLEN_T_MAX"
  using assms
proof (induction "req - len" arbitrary: len rule: less_induct)
  case less
  let ?d = "if len > NANONEXT_SERIAL_THR then NANONEXT_SERIAL_THR else len"
  have d: "0 < ?d" "?d \<le> len" using less.prems by (auto simp: size_consts)
  have b: "len + ?d < 2 * R_XLEN_T_MAX" using d less.prems by linarith
  then have w: "(len + ?d) mod 2 ^ 64 = len + ?d" by (simp add: size_consts)
  show ?case
  proof (cases "len + ?d < req")
    case True
    then obtain l where "grow_len (len + ?d) req = Some l" "req \<le> l" "len + ?d < l" "l < 2 * R_XLEN_T_MAX"
      using less.hyps [of "len + ?d"] less.prems d b by (metis add_gr_0 diff_less_mono2 less_add_same_cancel1)
    then show ?thesis
      using True d(1) unfolding grow_len.simps [of len] Let_def w by auto
  next
    case False
    then show ?thesis
      using b d(1) unfolding grow_len.simps [of len] Let_def w by auto
  qed
qed

lemma length_put_at: "cur + length src \<le> length bs \<Longrightarrow> length (put_at cur src bs) = length bs"
  by (simp add: put_at_def)

lemma take_put_at:
  "cur \<le> length bs \<Longrightarrow> take (cur + length src) (put_at cur src bs) = take cur bs @ src"
  by (simp add: put_at_def)

lemma write_bytes_step:
  assumes ok: "wbuf_ok b" and len: "length src < 2 ^ 31"
  shows "\<exists>r. nano_write_bytes alloc b src = Some r \<and>
    (case r of Inr b' \<Rightarrow> wbuf_ok b' \<and> encoded b' = encoded b @ src \<and> nb_cur b' = nb_cur b + length src
     | Inl _ \<Rightarrow> nb_cur b + length src > R_XLEN_T_MAX \<or> \<not> alloc)"
proof -
  let ?req = "nb_cur b + length src"
  have w: "?req mod 2 ^ 64 = ?req"
    using ok len by (simp add: wbuf_ok_def size_consts)
  show ?thesis
  proof (cases "?req > nb_len b")
    case False
    then show ?thesis
      using ok w by (auto simp: nano_write_bytes_def wbuf_ok_def encoded_def length_put_at take_put_at)
  next
    case True
    show ?thesis
    proof (cases "?req > R_XLEN_T_MAX")
      case big: True
      then show ?thesis using True w by (auto simp: nano_write_bytes_def Let_def)
    next
      case False
      then obtain l where l: "grow_len (nb_len b) ?req = Some l" "?req \<le> l" "l < 2 * R_XLEN_T_MAX"
        using grow_len_simp [of "nb_len b" ?req] ok True by (auto simp: wbuf_ok_def)
      have "length (realloc_to l (nb_buf b)) = l"
        using ok l True by (simp add: realloc_to_def wbuf_ok_def)
      moreover have "take (nb_cur b) (realloc_to l (nb_buf b)) = take (nb_cur b) (nb_buf b)"
        using ok by (simp add: realloc_to_def wbuf_ok_def)
      ultimately show ?thesis
        using ok True False l w
        by (auto simp: nano_write_bytes_def Let_def wbuf_ok_def encoded_def length_put_at take_put_at)
    qed
  qed
qed

lemma write_all_step:
  assumes "wbuf_ok b" "\<forall>w \<in> set ws. length w < 2 ^ 31"
  shows "\<exists>r. write_all alloc b ws = Some r \<and>
    (case r of Inr b' \<Rightarrow> wbuf_ok b' \<and> encoded b' = encoded b @ concat ws \<and> nb_cur b' = nb_cur b + length (concat ws)
     | Inl _ \<Rightarrow> nb_cur b + length (concat ws) > R_XLEN_T_MAX \<or> \<not> alloc)"
  using assms
proof (induction ws arbitrary: b)
  case Nil
  then show ?case by simp
next
  case (Cons w ws)
  from write_bytes_step [OF Cons.prems(1), of w alloc] Cons.prems(2)
  obtain r where r: "nano_write_bytes alloc b w = Some r"
    and p: "case r of Inr b' \<Rightarrow> wbuf_ok b' \<and> encoded b' = encoded b @ w \<and> nb_cur b' = nb_cur b + length w
     | Inl _ \<Rightarrow> nb_cur b + length w > R_XLEN_T_MAX \<or> \<not> alloc" by auto
  show ?case
  proof (cases r)
    case (Inl e)
    with r p show ?thesis by auto
  next
    case (Inr b')
    with p have b': "wbuf_ok b'" "encoded b' = encoded b @ w" "nb_cur b' = nb_cur b + length w" by auto
    from Cons.IH [OF b'(1)] Cons.prems(2)
    obtain r' where r': "write_all alloc b' ws = Some r'"
      and q: "case r' of Inr c \<Rightarrow> wbuf_ok c \<and> encoded c = encoded b' @ concat ws
                 \<and> nb_cur c = nb_cur b' + length (concat ws)
              | Inl _ \<Rightarrow> nb_cur b' + length (concat ws) > R_XLEN_T_MAX \<or> \<not> alloc" by auto
    have "write_all alloc b (w # ws) = Some r'" using r Inr r' by simp
    with q b' show ?thesis by (cases r') auto
  qed
qed

lemma concat_split_chunks: "concat (split_chunks bs) = bs"
  by (induction bs rule: split_chunks.induct) (simp add: split_chunks.simps)

lemma split_chunks_bound: "\<forall>c \<in> set (split_chunks bs). length c \<le> NANONEXT_CHUNK_SIZE"
proof (induction bs rule: split_chunks.induct)
  case (1 bs)
  then show ?case by (cases "length bs > NANONEXT_CHUNK_SIZE") (simp_all add: split_chunks.simps [of bs])
qed


lemma grow_len_step:
  "\<lbrakk>0 < len; len < 2 * R_XLEN_T_MAX; len' = len + min len NANONEXT_SERIAL_THR\<rbrakk> \<Longrightarrow>
   grow_len len req = (if len' < req then grow_len len' req else Some len')"
  by (subst grow_len.simps) (auto simp: size_consts min_def)

section \<open>What a serialization leaves in the buffer\<close>

text \<open>The bytes before the R stream: the reserved headroom and the package header.\<close>

definition prefix_bytes :: "int \<Rightarrow> i32 \<Rightarrow> nat \<Rightarrow> byte list" where
  "prefix_bytes special_marker header headroom =
     replicate headroom 0 @ (if header \<noteq> 0 \<or> special_marker \<noteq> 0
                             then [7, 0, 0, of_int special_marker] @ i32_bytes header else [])"

lemma i32_bytes_0: "i32_bytes 0 = [0, 0, 0, 0]"
  by (simp add: i32_bytes_def to_le_numeral)

lemma special_header_bytes:
  "special_header sp h = [7, 0, 0, of_int sp] @ i32_bytes h"
proof -
  have mem: "(replicate 8 (0::byte)) [0 := 7, 3 := of_int sp] = [7, 0, 0, of_int sp, 0, 0, 0, 0]"
    by (simp add: numeral_eq_Suc)
  show ?thesis
    unfolding special_header_def Let_def mem by (cases "h = 0") (simp_all add: put_at_def i32_bytes_0)
qed

lemma serialize_start:
  assumes "headroom + 8 \<le> NANONEXT_INIT_BUFSIZE"
  shows "\<exists>b1. nano_serialize True sp ws h headroom = write_all True b1 ws \<and> wbuf_ok b1
           \<and> encoded b1 = prefix_bytes sp h headroom \<and> nb_cur b1 = length (prefix_bytes sp h headroom)"
proof (cases "h \<noteq> 0 \<or> sp \<noteq> 0")
  case True
  let ?b = "\<lparr>nb_buf = put_at headroom (special_header sp h) (replicate NANONEXT_INIT_BUFSIZE 0),
             nb_len = NANONEXT_INIT_BUFSIZE, nb_cur = headroom + 8\<rparr>"
  have l: "length (special_header sp h) = 8" by (simp add: special_header_bytes)
  have "encoded ?b = replicate headroom 0 @ special_header sp h"
    using take_put_at [of headroom "replicate NANONEXT_INIT_BUFSIZE 0" "special_header sp h"] assms l
    by (simp add: encoded_def)
  moreover have "wbuf_ok ?b"
    using assms l by (simp add: wbuf_ok_def length_put_at) (simp add: size_consts)
  ultimately show ?thesis
    using True l by (intro exI [of _ ?b]) (auto simp: nano_serialize_def Let_def prefix_bytes_def special_header_bytes)
next
  case False
  let ?b = "\<lparr>nb_buf = replicate NANONEXT_INIT_BUFSIZE 0, nb_len = NANONEXT_INIT_BUFSIZE, nb_cur = headroom\<rparr>"
  have "wbuf_ok ?b" using assms by (simp add: wbuf_ok_def) (simp add: size_consts)
  with False assms show ?thesis
    by (intro exI [of _ ?b]) (auto simp: nano_serialize_def Let_def prefix_bytes_def encoded_def)
qed

text \<open>
  C16: the growing buffer is functionally a plain concatenation. For every sequence of blocks R's
  serializer hands over, \<open>nano_serialize\<close> returns (the \<open>size_t\<close> growth loop ends and does not
  wrap), and it either reports one of its two errors, the first only for more than
  \<open>R_XLEN_T_MAX\<close> bytes, or leaves exactly the headroom, the header and the blocks in order,
  inside the block it owns.
\<close>

theorem serialize_content:
  assumes "headroom + 8 \<le> NANONEXT_INIT_BUFSIZE" "\<forall>w \<in> set writes. length w < 2 ^ 31"
    "length (concat writes) \<le> R_XLEN_T_MAX - NANONEXT_INIT_BUFSIZE"
  shows "\<exists>b. nano_serialize True special_marker writes header headroom = Some (Inr b) \<and> wbuf_ok b
     \<and> encoded b = prefix_bytes special_marker header headroom @ concat writes"
proof -
  from serialize_start [OF assms(1)] obtain b1 where
    b1: "nano_serialize True special_marker writes header headroom = write_all True b1 writes" "wbuf_ok b1"
      "encoded b1 = prefix_bytes special_marker header headroom"
      "nb_cur b1 = length (prefix_bytes special_marker header headroom)" by blast
  from write_all_step [OF b1(2) assms(2), of True] obtain r where
    r: "write_all True b1 writes = Some r"
    and p: "case r of Inr b' \<Rightarrow> wbuf_ok b' \<and> encoded b' = encoded b1 @ concat writes
               \<and> nb_cur b' = nb_cur b1 + length (concat writes)
            | Inl _ \<Rightarrow> nb_cur b1 + length (concat writes) > R_XLEN_T_MAX \<or> \<not> True" by blast
  have le: "nb_cur b1 \<le> NANONEXT_INIT_BUFSIZE" "NANONEXT_INIT_BUFSIZE \<le> R_XLEN_T_MAX"
    using assms(1) by (auto simp: b1(4) prefix_bytes_def size_consts)
  then have "\<not> nb_cur b1 + length (concat writes) > R_XLEN_T_MAX"
    using assms(3) by linarith
  with p obtain b where "r = Inr b" by (cases r) auto
  with p r b1 show ?thesis by auto
qed

theorem serialize_content_witness:
  "\<exists>b. nano_serialize True 1 [[0x42, 10], [1, 2, 3]] 258 32 = Some (Inr b) \<and> wbuf_ok b
     \<and> encoded b = replicate 32 0 @ [7, 0, 0, 1, 2, 1, 0, 0, 0x42, 10, 1, 2, 3]"
proof -
  have "i32_bytes 258 = [2, 1, 0, 0]" by (simp add: i32_bytes_def to_le_numeral)
  then show ?thesis
    using serialize_content [of 32 "[[0x42, 10], [1, 2, 3]]" 1 258]
    by (simp add: size_consts prefix_bytes_def)
qed

text \<open>
  The dispatcher reads from a serialized request exactly what the sender's
  \<open>nano_serialize\<close> put in its header: the message id and the sync marker.
\<close>

theorem header_roundtrip:
  assumes "header \<noteq> 0 \<or> special_marker \<noteq> 0" "special_marker \<in> {0, 1}" "4 < length (concat writes)"
    "headroom + 8 \<le> NANONEXT_INIT_BUFSIZE" "\<forall>w \<in> set writes. length w < 2 ^ 31"
    "nano_serialize True special_marker writes header headroom = Some (Inr b)"
    "nano_msg_set_body appendf msg b headroom = (msg', b')"
  shows "dispatch_read_msg_info (chunk_body msg') = (header, special_marker = 1) \<and> nb_len b' = 0"
proof -
  from serialize_start [OF assms(4)] obtain b1 where
    b1: "nano_serialize True special_marker writes header headroom = write_all True b1 writes" "wbuf_ok b1"
      "encoded b1 = prefix_bytes special_marker header headroom" by blast
  from write_all_step [OF b1(2) assms(5), of True] assms(6) b1 have
    b: "wbuf_ok b" "encoded b = prefix_bytes special_marker header headroom @ concat writes" by auto
  have l: "nb_len b \<noteq> 0" using b(1) by (simp add: wbuf_ok_def)
  then have own: "nb_len b' = 0" using assms(7) by (auto simp: nano_msg_set_body_def)
  have "chunk_body msg' = drop headroom (encoded b)"
    using assms(7) l by (auto simp: nano_msg_set_body_def chunk_body_def encoded_def drop_take)
  also have "\<dots> = [7, 0, 0, of_int special_marker] @ i32_bytes header @ concat writes"
    using assms(1) by (auto simp: b(2) prefix_bytes_def)
  finally show ?thesis
    using own assms(2,3) by (auto simp: dispatch_read_msg_info_def)
qed


theorem header_roundtrip_witness:
  "\<exists>b. nano_serialize True 1 [[0x42, 10], [1, 2, 3]] 258 32 = Some (Inr b)
     \<and> dispatch_read_msg_info (chunk_body (fst (nano_msg_set_body (\<lambda>m _. m) \<lparr>ch_cap = 0, ch_len = 0, ch_buf = [], ch_ptr = 0\<rparr> b 32))) = (258, True)"
proof -
  obtain b where b: "nano_serialize True 1 [[0x42, 10], [1, 2, 3]] 258 32 = Some (Inr b)"
    using serialize_content [of 32 "[[0x42, 10], [1, 2, 3]]" 1 258]
    by (auto simp: size_consts)
  show ?thesis
    using header_roundtrip [OF _ _ _ _ _ b, of "\<lambda>m _. m" "\<lparr>ch_cap = 0, ch_len = 0, ch_buf = [], ch_ptr = 0\<rparr>"] b
    by (intro exI [of _ b]) (auto simp: size_consts prod_eq_iff)
qed

section \<open>The hooks against each other\<close>

lemma read_bytes_at:
  assumes "nb_len b = length (nb_buf b)" "nb_cur b \<le> nb_len b" "drop (nb_cur b) (nb_buf b) = xs @ rest"
  shows "nano_read_bytes b (length xs) = Inr (xs, b\<lparr>nb_cur := nb_cur b + length xs\<rparr>)
    \<and> drop (nb_cur b + length xs) (nb_buf b) = rest \<and> nb_cur b + length xs \<le> nb_len b"
proof -
  have "length (drop (nb_cur b) (nb_buf b)) = length xs + length rest" using assms(3) by simp
  then have le: "nb_cur b + length xs \<le> nb_len b" using assms(1,2) by simp
  have "drop (length xs) (drop (nb_cur b) (nb_buf b)) = rest" by (simp only: assms(3)) simp
  then have "drop (nb_cur b + length xs) (nb_buf b) = rest" by (simp add: add.commute)
  then show ?thesis using le by (simp add: nano_read_bytes_def assms(3))
qed

lemma read_chunks_at:
  assumes "nb_len b = length (nb_buf b)" "nb_cur b \<le> nb_len b" "drop (nb_cur b) (nb_buf b) = xs @ rest"
  shows "read_chunks b (length xs) = Inr (xs, b\<lparr>nb_cur := nb_cur b + length xs\<rparr>)"
  using assms
proof (induction "length xs" arbitrary: b xs rule: less_induct)
  case less
  show ?case
  proof (cases "length xs > NANONEXT_CHUNK_SIZE")
    case False
    then show ?thesis using read_bytes_at [OF less.prems] by (simp add: read_chunks.simps [of b])
  next
    case True
    let ?x = "take NANONEXT_CHUNK_SIZE xs" and ?y = "drop NANONEXT_CHUNK_SIZE xs"
    let ?b = "b\<lparr>nb_cur := nb_cur b + length ?x\<rparr>"
    have l: "length ?x = NANONEXT_CHUNK_SIZE" "length ?y = length xs - NANONEXT_CHUNK_SIZE"
      using True by auto
    have s: "drop (nb_cur b) (nb_buf b) = ?x @ (?y @ rest)" using less.prems(3) by simp
    from read_bytes_at [OF less.prems(1,2) s] have
      r: "nano_read_bytes b NANONEXT_CHUNK_SIZE = Inr (?x, ?b)"
         "drop (nb_cur b + length ?x) (nb_buf b) = ?y @ rest" "nb_cur b + length ?x \<le> nb_len b"
      by (simp_all only: l)
    have "length ?y < length xs" using True by (simp add: size_consts)
    then have "read_chunks ?b (length ?y) = Inr (?y, ?b\<lparr>nb_cur := nb_cur ?b + length ?y\<rparr>)"
      using less.hyps [of ?y ?b] r less.prems(1) by simp
    then show ?thesis
      using True r(1) l by (simp add: read_chunks.simps [of b])
  qed
qed

text \<open>The part of a hook frame R itself reads: the flags, the length word and the size string.\<close>

definition hook_frame_head :: "byte list \<Rightarrow> byte list" where
  "hook_frame_head out = i32_bytes 247 @ i32_bytes 0 @ i32_bytes 1 @ i32_bytes 9 @ i32_bytes 20
     @ bytes_of (dec_pad 20 (length out))"

lemma hook_writes_concat:
  "concat (hook_writes i out) = hook_frame_head out @ out @ i32_bytes (of_nat i)"
  by (simp add: hook_writes_def hook_frame_head_def concat_split_chunks)

lemma hook_writes_bound: "\<forall>w \<in> set (hook_writes i out). length w < 2 ^ 31"
  using split_chunks_bound [of out] by (fastforce simp: hook_writes_def size_consts)

lemma unserialize_hook_frame:
  assumes "length out < 10 ^ 20" "i < nfuncs" "i < 2 ^ 31" "length trailer = 20"
    "nb_len b = length (nb_buf b)" "nb_cur b \<le> nb_len b"
    "drop (nb_cur b) (nb_buf b) = out @ i32_bytes (of_nat i) @ trailer @ rest"
  shows "nano_unserialize_hook (dec_pad 20 (length out)) nfuncs b
     = UnserCall i out (b\<lparr>nb_cur := nb_cur b + length out + 24\<rparr>)"
proof -
  let ?b1 = "b\<lparr>nb_cur := nb_cur b + length out\<rparr>" and ?i = "i32_bytes (of_nat i)"
  let ?b2 = "?b1\<lparr>nb_cur := nb_cur ?b1 + 4\<rparr>"
  have sz: "strtoull_from 0 (dec_pad 20 (length out)) = length out"
    using assms(1) by (simp add: strtoull_dec_pad)
  have rc: "read_chunks b (length out) = Inr (out, ?b1)"
    by (rule read_chunks_at [OF assms(5,6)]) (simp add: assms(7))
  have 1: "nb_cur ?b1 \<le> nb_len ?b1" "drop (nb_cur ?b1) (nb_buf ?b1) = ?i @ trailer @ rest"
    using read_bytes_at [OF assms(5,6) assms(7)] by auto
  have r1: "nano_read_bytes ?b1 4 = Inr (?i, ?b2)"
    and 2: "nb_cur ?b2 \<le> nb_len ?b2" "drop (nb_cur ?b2) (nb_buf ?b2) = trailer @ rest"
    using read_bytes_at [OF _ 1] assms(5) by (simp_all add: add.assoc)
  have b2: "?b2 = b\<lparr>nb_cur := nb_cur b + length out + 4\<rparr>" by simp
  have r2: "nano_read_bytes ?b2 20 = Inr (trailer, b\<lparr>nb_cur := nb_cur b + length out + 24\<rparr>)"
    using read_bytes_at [OF _ 2] assms(4,5) by simp
  have "sint (bytes_i32 ?i) = int i"
    using bytes_i32_bytes [of "of_nat i" "[]"] assms(3) by (simp add: signed_of_nat signed_take_bit_int_eq_self)
  with assms(2) show ?thesis
    unfolding nano_unserialize_hook_def Let_def sz
    by (simp add: rc r1 r2 [unfolded b2])
qed



end
