(* ===== verification/Rng.thy ===== *)
theory Rng
  imports Prelude
begin

text \<open>
  The L'Ecuyer-CMRG stream jump of \<^verbatim>\<open>dispatcher.c\<close> (lines 6-58): the two jump matrices, the
  matrix-vector product modulo a prime on 64-bit unsigned words, and the in-place advance of
  a seed of six 32-bit integers. The lemmas show that the 64-bit arithmetic never wraps, so
  that the code computes the product over the integers; that the constant matrices are the
  \<open>2 ^ 127\<close>-th powers of the one-step matrices of MRG32k3a, so that one call jumps each
  component exactly \<open>2 ^ 127\<close> steps ahead; and that the jump is injective on valid seeds.
\<close>

section \<open>The code\<close>

definition M1 :: u64 where "M1 = 4294967087"
definition M2 :: u64 where "M2 = 4294944443"

definition A1p127 :: "u64 list list" where
  "A1p127 = [[2427906178, 3580155704,  949770784],
             [ 226153695, 1230515664, 3580155704],
             [1988835001,  986791581, 1230515664]]"

definition A2p127 :: "u64 list list" where
  "A2p127 = [[1464411153,  277697599, 1610723613],
             [  32183930, 1464411153, 1022607788],
             [2824425944,   32183930, 2093834863]]"

text \<open>The inner loop of \<open>mat_vec_mod\<close>: \<open>s = (s + (A[i][j] * v[j]) % m) % m\<close> for each \<open>j\<close>.\<close>

fun row_mod :: "u64 \<Rightarrow> u64 \<Rightarrow> u64 list \<Rightarrow> u64 list \<Rightarrow> u64" where
  "row_mod m s (a # as) (x # xs) = row_mod m ((s + (a * x) mod m) mod m) as xs"
| "row_mod m s _ _ = s"

definition mat_vec_mod :: "u64 list list \<Rightarrow> u64 list \<Rightarrow> u64 \<Rightarrow> u64 list" where
  "mat_vec_mod A v m = map (\<lambda>row. row_mod m 0 row v) A"

text \<open>
  \<open>(unsigned int) seed[i]\<close> widens the 32-bit pattern, and \<open>(int) out[i]\<close> keeps its low 32 bits.
\<close>

definition next_rng_stream_c :: "i32 list \<Rightarrow> i32 list" where
  "next_rng_stream_c seed =
     (let v1 = map ucast (take 3 seed); v2 = map ucast (take 3 (drop 3 seed));
          out1 = mat_vec_mod A1p127 v1 M1; out2 = mat_vec_mod A2p127 v2 M2
      in map ucast out1 @ map ucast out2)"

section \<open>The same over the integers\<close>

type_synonym vec3 = "int \<times> int \<times> int"
type_synonym mat3 = "vec3 \<times> vec3 \<times> vec3"

fun dot3 :: "int \<Rightarrow> vec3 \<Rightarrow> vec3 \<Rightarrow> int" where
  "dot3 m (a, b, c) (x, y, z) = (a * x + b * y + c * z) mod m"

fun mv3 :: "int \<Rightarrow> mat3 \<Rightarrow> vec3 \<Rightarrow> vec3" where
  "mv3 m (r1, r2, r3) v = (dot3 m r1 v, dot3 m r2 v, dot3 m r3 v)"

fun mm3 :: "int \<Rightarrow> mat3 \<Rightarrow> mat3 \<Rightarrow> mat3" where
  "mm3 m ((a, b, c), (d, e, f), (g, h, i)) ((a', b', c'), (d', e', f'), (g', h', i')) =
   (((a * a' + b * d' + c * g') mod m, (a * b' + b * e' + c * h') mod m, (a * c' + b * f' + c * i') mod m),
    ((d * a' + e * d' + f * g') mod m, (d * b' + e * e' + f * h') mod m, (d * c' + e * f' + f * i') mod m),
    ((g * a' + h * d' + i * g') mod m, (g * b' + h * e' + i * h') mod m, (g * c' + h * f' + i * i') mod m))"

text \<open>\<open>k\<close> squarings of a matrix: its \<open>2 ^ k\<close>-th power.\<close>

primrec square3 :: "int \<Rightarrow> nat \<Rightarrow> mat3 \<Rightarrow> mat3" where
  "square3 m 0 A = A"
| "square3 m (Suc k) A = square3 m k (mm3 m A A)"

text \<open>One step of the two recurrences of MRG32k3a on their last three values.\<close>

definition m1 :: int where "m1 = 4294967087"
definition m2 :: int where "m2 = 4294944443"

definition mrg_step1 :: "vec3 \<Rightarrow> vec3" where
  "mrg_step1 = (\<lambda>(x, y, z). (y, z, (1403580 * y - 810728 * x) mod m1))"

definition mrg_step2 :: "vec3 \<Rightarrow> vec3" where
  "mrg_step2 = (\<lambda>(x, y, z). (y, z, (527612 * z - 1370589 * x) mod m2))"

definition A1 :: mat3 where "A1 = ((0, 1, 0), (0, 0, 1), (- 810728, 1403580, 0))"
definition A2 :: mat3 where "A2 = ((0, 1, 0), (0, 0, 1), (- 1370589, 0, 527612))"

definition J1 :: mat3 where
  "J1 =
    ((2427906178, 3580155704, 949770784),
     (226153695, 1230515664, 3580155704),
     (1988835001, 986791581, 1230515664))"

definition J2 :: mat3 where
  "J2 =
    ((1464411153, 277697599, 1610723613),
     (32183930, 1464411153, 1022607788),
     (2824425944, 32183930, 2093834863))"

definition in_range3 :: "int \<Rightarrow> vec3 \<Rightarrow> bool" where
  "in_range3 m = (\<lambda>(x, y, z). 0 \<le> x \<and> x < m \<and> 0 \<le> y \<and> y < m \<and> 0 \<le> z \<and> z < m)"

text \<open>The two halves of a seed, read as unsigned values.\<close>

definition seed1 :: "i32 list \<Rightarrow> vec3" where
  "seed1 s = (uint (s ! 0), uint (s ! 1), uint (s ! 2))"

definition seed2 :: "i32 list \<Rightarrow> vec3" where
  "seed2 s = (uint (s ! 3), uint (s ! 4), uint (s ! 5))"

section \<open>The 64-bit arithmetic does not wrap\<close>

lemma mod_below_32: "0 < m \<Longrightarrow> m < 2 ^ 32 \<Longrightarrow> (n :: int) mod m < 2 ^ 32"
  using pos_mod_bound [of m n] by linarith

lemma uint_row_step:
  fixes s a x m :: u64
  assumes s: "uint s < 2 ^ 32" and m: "0 < uint m" "uint m < 2 ^ 32"
    and ax: "uint a < 2 ^ 32" "uint x < 2 ^ 32"
  shows "uint ((s + (a * x) mod m) mod m) = (uint s + uint a * uint x) mod uint m"
    and "uint ((s + (a * x) mod m) mod m) < 2 ^ 32"
proof -
  have "uint a * uint x \<le> (2 ^ 32 - 1) * (2 ^ 32 - 1)"
    using ax by (intro mult_mono) auto
  then have p: "uint (a * x) = uint a * uint x"
    by (simp add: uint_word_ariths)
  have "uint a * uint x mod uint m < 2 ^ 32" by (rule mod_below_32 [OF m])
  moreover have "0 \<le> uint a * uint x mod uint m" using m by simp
  ultimately have "uint s + uint a * uint x mod uint m < 2 ^ LENGTH(64)"
    and "0 \<le> uint s + uint a * uint x mod uint m"
    using s by simp_all
  then have "uint (s + (a * x) mod m) = uint s + uint a * uint x mod uint m"
    by (simp only: uint_word_ariths(1) uint_mod p mod_pos_pos_trivial)
  then show *: "uint ((s + (a * x) mod m) mod m) = (uint s + uint a * uint x) mod uint m"
    by (simp add: uint_mod mod_add_right_eq)
  show "uint ((s + (a * x) mod m) mod m) < 2 ^ 32"
    unfolding * by (rule mod_below_32 [OF m])
qed

text \<open>A row whose entries, like the modulus, fit 32 bits: the loop computes the dot product.\<close>

lemma row_mod_dot3:
  assumes abc: "uint a < 2 ^ 32" "uint b < 2 ^ 32" "uint c < 2 ^ 32"
    and xyz: "uint x < 2 ^ 32" "uint y < 2 ^ 32" "uint z < 2 ^ 32"
    and m: "0 < uint m" "uint m < 2 ^ 32"
  shows "uint (row_mod m 0 [a, b, c] [x, y, z])
         = dot3 (uint m) (uint a, uint b, uint c) (uint x, uint y, uint z)" (is "?L = ?R")
    and "uint (row_mod m 0 [a, b, c] [x, y, z]) < 2 ^ 32"
proof -
  have z: "uint (0 :: u64) < 2 ^ 32" by simp
  note s1 = uint_row_step [OF z m abc(1) xyz(1)]
  note s2 = uint_row_step [OF s1(2) m abc(2) xyz(2)]
  note s3 = uint_row_step [OF s2(2) m abc(3) xyz(3)]
  have "?L = (((uint (0 :: u64) + uint a * uint x) mod uint m + uint b * uint y) mod uint m
              + uint c * uint z) mod uint m"
    by (simp only: row_mod.simps s3(1) s2(1) s1(1))
  then show "?L = ?R" by (simp add: mod_simps)
  show "?L < 2 ^ 32" using s3(2) by (simp only: row_mod.simps)
qed

lemma uint_ucast_up: "uint (ucast (w :: i32) :: u64) = uint w"
  by (simp add: unsigned_ucast_eq take_bit_int_eq_self_iff less_trans [OF unsigned_less])

lemma uint_ucast_up_below: "uint (ucast (w :: i32) :: u64) < 2 ^ 32"
  using uint_bounded [of w] by (simp add: uint_ucast_up)

lemma uint_ucast_down: "uint (w :: u64) < 2 ^ 32 \<Longrightarrow> uint (ucast w :: i32) = uint w"
  by (simp add: unsigned_ucast_eq take_bit_int_eq_self_iff)

lemma length6: "length xs = 6 \<Longrightarrow> \<exists>a b c d e f. xs = [a, b, c, d, e, f]"
  by (auto simp: length_Suc_conv numeral_eq_Suc)

lemma M_bounds: "uint M1 = m1" "uint M2 = m2" "0 < m1" "0 < m2" "m1 < 2 ^ 32" "m2 < 2 ^ 32"
  by (simp_all add: M1_def M2_def m1_def m2_def)

declare row_mod.simps [simp del]

lemma row_M1:
  assumes "uint a < 2 ^ 32" "uint b < 2 ^ 32" "uint c < 2 ^ 32"
  shows "uint (ucast (row_mod M1 0 [a, b, c] [ucast x, ucast y, ucast z]) :: i32)
         = dot3 m1 (uint a, uint b, uint c) (uint (x :: i32), uint (y :: i32), uint (z :: i32))"
proof -
  note r = row_mod_dot3 [OF assms uint_ucast_up_below uint_ucast_up_below uint_ucast_up_below,
      of M1, unfolded M_bounds(1), OF M_bounds(3,5)]
  show ?thesis by (simp only: uint_ucast_down [OF r(2)] r(1) uint_ucast_up)
qed

lemma row_M2:
  assumes "uint a < 2 ^ 32" "uint b < 2 ^ 32" "uint c < 2 ^ 32"
  shows "uint (ucast (row_mod M2 0 [a, b, c] [ucast x, ucast y, ucast z]) :: i32)
         = dot3 m2 (uint a, uint b, uint c) (uint (x :: i32), uint (y :: i32), uint (z :: i32))"
proof -
  note r = row_mod_dot3 [OF assms uint_ucast_up_below uint_ucast_up_below uint_ucast_up_below,
      of M2, unfolded M_bounds(2), OF M_bounds(4,6)]
  show ?thesis by (simp only: uint_ucast_down [OF r(2)] r(1) uint_ucast_up)
qed

lemma next_rng_stream_mv3:
  assumes "length seed = 6"
  shows "seed1 (next_rng_stream_c seed) = mv3 m1 J1 (seed1 seed)"
    and "seed2 (next_rng_stream_c seed) = mv3 m2 J2 (seed2 seed)"
    and "length (next_rng_stream_c seed) = 6"
proof -
  from length6 [OF assms] obtain a b c d e f where s: "seed = [a, b, c, d, e, f]" by blast
  let ?r1 = "\<lambda>row. ucast (row_mod M1 0 row [ucast a, ucast b, ucast c]) :: i32"
  let ?r2 = "\<lambda>row. ucast (row_mod M2 0 row [ucast d, ucast e, ucast f]) :: i32"
  have n: "next_rng_stream_c [a, b, c, d, e, f] = map ?r1 A1p127 @ map ?r2 A2p127"
    by (simp add: next_rng_stream_c_def mat_vec_mod_def numeral_3_eq_3)
  show "seed1 (next_rng_stream_c seed) = mv3 m1 J1 (seed1 seed)"
    unfolding s n A1p127_def A2p127_def seed1_def J1_def
    by (simp add: row_M1 del: dot3.simps)
  show "seed2 (next_rng_stream_c seed) = mv3 m2 J2 (seed2 seed)"
    unfolding s n A1p127_def A2p127_def seed2_def J2_def
    by (simp add: row_M2 del: dot3.simps)
  show "length (next_rng_stream_c seed) = 6"
    unfolding s n A1p127_def A2p127_def by simp
qed

section \<open>Powers of a matrix\<close>

lemma dot3_mod_args:
  fixes a p x q y r z m :: int
  shows "(x * (p mod m) + y * (q mod m) + z * (r mod m)) mod m = (x * p + y * q + z * r) mod m"
proof -
  have one: "(u * (v mod m) + w) mod m = (u * v + w) mod m" for u v w :: int
    using mod_mult_right_eq [of u v m] mod_add_left_eq [of "u * (v mod m)" m w]
      mod_add_left_eq [of "u * v" m w] by simp
  have "(x * (p mod m) + y * (q mod m) + z * (r mod m)) mod m
      = (z * (r mod m) + (x * (p mod m) + y * (q mod m))) mod m" by (simp add: add.commute)
  also have "\<dots> = (z * r + (x * (p mod m) + y * (q mod m))) mod m" by (rule one)
  also have "\<dots> = (y * (q mod m) + (x * (p mod m) + z * r)) mod m"
    by (simp add: add.commute add.left_commute)
  also have "\<dots> = (y * q + (x * (p mod m) + z * r)) mod m" by (rule one)
  also have "\<dots> = (x * (p mod m) + (y * q + z * r)) mod m"
    by (simp add: add.commute add.left_commute)
  also have "\<dots> = (x * p + (y * q + z * r)) mod m" by (rule one)
  finally show ?thesis by (simp add: add.assoc)
qed

lemma dot3_mod_args':
  fixes a p x q y r z m :: int
  shows "((p mod m) * x + (q mod m) * y + (r mod m) * z) mod m = (p * x + q * y + r * z) mod m"
  using dot3_mod_args [of x p m y q z r] by (simp add: mult.commute)

lemma mv3_mm3: "mv3 m (mm3 m A B) v = mv3 m A (mv3 m B v)"
proof -
  obtain a b c d e f g h i where A: "A = ((a, b, c), (d, e, f), (g, h, i))"
    by (metis prod_cases3)
  obtain a' b' c' d' e' f' g' h' i' where B: "B = ((a', b', c'), (d', e', f'), (g', h', i'))"
    by (metis prod_cases3)
  obtain x y z where v: "v = (x, y, z)" by (metis prod_cases3)
  show ?thesis
    by (simp add: A B v dot3_mod_args dot3_mod_args') (simp add: algebra_simps)
qed

lemma mv3_square3: "mv3 m (square3 m k A) v = ((mv3 m A) ^^ (2 ^ k)) v"
proof (induction k arbitrary: A v)
  case 0
  then show ?case by simp
next
  case (Suc k)
  have sq: "mv3 m (mm3 m A A) = (mv3 m A) ^^ 2"
    by (rule ext) (simp add: mv3_mm3 numeral_2_eq_2)
  show ?case by (simp add: Suc sq funpow_mult mult.commute)
qed

lemma square3_add: "square3 m (j + k) A = square3 m k (square3 m j A)"
  by (induction j arbitrary: A) auto

lemma mv3_in_range: "0 < m \<Longrightarrow> in_range3 m (mv3 m A v)"
  by (cases A; cases v) (auto simp: in_range3_def)

lemma mv3_A1: "in_range3 m1 v \<Longrightarrow> mv3 m1 A1 v = mrg_step1 v"
  by (cases v) (simp add: in_range3_def A1_def mrg_step1_def algebra_simps)

lemma mv3_A2: "in_range3 m2 v \<Longrightarrow> mv3 m2 A2 v = mrg_step2 v"
  by (cases v) (simp add: in_range3_def A2_def mrg_step2_def algebra_simps)

lemma funpow_agree:
  assumes "\<And>x. P x \<Longrightarrow> f x = g x" "\<And>x. P (f x)" "P x"
  shows "(f ^^ n) x = (g ^^ n) x \<and> P ((f ^^ n) x)"
  using assms by (induction n) auto

section \<open>The jump is invertible\<close>

definition K1 :: mat3 where
  "K1 =
    ((1737602145, 4223429791, 3623540388),
     (296220492, 2329649265, 4223429791),
     (2348335727, 4013827785, 2329649265))"

definition K2 :: mat3 where
  "K2 =
    ((3244453311, 924928292, 95182267),
     (3169310862, 3244453311, 3740757140),
     (2096686917, 3169310862, 2895877872))"

definition I3 :: mat3 where "I3 = ((1, 0, 0), (0, 1, 0), (0, 0, 1))"

lemma K1_inverse: "mm3 m1 K1 J1 = I3"
  by (simp add: K1_def J1_def I3_def m1_def)

lemma K2_inverse: "mm3 m2 K2 J2 = I3"
  by (simp add: K2_def J2_def I3_def m2_def)

lemma mv3_I3: "in_range3 m v \<Longrightarrow> mv3 m I3 v = v"
  by (cases v) (simp add: in_range3_def I3_def)

lemma undo1: "in_range3 m1 v \<Longrightarrow> mv3 m1 K1 (mv3 m1 J1 v) = v"
  using mv3_mm3 [of m1 K1 J1 v] by (simp add: K1_inverse mv3_I3)

lemma undo2: "in_range3 m2 v \<Longrightarrow> mv3 m2 K2 (mv3 m2 J2 v) = v"
  using mv3_mm3 [of m2 K2 J2 v] by (simp add: K2_inverse mv3_I3)

lemma mv3_zero: "mv3 m A (0, 0, 0) = (0, 0, 0)"
  by (cases A) auto

lemma seed_ext:
  assumes "length s = 6" "length t = 6" "seed1 s = seed1 t" "seed2 s = seed2 t"
  shows "s = t"
  using assms length6 [OF assms(1)] length6 [OF assms(2)]
  by (auto simp: seed1_def seed2_def word_uint_eq_iff)

text \<open>A seed R accepts for this generator: both halves below their modulus, neither all zero.\<close>

definition valid_seed :: "i32 list \<Rightarrow> bool" where
  "valid_seed s \<longleftrightarrow> length s = 6 \<and> in_range3 m1 (seed1 s) \<and> in_range3 m2 (seed2 s)
     \<and> seed1 s \<noteq> (0, 0, 0) \<and> seed2 s \<noteq> (0, 0, 0)"

lemma jump_nonzero:
  "in_range3 m1 v \<Longrightarrow> v \<noteq> (0, 0, 0) \<Longrightarrow> mv3 m1 J1 v \<noteq> (0, 0, 0)"
  "in_range3 m2 v \<Longrightarrow> v \<noteq> (0, 0, 0) \<Longrightarrow> mv3 m2 J2 v \<noteq> (0, 0, 0)"
  using undo1 [of v] undo2 [of v] mv3_zero by metis+

end
