(* ===== verification/RngPower.thy ===== *)
theory RngPower
  imports Rng
begin

text \<open>
  The numerical part of the stream jump: the matrices in \<^verbatim>\<open>dispatcher.c\<close> are the one-step
  matrices of MRG32k3a squared 127 times. Each squaring is evaluated by the simplifier; the
  chain is cut into four pieces per matrix.
\<close>

definition B1_1 :: mat3 where
  "B1_1 =
    ((1891490872, 1130489594, 3734864133),
     (1457450350, 3362920032, 1130489594),
     (638998846, 1401175590, 3362920032))"

definition B1_2 :: mat3 where
  "B1_2 =
    ((3426136514, 4123590610, 2477690850),
     (1284315665, 1604068527, 4123590610),
     (1818147893, 320435440, 1604068527))"

definition B1_3 :: mat3 where
  "B1_3 =
    ((544639534, 568528663, 2177189807),
     (2475829068, 121482268, 568528663),
     (876978915, 3116647617, 121482268))"

lemma B1_step1: "square3 m1 32 A1 = B1_1"
  by code_simp

lemma B1_step2: "square3 m1 32 B1_1 = B1_2"
  by code_simp

lemma B1_step3: "square3 m1 32 B1_2 = B1_3"
  by code_simp

lemma B1_step4: "square3 m1 31 B1_3 = J1"
  by code_simp

lemma A1_power: "square3 m1 127 A1 = J1"
  using square3_add [of m1 32 95 A1] square3_add [of m1 32 63 B1_1]
    square3_add [of m1 32 31 B1_2]
  by (simp add: B1_step1 B1_step2 B1_step3 B1_step4)

lemma jump1: "in_range3 m1 v \<Longrightarrow> mv3 m1 J1 v = (mrg_step1 ^^ (2 ^ 127)) v"
  using funpow_agree [of "in_range3 m1" "mv3 m1 A1" mrg_step1 v "2 ^ 127"]
    mv3_square3 [of m1 127 A1 v] mv3_A1 mv3_in_range [of m1 A1] M_bounds(3)
  by (simp only: A1_power)

definition B2_1 :: mat3 where
  "B2_1 =
    ((2709640529, 676525399, 875361870),
     (1315499519, 2709640529, 3842690720),
     (3300994644, 1315499519, 2446760804))"

definition B2_2 :: mat3 where
  "B2_2 =
    ((185429251, 88142322, 3372328450),
     (1198432931, 185429251, 1527068783),
     (2880072915, 1198432931, 2782214191))"

definition B2_3 :: mat3 where
  "B2_3 =
    ((958383622, 3694638688, 1150087061),
     (3770009830, 958383622, 793326651),
     (533700213, 3770009830, 1513734026))"

lemma B2_step1: "square3 m2 32 A2 = B2_1"
  by code_simp

lemma B2_step2: "square3 m2 32 B2_1 = B2_2"
  by code_simp

lemma B2_step3: "square3 m2 32 B2_2 = B2_3"
  by code_simp

lemma B2_step4: "square3 m2 31 B2_3 = J2"
  by code_simp

lemma A2_power: "square3 m2 127 A2 = J2"
  using square3_add [of m2 32 95 A2] square3_add [of m2 32 63 B2_1]
    square3_add [of m2 32 31 B2_2]
  by (simp add: B2_step1 B2_step2 B2_step3 B2_step4)

lemma jump2: "in_range3 m2 v \<Longrightarrow> mv3 m2 J2 v = (mrg_step2 ^^ (2 ^ 127)) v"
  using funpow_agree [of "in_range3 m2" "mv3 m2 A2" mrg_step2 v "2 ^ 127"]
    mv3_square3 [of m2 127 A2 v] mv3_A2 mv3_in_range [of m2 A2] M_bounds(4)
  by (simp only: A2_power)

section \<open>The stream jump\<close>

lemma next_valid: "valid_seed s \<Longrightarrow> valid_seed (next_rng_stream_c s)"
  using next_rng_stream_mv3 [of s] mv3_in_range [of m1 J1] mv3_in_range [of m2 J2] M_bounds(3,4)
  by (simp add: valid_seed_def jump_nonzero)

text \<open>
  C6: \<open>next_rng_stream_c\<close>, computed in 64-bit words on the two 3-by-3 tables of the source, is
  exactly 2^127 steps of the L'Ecuyer-CMRG recurrences on each half of the seed, whatever the
  six words are as long as each half is below its modulus.
\<close>

theorem rng_stream_jump:
  assumes "length seed = 6" "in_range3 m1 (seed1 seed)" "in_range3 m2 (seed2 seed)"
  shows "seed1 (next_rng_stream_c seed) = (mrg_step1 ^^ (2 ^ 127)) (seed1 seed)
    \<and> seed2 (next_rng_stream_c seed) = (mrg_step2 ^^ (2 ^ 127)) (seed2 seed)"
  using next_rng_stream_mv3 [OF assms(1)] jump1 [OF assms(2)] jump2 [OF assms(3)] by simp

theorem rng_stream_jump_witness:
  "seed1 (next_rng_stream_c [1, 2, 3, 4, 5, 6]) = (mrg_step1 ^^ (2 ^ 127)) (1, 2, 3)"
proof -
  have v: "in_range3 m1 (seed1 [1, 2, 3, 4, 5, 6])" "in_range3 m2 (seed2 [1, 2, 3, 4, 5, 6])"
    "seed1 [1, 2, 3, 4, 5, 6] = (1, 2, 3)"
    by (simp_all add: in_range3_def seed1_def seed2_def m1_def m2_def)
  have l: "length [1, 2, 3, 4, 5, 6 :: i32] = 6" by simp
  show ?thesis using rng_stream_jump [OF l v(1,2)] unfolding v(3) by (rule conjunct1)
qed

text \<open>
  A valid seed of R's generator stays valid for every daemon that ever connects, and the jump
  is injective: no two different streams are merged.
\<close>

theorem rng_stream_valid_injective:
  assumes "valid_seed s" "valid_seed t"
  shows "valid_seed ((next_rng_stream_c ^^ n) s)
    \<and> (next_rng_stream_c s = next_rng_stream_c t \<longrightarrow> s = t)"
proof
  show "valid_seed ((next_rng_stream_c ^^ n) s)"
    using assms(1) by (induction n) (auto simp: next_valid)
  show "next_rng_stream_c s = next_rng_stream_c t \<longrightarrow> s = t"
  proof
    assume e: "next_rng_stream_c s = next_rng_stream_c t"
    have l: "length s = 6" "length t = 6" using assms by (auto simp: valid_seed_def)
    have "seed1 s = seed1 t" "seed2 s = seed2 t"
      using undo1 [of "seed1 s"] undo1 [of "seed1 t"] undo2 [of "seed2 s"] undo2 [of "seed2 t"]
        assms next_rng_stream_mv3 [OF l(1)] next_rng_stream_mv3 [OF l(2)] e
      by (auto simp: valid_seed_def)
    then show "s = t" using l seed_ext by blast
  qed
qed

theorem rng_stream_valid_injective_witness:
  "valid_seed ((next_rng_stream_c ^^ 3) [1, 2, 3, 4, 5, 6])
   \<and> next_rng_stream_c [1, 2, 3, 4, 5, 6] \<noteq> next_rng_stream_c [1, 2, 3, 4, 5, 7]"
proof -
  have v: "valid_seed [1, 2, 3, 4, 5, 6]" "valid_seed [1, 2, 3, 4, 5, 7]"
    by (simp_all add: valid_seed_def in_range3_def seed1_def seed2_def m1_def m2_def)
  show ?thesis
    using rng_stream_valid_injective [OF v, of 3] by simp
qed

end
