(* ===== verification/Dispatcher.thy ===== *)
theory Dispatcher
  imports Complex_Main Serial Rng
begin

text \<open>
  The in-process dispatcher of \<^verbatim>\<open>dispatcher.c\<close>: requests arrive from the host on REP contexts,
  wait in the input queue, are assigned to idle daemons, and the daemons' replies go back on the
  context of their request. This theory holds the state and one definition per operation, each
  the body of one function run under the dispatcher's mutex (a handler that takes the lock twice
  is split at the unlock).

  NNG is outside: what the code asks of it (sends, receives, closes, frees, wake-ups) is recorded
  in order in the field \<open>calls\<close>; what NNG and the allocator answer are arguments. The links
  of the input queue through the messages' headers are refined in the theory \<open>InQueue\<close>; here
  the queue is the list of its nodes, head first.
\<close>

section \<open>State\<close>

datatype daemon_state = DAEMON_INIT | DAEMON_IDLE | DAEMON_BUSY

text \<open>What the dispatcher asks of NNG, in program order.\<close>

datatype dcall =
    InitSend nat int "byte list"
  | TaskSend nat int "byte list"
  | SigSend int
  | HostRecv nat
  | DaemonRecv
  | ReplySend nat "byte list"
  | CtxClose nat
  | PipeClose int
  | MsgFree "byte list"
  | CvWake
  | SenderFree nat

text \<open>An input queue node: a message and the fields the code stores in its header.\<close>

record qnode =
  q_msg :: "byte list"
  q_ctx :: nat
  q_msgid :: i32
  q_is_sync :: bool

text \<open>
  A per-daemon sender. \<open>s_busy\<close> and \<open>s_msg\<close> are the task aio (in flight; the message
  still on it), \<open>s_init\<close> is the message on the init aio.
\<close>

record dsend =
  s_pipe :: int
  s_sending :: bool
  s_init :: "byte list"
  s_busy :: bool
  s_msg :: "byte list option"

text \<open>A reply holder on the active list.\<close>

record reply =
  r_ctx :: nat
  r_busy :: bool
  r_msg :: "byte list option"

record daemon =
  d_pipe :: int
  d_state :: daemon_state
  d_msgid :: i32
  d_sync_gen :: int
  d_ctx :: nat
  d_ds :: nat

text \<open>
  The dispatcher. \<open>nslots\<close> is the length of \<open>daemons\<close>; \<open>reply_free\<close> counts the pooled
  holders; \<open>senders\<close> is the heap of sender structures; \<open>blocked\<close> records whether
  \<open>nng_aio_wait\<close> was ever reached on an aio in flight. Byte totals are \<open>size_t\<close>.
\<close>

record dispatcher =
  inq :: "qnode list"
  inq_count :: int
  daemons :: "daemon list"
  outq_capacity :: nat
  outq_count :: int
  connections :: int
  d_count :: int
  executing :: int
  stopped :: bool
  host_ctx :: nat
  sig_active :: bool
  sig_queue :: "int list"
  retired :: "nat list"
  reply_active :: "reply list"
  reply_free :: nat
  rng_seed :: "i32 list"
  init_template :: "byte list"
  init_seed_offset :: nat
  conn_reset_buf :: "byte list"
  syncing :: bool
  sync_generation :: int
  limit_bytes :: u64
  queued_bytes :: u64
  peak_queued_bytes :: u64
  senders :: "nat \<Rightarrow> dsend option"
  calls :: "dcall list"
  blocked :: bool

definition emit :: "dcall list \<Rightarrow> dispatcher \<Rightarrow> dispatcher" where
  "emit cs d = d\<lparr>calls := calls d @ cs\<rparr>"

text \<open>The condition variable is woken for gate waiters only when a limit is set.\<close>

definition wake_if :: "bool \<Rightarrow> dispatcher \<Rightarrow> dispatcher" where
  "wake_if c d = (if c then emit [CvWake] d else d)"

definition set_daemon :: "nat \<Rightarrow> daemon \<Rightarrow> dispatcher \<Rightarrow> dispatcher" where
  "set_daemon i dd d = d\<lparr>daemons := (daemons d)[i := dd]\<rparr>"

definition set_sender :: "nat \<Rightarrow> dsend \<Rightarrow> dispatcher \<Rightarrow> dispatcher" where
  "set_sender p s d = d\<lparr>senders := (senders d)(p \<mapsto> s)\<rparr>"

section \<open>The daemon array\<close>

definition dispatch_find_daemon :: "dispatcher \<Rightarrow> int \<Rightarrow> nat option" where
  "dispatch_find_daemon d pipe = find_idx (\<lambda>dd. d_pipe dd = pipe) (daemons d)"

definition dispatch_insert_daemon ::
  "bool \<Rightarrow> int \<Rightarrow> nat \<Rightarrow> dispatcher \<Rightarrow> dispatcher option" where
  "dispatch_insert_daemon realloc_ok pipe ds d =
     (let full = length (daemons d) \<ge> outq_capacity d;
          dd = \<lparr>d_pipe = pipe, d_state = DAEMON_INIT, d_msgid = 0,
                d_sync_gen = sync_generation d - 1, d_ctx = 0, d_ds = ds\<rparr>
      in if full \<and> \<not> realloc_ok then None
         else Some (d\<lparr>outq_capacity := (if full then outq_capacity d * 2 else outq_capacity d),
                      daemons := daemons d @ [dd]\<rparr>))"

definition dispatch_remove_daemon :: "nat \<Rightarrow> dispatcher \<Rightarrow> dispatcher" where
  "dispatch_remove_daemon i d =
     (let dd = daemons d ! i in
      d\<lparr>retired := d_ds dd # retired d,
        outq_count := (if d_state dd \<noteq> DAEMON_INIT then outq_count d - 1 else outq_count d),
        daemons := pop_swap i (daemons d)\<rparr>)"

definition dispatch_find_idle_daemon :: "dispatcher \<Rightarrow> nat option" where
  "dispatch_find_idle_daemon d =
     find_idx (\<lambda>dd. d_state dd = DAEMON_IDLE
                    \<and> \<not> (syncing d \<and> d_sync_gen dd = sync_generation d)) (daemons d)"

section \<open>Queue and sends\<close>

definition dispatch_enqueue :: "nat \<Rightarrow> byte list \<Rightarrow> i32 \<Rightarrow> bool \<Rightarrow> dispatcher \<Rightarrow> dispatcher" where
  "dispatch_enqueue ctx msg msgid is_sync d =
     (let queued = queued_bytes d + of_nat (length msg) in
      d\<lparr>inq := inq d @ [\<lparr>q_msg = msg, q_ctx = ctx, q_msgid = msgid, q_is_sync = is_sync\<rparr>],
        inq_count := inq_count d + 1,
        queued_bytes := queued,
        peak_queued_bytes := (if queued > peak_queued_bytes d then queued else peak_queued_bytes d)\<rparr>)"

definition stale_free :: "byte list option \<Rightarrow> dcall list" where
  "stale_free m = (case m of None \<Rightarrow> [] | Some b \<Rightarrow> [MsgFree b])"

definition dispatch_start_send :: "nat \<Rightarrow> byte list \<Rightarrow> dispatcher \<Rightarrow> dispatcher" where
  "dispatch_start_send i msg d =
     (let dd = daemons d ! i; s = the (senders d (d_ds dd)) in
      emit (stale_free (s_msg s) @ [TaskSend (d_ds dd) (d_pipe dd) msg])
        (set_sender (d_ds dd) (s\<lparr>s_busy := True, s_msg := Some msg\<rparr>)
           (d\<lparr>blocked := blocked d \<or> s_busy s\<rparr>)))"

definition dispatch_assign_task ::
  "nat \<Rightarrow> nat \<Rightarrow> byte list \<Rightarrow> i32 \<Rightarrow> bool \<Rightarrow> dispatcher \<Rightarrow> dispatcher" where
  "dispatch_assign_task i ctx msg msgid is_sync d =
     (let dd = (daemons d ! i)\<lparr>d_ctx := ctx, d_msgid := msgid, d_state := DAEMON_BUSY\<rparr>;
          d1 = d\<lparr>executing := executing d + 1\<rparr>;
          d2 = (if is_sync
                then set_daemon i (dd\<lparr>d_sync_gen := sync_generation d\<rparr>) (d1\<lparr>syncing := True\<rparr>)
                else if syncing d
                then set_daemon i dd (d1\<lparr>syncing := False, sync_generation := sync_generation d + 1\<rparr>)
                else set_daemon i dd d1)
      in dispatch_start_send i msg d2)"

definition dispatch_queue_signal :: "bool \<Rightarrow> bool \<Rightarrow> int \<Rightarrow> dispatcher \<Rightarrow> dispatcher" where
  "dispatch_queue_signal msg_ok node_ok pipe d =
     (if stopped d then d
      else if \<not> msg_ok then d
      else if \<not> sig_active d then emit [SigSend pipe] (d\<lparr>sig_active := True\<rparr>)
      else if \<not> node_ok then emit [MsgFree []] d
      else d\<lparr>sig_queue := sig_queue d @ [pipe]\<rparr>)"

definition dispatch_sig_cb :: "bool \<Rightarrow> dispatcher \<Rightarrow> dispatcher" where
  "dispatch_sig_cb sent d =
     (let d1 = (if sent then d else emit [MsgFree []] d) in
      case sig_queue d1 of
        p # ps \<Rightarrow> if \<not> stopped d1 then emit [SigSend p] (d1\<lparr>sig_queue := ps\<rparr>)
                  else d1\<lparr>sig_active := False\<rparr>
      | [] \<Rightarrow> d1\<lparr>sig_active := False\<rparr>)"

text \<open>The harvest loop over the active holders: what stays, what is asked of NNG, how many return.\<close>

fun harvest :: "reply list \<Rightarrow> reply list \<times> dcall list \<times> nat" where
  "harvest [] = ([], [], 0)"
| "harvest (r # rs) =
     (let (act, cs, n) = harvest rs in
      if r_busy r then (r # act, cs, n)
      else (act, stale_free (r_msg r) @ CtxClose (r_ctx r) # cs, n + 1))"

definition dispatch_reply_send_locked :: "bool \<Rightarrow> nat \<Rightarrow> byte list \<Rightarrow> dispatcher \<Rightarrow> dispatcher" where
  "dispatch_reply_send_locked alloc ctx msg d =
     (let (act, cs, n) = harvest (reply_active d);
          free = reply_free d + n
      in if free = 0 \<and> \<not> alloc
         then emit (cs @ [MsgFree msg, CtxClose ctx]) (d\<lparr>reply_active := act, reply_free := free\<rparr>)
         else emit (cs @ [ReplySend ctx msg])
                (d\<lparr>reply_active := \<lparr>r_ctx = ctx, r_busy = True, r_msg = Some msg\<rparr> # act,
                   reply_free := free - 1\<rparr>))"

definition dispatch_send_conn_reset :: "bool \<Rightarrow> bool \<Rightarrow> nat \<Rightarrow> dispatcher \<Rightarrow> dispatcher" where
  "dispatch_send_conn_reset msg_ok alloc ctx d =
     (if \<not> msg_ok then emit [CtxClose ctx] d
      else dispatch_reply_send_locked alloc ctx (conn_reset_buf d) d)"

section \<open>Draining\<close>

lemma start_send_inq [simp]: "inq (dispatch_start_send i msg d) = inq d"
  by (simp add: dispatch_start_send_def Let_def emit_def set_sender_def)

lemma assign_task_inq [simp]: "inq (dispatch_assign_task i ctx msg msgid sy d) = inq d"
  by (simp add: dispatch_assign_task_def Let_def set_daemon_def)

definition dispatch_dequeue :: "nat \<Rightarrow> dispatcher \<Rightarrow> dispatcher" where
  "dispatch_dequeue i d =
     (let q = hd (inq d) in
      dispatch_assign_task i (q_ctx q) (q_msg q) (q_msgid q) (q_is_sync q)
        (d\<lparr>inq := tl (inq d), inq_count := inq_count d - 1,
           queued_bytes := queued_bytes d - of_nat (length (q_msg q))\<rparr>))"

lemma dequeue_inq [simp]: "inq (dispatch_dequeue i d) = tl (inq d)"
  by (simp add: dispatch_dequeue_def Let_def)

function drain_loop :: "bool \<Rightarrow> dispatcher \<Rightarrow> bool \<times> dispatcher" where
  "drain_loop dequeued d =
     (if inq d = [] then (dequeued, d)
      else (case dispatch_find_idle_daemon d of
              None \<Rightarrow> (dequeued, d)
            | Some i \<Rightarrow> drain_loop True (dispatch_dequeue i d)))"
  by pat_completeness auto
termination
  by (relation "measure (\<lambda>(_, d). length (inq d))") auto

declare drain_loop.simps [simp del]

definition dispatch_drain_locked :: "dispatcher \<Rightarrow> dispatcher" where
  "dispatch_drain_locked d =
     (let (dequeued, d') = drain_loop False d in wake_if (limit_bytes d' > 0 \<and> dequeued) d')"

section \<open>Sender completion and reaping\<close>

definition dispatch_init_cb :: "bool \<Rightarrow> nat \<Rightarrow> dispatcher \<Rightarrow> dispatcher" where
  "dispatch_init_cb sent ds d =
     (let s = the (senders d ds);
          d1 = set_sender ds (s\<lparr>s_sending := False\<rparr>) (if sent then d else emit [MsgFree (s_init s)] d)
      in case dispatch_find_daemon d1 (s_pipe s) of
           None \<Rightarrow> d1
         | Some i \<Rightarrow>
             (let dd = daemons d1 ! i in
              if sent \<and> d_ds dd = ds \<and> d_state dd = DAEMON_INIT
              then (let d2 = emit [CvWake]
                               (set_daemon i (dd\<lparr>d_state := DAEMON_IDLE\<rparr>)
                                  (d1\<lparr>connections := connections d1 + 1, outq_count := outq_count d1 + 1\<rparr>))
                    in if \<not> stopped d2 then dispatch_drain_locked d2 else d2)
              else d1))"

text \<open>\<open>nng_aio_stop\<close> has returned for both aios: what is left is the unsent task message.\<close>

definition dispatch_dsend_free :: "nat \<Rightarrow> dispatcher \<Rightarrow> dispatcher" where
  "dispatch_dsend_free ds d =
     emit (stale_free (s_msg (the (senders d ds))) @ [SenderFree ds])
       (d\<lparr>senders := (senders d)(ds := None)\<rparr>)"

definition reapable :: "dispatcher \<Rightarrow> nat \<Rightarrow> bool" where
  "reapable d ds = (\<not> s_sending (the (senders d ds)) \<and> \<not> s_busy (the (senders d ds)))"

text \<open>The reaped entries are pushed on a list and freed from its head, the last one found first.\<close>

definition dispatch_reap_retired :: "dispatcher \<Rightarrow> dispatcher" where
  "dispatch_reap_retired d =
     fold dispatch_dsend_free (rev [ds \<leftarrow> retired d. reapable d ds])
       (d\<lparr>retired := [ds \<leftarrow> retired d. \<not> reapable d ds]\<rparr>)"

section \<open>Event handlers\<close>

text \<open>What the allocator answers while a connection is set up.\<close>

record connect_ok =
  c_msg :: bool
  c_dsend :: bool
  c_aio :: bool
  c_realloc :: bool

text \<open>The init message: the template with the next seed written over the sentinel.\<close>

definition init_message :: "dispatcher \<Rightarrow> i32 list \<Rightarrow> byte list" where
  "init_message d seed = put_at (init_seed_offset d) (concat (map i32_bytes seed)) (init_template d)"

definition connect_fail :: "connect_ok \<Rightarrow> int \<Rightarrow> dispatcher \<Rightarrow> dispatcher" where
  "connect_fail ok pipe d =
     emit ((if c_msg ok then [MsgFree (init_template d)] else []) @ [PipeClose pipe]) d"

definition dispatch_handle_connect :: "connect_ok \<Rightarrow> nat \<Rightarrow> int \<Rightarrow> dispatcher \<Rightarrow> dispatcher" where
  "dispatch_handle_connect ok ds pipe d =
     (let d1 = dispatch_reap_retired d in
      if \<not> c_msg ok \<or> \<not> c_dsend ok \<or> \<not> c_aio ok then connect_fail ok pipe d1
      else if stopped d1 then connect_fail ok pipe d1
      else (case dispatch_insert_daemon (c_realloc ok) pipe ds d1 of
              None \<Rightarrow> connect_fail ok pipe d1
            | Some d2 \<Rightarrow>
                (let seed = next_rng_stream_c (rng_seed d2); msg = init_message d2 seed in
                 emit [InitSend ds pipe msg]
                   (set_sender ds \<lparr>s_pipe = pipe, s_sending = True, s_init = msg, s_busy = False,
                                   s_msg = None\<rparr> (d2\<lparr>rng_seed := seed\<rparr>)))))"

text \<open>
  The disconnect handler up to the unlock: the new state and, when the slot was busy, its
  context with the value of \<open>stopped\<close> read under the lock. The rest runs unlocked.
\<close>

definition disconnect_locked :: "int \<Rightarrow> dispatcher \<Rightarrow> ((nat \<times> bool) option \<times> dispatcher) option" where
  "disconnect_locked pipe d =
     (case dispatch_find_daemon d pipe of
        None \<Rightarrow> None
      | Some i \<Rightarrow>
          (let dd = daemons d ! i; busy = (d_state dd = DAEMON_BUSY);
               d1 = (if busy then d\<lparr>executing := executing d - 1\<rparr> else d)
           in Some (if busy then Some (d_ctx dd, stopped d) else None,
                    emit [CvWake] (dispatch_remove_daemon i d1))))"

definition disconnect_reply :: "bool \<Rightarrow> bool \<Rightarrow> nat \<Rightarrow> bool \<Rightarrow> dispatcher \<Rightarrow> dispatcher" where
  "disconnect_reply msg_ok alloc ctx was_stopped d =
     (if was_stopped then emit [CtxClose ctx] d else dispatch_send_conn_reset msg_ok alloc ctx d)"

definition dispatch_handle_disconnect :: "bool \<Rightarrow> bool \<Rightarrow> int \<Rightarrow> dispatcher \<Rightarrow> dispatcher" where
  "dispatch_handle_disconnect msg_ok alloc pipe d =
     (case disconnect_locked pipe d of
        None \<Rightarrow> d
      | Some (None, d1) \<Rightarrow> dispatch_reap_retired d1
      | Some (Some (ctx, was_stopped), d1) \<Rightarrow>
          dispatch_reap_retired (disconnect_reply msg_ok alloc ctx was_stopped d1))"

text \<open>
  A request from the host, up to the unlock, then the opening of the context for the next
  one: \<open>Some ctx\<close> is the context \<open>nng_ctx_open\<close> gave, \<open>None\<close> its failure.
\<close>

definition host_recv_locked :: "byte list \<Rightarrow> dispatcher \<Rightarrow> dispatcher" where
  "host_recv_locked msg d =
     (let (msgid, is_sync) = dispatch_read_msg_info msg in
      if stopped d then emit [MsgFree msg] d
      else
        (let d1 = d\<lparr>d_count := d_count d + 1\<rparr> in
         case dispatch_find_idle_daemon d1 of
           Some i \<Rightarrow> dispatch_assign_task i (host_ctx d1) msg msgid is_sync d1
         | None \<Rightarrow> dispatch_enqueue (host_ctx d1) msg msgid is_sync d1))"

definition host_reopen :: "nat option \<Rightarrow> dispatcher \<Rightarrow> dispatcher" where
  "host_reopen opened d =
     (case opened of
        Some ctx \<Rightarrow> emit [HostRecv ctx] (d\<lparr>host_ctx := ctx\<rparr>)
      | None \<Rightarrow> emit [CvWake] (d\<lparr>stopped := True\<rparr>))"

definition dispatch_handle_host_recv :: "nat option \<Rightarrow> byte list \<Rightarrow> dispatcher \<Rightarrow> dispatcher" where
  "dispatch_handle_host_recv opened msg d =
     (if stopped d then host_recv_locked msg d else host_reopen opened (host_recv_locked msg d))"

text \<open>Errors of the two receive aios: closed and cancelled end the cycle, others go again.\<close>

datatype aio_res = AioOk | AioEnd | AioErr

definition host_recv_cb :: "aio_res \<Rightarrow> nat option \<Rightarrow> byte list \<Rightarrow> dispatcher \<Rightarrow> dispatcher" where
  "host_recv_cb res opened msg d =
     (case res of
        AioEnd \<Rightarrow> d
      | AioErr \<Rightarrow> if \<not> stopped d then emit [HostRecv (host_ctx d)] d else d
      | AioOk \<Rightarrow> dispatch_handle_host_recv opened msg d)"

text \<open>A message from a daemon: \<open>pipe\<close> is the pipe NNG recorded on it.\<close>

record reply_ok =
  k_sigmsg :: bool
  k_signode :: bool
  k_holder :: bool

definition dispatch_handle_daemon_recv :: "reply_ok \<Rightarrow> int \<Rightarrow> byte list \<Rightarrow> dispatcher \<Rightarrow> dispatcher" where
  "dispatch_handle_daemon_recv ok pipe msg d =
     (let is_marker = snd (dispatch_read_msg_info msg);
          drop = emit [DaemonRecv] (emit [MsgFree msg] d)
      in case dispatch_find_daemon d pipe of
           None \<Rightarrow> drop
         | Some i \<Rightarrow>
             (let dd = daemons d ! i in
              if \<not> stopped d \<and> d_state dd = DAEMON_BUSY
              then (let ctx = d_ctx dd; d1 = d\<lparr>executing := executing d - 1\<rparr>;
                        d2 = (if is_marker
                              then emit [CvWake]
                                     (dispatch_queue_signal (k_sigmsg ok) (k_signode ok) pipe
                                        (dispatch_remove_daemon i d1))
                              else dispatch_drain_locked
                                     (set_daemon i (dd\<lparr>d_state := DAEMON_IDLE, d_msgid := 0\<rparr>) d1))
                    in emit [DaemonRecv] (dispatch_reply_send_locked (k_holder ok) ctx msg d2))
              else drop))"

definition daemon_recv_cb :: "aio_res \<Rightarrow> reply_ok \<Rightarrow> int \<Rightarrow> byte list \<Rightarrow> dispatcher \<Rightarrow> dispatcher" where
  "daemon_recv_cb res ok pipe msg d =
     (case res of
        AioEnd \<Rightarrow> d
      | AioErr \<Rightarrow> if \<not> stopped d then emit [DaemonRecv] d else d
      | AioOk \<Rightarrow> dispatch_handle_daemon_recv ok pipe msg d)"

text \<open>The pipe callback: pipe 0 is ignored, a pipe added connects, one removed disconnects.\<close>

definition dispatch_pipe_cb ::
  "bool \<Rightarrow> connect_ok \<Rightarrow> nat \<Rightarrow> bool \<Rightarrow> bool \<Rightarrow> int \<Rightarrow> dispatcher \<Rightarrow> dispatcher" where
  "dispatch_pipe_cb add_post ok ds msg_ok alloc pipe d =
     (if pipe = 0 then d
      else if add_post then dispatch_handle_connect ok ds pipe d
      else dispatch_handle_disconnect msg_ok alloc pipe d)"

section \<open>Cancellation\<close>

definition dispatch_cancel_inq :: "i32 \<Rightarrow> dispatcher \<Rightarrow> bool \<times> dispatcher" where
  "dispatch_cancel_inq tid d =
     (case find_idx (\<lambda>q. q_msgid q = tid) (inq d) of
        None \<Rightarrow> (False, d)
      | Some k \<Rightarrow>
          (let q = inq d ! k in
           (True, wake_if (limit_bytes d > 0)
                    (emit [CtxClose (q_ctx q), MsgFree (q_msg q)]
                       (d\<lparr>inq := take k (inq d) @ drop (Suc k) (inq d),
                          inq_count := inq_count d - 1,
                          queued_bytes := queued_bytes d - of_nat (length (q_msg q))\<rparr>)))))"

definition dispatch_cancel_direct :: "bool \<Rightarrow> bool \<Rightarrow> i32 \<Rightarrow> dispatcher \<Rightarrow> bool \<times> dispatcher" where
  "dispatch_cancel_direct msg_ok node_ok tid d =
     (case find_idx (\<lambda>dd. d_state dd = DAEMON_BUSY \<and> d_msgid dd = tid) (daemons d) of
        Some i \<Rightarrow> (True, dispatch_queue_signal msg_ok node_ok (d_pipe (daemons d ! i)) d)
      | None \<Rightarrow> dispatch_cancel_inq tid d)"

section \<open>Shutdown\<close>

text \<open>
  The code of \<open>dispatch_shutdown\<close> after \<open>nng_close\<close> of the poly socket has returned: the
  callbacks that the stops and the close run are handler calls of their own, which have
  finished by then. Nothing of the dispatcher is left, so its lists end empty.
\<close>

definition slot_release :: "daemon \<Rightarrow> dispatcher \<Rightarrow> dispatcher" where
  "slot_release dd d =
     (let d1 = dispatch_dsend_free (d_ds dd) d in
      if d_state dd = DAEMON_BUSY then emit [CtxClose (d_ctx dd)] d1 else d1)"

definition reply_release :: "reply \<Rightarrow> dispatcher \<Rightarrow> dispatcher" where
  "reply_release r = emit (stale_free (r_msg r) @ [CtxClose (r_ctx r)])"

definition node_release :: "qnode \<Rightarrow> dispatcher \<Rightarrow> dispatcher" where
  "node_release q = emit [CtxClose (q_ctx q), MsgFree (q_msg q)]"

definition dispatch_shutdown :: "dispatcher \<Rightarrow> dispatcher" where
  "dispatch_shutdown d =
     (let d1 = fold dispatch_dsend_free (retired d) d;
          d2 = fold slot_release (daemons d) d1;
          d3 = fold reply_release (reply_active d) d2;
          d4 = fold node_release (inq d) (emit [CtxClose (host_ctx d)] d3);
          d5 = emit (map (\<lambda>_. MsgFree []) (sig_queue d)) d4
      in d5\<lparr>retired := [], daemons := [], reply_active := [], reply_free := 0, inq := [],
            sig_queue := []\<rparr>)"

text \<open>\<open>dispatcher_handle_release\<close> up to the shutdown.\<close>

definition dispatcher_handle_stop :: "dispatcher \<Rightarrow> dispatcher" where
  "dispatcher_handle_stop d = emit [CvWake] (d\<lparr>stopped := True\<rparr>)"

section \<open>Queries\<close>

definition rnng_dispatcher_info :: "dispatcher option \<Rightarrow> int list" where
  "rnng_dispatcher_info disp =
     (case disp of
        None \<Rightarrow> replicate 5 0
      | Some d \<Rightarrow> [outq_count d, connections d, inq_count d, executing d,
                   d_count d - inq_count d - executing d])"

text \<open>Megabytes used, at peak and allowed; the outer \<open>None\<close> is the three \<open>NA\<close> of a bad handle.\<close>

definition rnng_dispatcher_capacity :: "dispatcher option \<Rightarrow> (real \<times> real \<times> real option) option" where
  "rnng_dispatcher_capacity disp =
     (case disp of
        None \<Rightarrow> None
      | Some d \<Rightarrow> Some (real (unat (queued_bytes d)) / 1000000, real (unat (peak_queued_bytes d)) / 1000000,
                        if limit_bytes d > 0 then Some (real (unat (limit_bytes d)) / 1000000) else None))"

text \<open>
  The gate polls the state each time it holds the lock; its argument is the sequence of states
  it sees. \<open>None\<close> is still waiting when the sequence ends.
\<close>

fun rnng_dispatcher_gate :: "dispatcher list \<Rightarrow> bool option" where
  "rnng_dispatcher_gate [] = None"
| "rnng_dispatcher_gate (d # ds) =
     (if limit_bytes d > 0 \<and> queued_bytes d \<ge> limit_bytes d \<and> \<not> stopped d
      then rnng_dispatcher_gate ds else Some True)"

definition rnng_dispatcher_try_gate :: "dispatcher \<Rightarrow> bool" where
  "rnng_dispatcher_try_gate d = (if limit_bytes d > 0 then queued_bytes d < limit_bytes d else True)"

fun rnng_dispatcher_wait :: "int \<Rightarrow> dispatcher list \<Rightarrow> bool option" where
  "rnng_dispatcher_wait target [] = None"
| "rnng_dispatcher_wait target (d # ds) =
     (if outq_count d < target \<and> \<not> stopped d then rnng_dispatcher_wait target ds else Some True)"

section \<open>Start\<close>

text \<open>The limit in bytes of a capacity in megabytes; \<open>None\<close> is \<open>NULL\<close>, \<open>NA\<close> or not finite.\<close>

definition dispatcher_limit :: "real option \<Rightarrow> u64" where
  "dispatcher_limit mb =
     (case mb of None \<Rightarrow> 0 | Some x \<Rightarrow> if x > 0 then of_nat (nat \<lfloor>x * 1000000\<rfloor>) else 0)"

definition sentinel_val :: i32 where "sentinel_val = 0x7F7F7F7F"

definition sentinel :: "byte list" where "sentinel = replicate 24 0x7F"

text \<open>
  The search for the sentinel in the serialized bytes. \<open>ser\<close> is the serialization of the init
  data as a function of the six seed words in the stream.
\<close>

definition find_sentinel :: "byte list \<Rightarrow> nat option" where
  "find_sentinel buf = find_idx (\<lambda>i. take 24 (drop i buf) = sentinel) [0..<length buf - 23]"

definition dispatch_prepare_init_template ::
  "bool \<Rightarrow> (i32 list \<Rightarrow> byte list) \<Rightarrow> i32 list \<Rightarrow> dispatcher \<Rightarrow> dispatcher option" where
  "dispatch_prepare_init_template alloc ser stream d =
     (let d1 = d\<lparr>rng_seed := take 6 (drop 1 stream)\<rparr>;
          buf = ser (replicate 6 sentinel_val)
      in case find_sentinel buf of
           None \<Rightarrow> None
         | Some off \<Rightarrow>
             if \<not> alloc then None
             else Some (d1\<lparr>init_template := buf, init_seed_offset := off\<rparr>))"

text \<open>The dispatcher as \<open>rnng_dispatcher_start\<close> leaves it when every call succeeds.\<close>

definition DISPATCH_INITIAL_SIZE :: nat where "DISPATCH_INITIAL_SIZE = 16"
definition DISPATCH_REPLY_POOL :: nat where "DISPATCH_REPLY_POOL = 4"
definition DISPATCH_RECV_POOL :: nat where "DISPATCH_RECV_POOL = 4"

definition dispatcher_calloc :: dispatcher where
  "dispatcher_calloc =
     \<lparr>inq = [], inq_count = 0, daemons = [], outq_capacity = 0, outq_count = 0, connections = 0,
      d_count = 0, executing = 0, stopped = False, host_ctx = 0, sig_active = False, sig_queue = [],
      retired = [], reply_active = [], reply_free = 0, rng_seed = replicate 6 0,
      init_template = [], init_seed_offset = 0, conn_reset_buf = [], syncing = False,
      sync_generation = 0, limit_bytes = 0, queued_bytes = 0, peak_queued_bytes = 0,
      senders = (\<lambda>_. None), calls = [], blocked = False\<rparr>"

definition rnng_dispatcher_start ::
  "real option \<Rightarrow> byte list \<Rightarrow> (i32 list \<Rightarrow> byte list) \<Rightarrow> i32 list \<Rightarrow> nat \<Rightarrow> dispatcher option" where
  "rnng_dispatcher_start capacity reset ser stream ctx =
     (case dispatch_prepare_init_template True ser stream
             (dispatcher_calloc\<lparr>limit_bytes := dispatcher_limit capacity, conn_reset_buf := reset\<rparr>) of
        None \<Rightarrow> None
      | Some d \<Rightarrow>
          Some (emit (HostRecv ctx # replicate DISPATCH_RECV_POOL DaemonRecv)
                  (d\<lparr>outq_capacity := DISPATCH_INITIAL_SIZE, reply_free := DISPATCH_REPLY_POOL,
                     host_ctx := ctx\<rparr>)))"

end
