(* ===== verification/DispLemmas.thy ===== *)
theory DispLemmas
  imports Dispatcher
begin

text \<open>
  What each dispatcher operation does to each field (the collection \<open>disp_simps\<close>), the three
  measures the properties are about (slot counts, queued bytes, the contexts accounted for), and
  their conservation laws.
\<close>

section \<open>Counting slots\<close>

definition cnt :: "('a \<Rightarrow> bool) \<Rightarrow> 'a list \<Rightarrow> nat" where
  "cnt P xs = sum_list (map (\<lambda>x. if P x then 1 else 0) xs)"

lemma cnt_simps [simp]:
  "cnt P [] = 0" "cnt P (x # xs) = (if P x then 1 else 0) + cnt P xs"
  "cnt P (xs @ ys) = cnt P xs + cnt P ys"
  by (simp_all add: cnt_def)

lemma cnt_update:
  "i < length xs \<Longrightarrow> cnt P (xs[i := x]) + (if P (xs ! i) then 1 else 0) = cnt P xs + (if P x then 1 else 0)"
  unfolding cnt_def by (rule sum_list_map_update)

lemma cnt_pop_swap:
  "i < length xs \<Longrightarrow> cnt P (pop_swap i xs) + (if P (xs ! i) then 1 else 0) = cnt P xs"
  unfolding cnt_def by (rule sum_list_pop_swap)

lemma cnt_pos: "x \<in> set xs \<Longrightarrow> P x \<Longrightarrow> 0 < cnt P xs"
  by (induction xs) auto

section \<open>Field by field\<close>

lemma emit_sel [simp]:
  "inq (emit cs d) = inq d" "inq_count (emit cs d) = inq_count d" "daemons (emit cs d) = daemons d"
  "outq_capacity (emit cs d) = outq_capacity d" "outq_count (emit cs d) = outq_count d"
  "connections (emit cs d) = connections d" "d_count (emit cs d) = d_count d"
  "executing (emit cs d) = executing d" "stopped (emit cs d) = stopped d"
  "host_ctx (emit cs d) = host_ctx d" "sig_active (emit cs d) = sig_active d"
  "sig_queue (emit cs d) = sig_queue d" "retired (emit cs d) = retired d"
  "reply_active (emit cs d) = reply_active d" "reply_free (emit cs d) = reply_free d"
  "rng_seed (emit cs d) = rng_seed d" "init_template (emit cs d) = init_template d"
  "init_seed_offset (emit cs d) = init_seed_offset d" "conn_reset_buf (emit cs d) = conn_reset_buf d"
  "syncing (emit cs d) = syncing d" "sync_generation (emit cs d) = sync_generation d"
  "limit_bytes (emit cs d) = limit_bytes d" "queued_bytes (emit cs d) = queued_bytes d"
  "peak_queued_bytes (emit cs d) = peak_queued_bytes d" "senders (emit cs d) = senders d"
  "calls (emit cs d) = calls d @ cs" "blocked (emit cs d) = blocked d"
  by (simp_all add: emit_def)

lemma wake_if_sel [simp]:
  "inq (wake_if c d) = inq d" "inq_count (wake_if c d) = inq_count d" "daemons (wake_if c d) = daemons d"
  "outq_capacity (wake_if c d) = outq_capacity d" "outq_count (wake_if c d) = outq_count d"
  "connections (wake_if c d) = connections d" "d_count (wake_if c d) = d_count d"
  "executing (wake_if c d) = executing d" "stopped (wake_if c d) = stopped d"
  "host_ctx (wake_if c d) = host_ctx d" "sig_active (wake_if c d) = sig_active d"
  "sig_queue (wake_if c d) = sig_queue d" "retired (wake_if c d) = retired d"
  "reply_active (wake_if c d) = reply_active d" "conn_reset_buf (wake_if c d) = conn_reset_buf d"
  "syncing (wake_if c d) = syncing d" "sync_generation (wake_if c d) = sync_generation d"
  "limit_bytes (wake_if c d) = limit_bytes d" "queued_bytes (wake_if c d) = queued_bytes d"
  "peak_queued_bytes (wake_if c d) = peak_queued_bytes d" "senders (wake_if c d) = senders d"
  "calls (wake_if c d) = calls d @ (if c then [CvWake] else [])" "blocked (wake_if c d) = blocked d"
  by (simp_all add: wake_if_def)

lemma set_daemon_sel [simp]:
  "inq (set_daemon i x d) = inq d" "inq_count (set_daemon i x d) = inq_count d"
  "daemons (set_daemon i x d) = (daemons d)[i := x]"
  "outq_capacity (set_daemon i x d) = outq_capacity d" "outq_count (set_daemon i x d) = outq_count d"
  "connections (set_daemon i x d) = connections d" "d_count (set_daemon i x d) = d_count d"
  "executing (set_daemon i x d) = executing d" "stopped (set_daemon i x d) = stopped d"
  "host_ctx (set_daemon i x d) = host_ctx d" "sig_active (set_daemon i x d) = sig_active d"
  "sig_queue (set_daemon i x d) = sig_queue d" "retired (set_daemon i x d) = retired d"
  "reply_active (set_daemon i x d) = reply_active d" "conn_reset_buf (set_daemon i x d) = conn_reset_buf d"
  "syncing (set_daemon i x d) = syncing d" "sync_generation (set_daemon i x d) = sync_generation d"
  "limit_bytes (set_daemon i x d) = limit_bytes d" "queued_bytes (set_daemon i x d) = queued_bytes d"
  "peak_queued_bytes (set_daemon i x d) = peak_queued_bytes d" "senders (set_daemon i x d) = senders d"
  "calls (set_daemon i x d) = calls d" "blocked (set_daemon i x d) = blocked d"
  by (simp_all add: set_daemon_def)

lemma set_sender_sel [simp]:
  "inq (set_sender p x d) = inq d" "inq_count (set_sender p x d) = inq_count d"
  "daemons (set_sender p x d) = daemons d"
  "outq_capacity (set_sender p x d) = outq_capacity d" "outq_count (set_sender p x d) = outq_count d"
  "connections (set_sender p x d) = connections d" "d_count (set_sender p x d) = d_count d"
  "executing (set_sender p x d) = executing d" "stopped (set_sender p x d) = stopped d"
  "host_ctx (set_sender p x d) = host_ctx d" "sig_active (set_sender p x d) = sig_active d"
  "sig_queue (set_sender p x d) = sig_queue d" "retired (set_sender p x d) = retired d"
  "reply_active (set_sender p x d) = reply_active d" "conn_reset_buf (set_sender p x d) = conn_reset_buf d"
  "syncing (set_sender p x d) = syncing d" "sync_generation (set_sender p x d) = sync_generation d"
  "limit_bytes (set_sender p x d) = limit_bytes d" "queued_bytes (set_sender p x d) = queued_bytes d"
  "peak_queued_bytes (set_sender p x d) = peak_queued_bytes d"
  "senders (set_sender p x d) = (senders d)(p \<mapsto> x)"
  "calls (set_sender p x d) = calls d" "blocked (set_sender p x d) = blocked d"
  by (simp_all add: set_sender_def)

text \<open>The slot a task is assigned to.\<close>

definition assigned :: "nat \<Rightarrow> nat \<Rightarrow> i32 \<Rightarrow> bool \<Rightarrow> dispatcher \<Rightarrow> daemon" where
  "assigned i ctx msgid sy d =
     (daemons d ! i)\<lparr>d_ctx := ctx, d_msgid := msgid, d_state := DAEMON_BUSY,
        d_sync_gen := (if sy then sync_generation d else d_sync_gen (daemons d ! i))\<rparr>"

lemma assigned_sel [simp]:
  "d_ctx (assigned i ctx msgid sy d) = ctx" "d_state (assigned i ctx msgid sy d) = DAEMON_BUSY"
  "d_pipe (assigned i ctx msgid sy d) = d_pipe (daemons d ! i)"
  "d_ds (assigned i ctx msgid sy d) = d_ds (daemons d ! i)"
  "d_msgid (assigned i ctx msgid sy d) = msgid"
  by (simp_all add: assigned_def)

lemma assign_task_sel [simp]:
  fixes d i ctx msg msgid sy assumes "i < length (daemons d)"
  defines "d' \<equiv> dispatch_assign_task i ctx msg msgid sy d"
  shows "inq_count d' = inq_count d"
    "daemons d' = (daemons d)[i := assigned i ctx msgid sy d]"
    "outq_capacity d' = outq_capacity d" "outq_count d' = outq_count d"
    "connections d' = connections d" "d_count d' = d_count d"
    "executing d' = executing d + 1" "stopped d' = stopped d"
    "host_ctx d' = host_ctx d" "sig_active d' = sig_active d"
    "sig_queue d' = sig_queue d" "retired d' = retired d"
    "reply_active d' = reply_active d" "conn_reset_buf d' = conn_reset_buf d"
    "syncing d' = sy"
    "sync_generation d' = (if \<not> sy \<and> syncing d then sync_generation d + 1 else sync_generation d)"
    "limit_bytes d' = limit_bytes d" "queued_bytes d' = queued_bytes d"
    "peak_queued_bytes d' = peak_queued_bytes d"
  unfolding d'_def using assms(1)
  by (auto simp: dispatch_assign_task_def dispatch_start_send_def Let_def assigned_def)

lemma assign_task_send:
  fixes d i ctx msg msgid sy assumes i: "i < length (daemons d)"
  defines "d' \<equiv> dispatch_assign_task i ctx msg msgid sy d"
    and "p \<equiv> d_ds (daemons d ! i)"
  defines "s \<equiv> the (senders d p)"
  shows "senders d' = (senders d)(p \<mapsto> s\<lparr>s_busy := True, s_msg := Some msg\<rparr>)"
    "calls d' = calls d @ stale_free (s_msg s) @ [TaskSend p (d_pipe (daemons d ! i)) msg]"
    "blocked d' = (blocked d \<or> s_busy s)"
  unfolding d'_def s_def p_def using i
  by (simp_all add: dispatch_assign_task_def dispatch_start_send_def Let_def)

lemma dequeue_sel [simp]:
  fixes d i assumes "i < length (daemons d)" 
  defines "d' \<equiv> dispatch_dequeue i d" and "q \<equiv> hd (inq d)"
  shows "inq_count d' = inq_count d - 1"
    "daemons d' = (daemons d)[i := assigned i (q_ctx q) (q_msgid q) (q_is_sync q) d]"
    "outq_capacity d' = outq_capacity d" "outq_count d' = outq_count d"
    "connections d' = connections d" "d_count d' = d_count d"
    "executing d' = executing d + 1" "stopped d' = stopped d"
    "host_ctx d' = host_ctx d" "sig_active d' = sig_active d"
    "sig_queue d' = sig_queue d" "retired d' = retired d"
    "reply_active d' = reply_active d" "conn_reset_buf d' = conn_reset_buf d"
    "syncing d' = q_is_sync q"
    "sync_generation d' = (if \<not> q_is_sync q \<and> syncing d then sync_generation d + 1 else sync_generation d)"
    "limit_bytes d' = limit_bytes d"
    "queued_bytes d' = queued_bytes d - of_nat (length (q_msg q))"
    "peak_queued_bytes d' = peak_queued_bytes d"
  unfolding d'_def q_def using assms(1)
  by (simp_all add: dispatch_dequeue_def Let_def assigned_def)

lemma dequeue_send:
  fixes d i assumes i: "i < length (daemons d)"
  defines "d' \<equiv> dispatch_dequeue i d" and "p \<equiv> d_ds (daemons d ! i)"
  defines "s \<equiv> the (senders d p)"
  shows "senders d' = (senders d)(p \<mapsto> s\<lparr>s_busy := True, s_msg := Some (q_msg (hd (inq d)))\<rparr>)"
    "calls d' = calls d @ stale_free (s_msg s) @ [TaskSend p (d_pipe (daemons d ! i)) (q_msg (hd (inq d)))]"
    "blocked d' = (blocked d \<or> s_busy s)"
  unfolding d'_def s_def p_def using i by (simp_all add: dispatch_dequeue_def Let_def assign_task_send)

lemma find_idle_Some:
  "dispatch_find_idle_daemon d = Some i \<Longrightarrow>
     i < length (daemons d) \<and> d_state (daemons d ! i) = DAEMON_IDLE
     \<and> (syncing d \<longrightarrow> d_sync_gen (daemons d ! i) \<noteq> sync_generation d)"
  unfolding dispatch_find_idle_daemon_def by (drule find_idx_Some) auto

lemma find_daemon_Some:
  "dispatch_find_daemon d pipe = Some i \<Longrightarrow> i < length (daemons d) \<and> d_pipe (daemons d ! i) = pipe"
  unfolding dispatch_find_daemon_def by (drule find_idx_Some) auto

lemma find_daemon_None:
  "dispatch_find_daemon d pipe = None \<longleftrightarrow> pipe \<notin> d_pipe ` set (daemons d)"
  unfolding dispatch_find_daemon_def by (auto simp: find_idx_None_iff)

text \<open>Draining is a sequence of dequeues: what a dequeue keeps, draining keeps.\<close>

lemma drain_loop_induct:
  assumes "\<And>d i. P d \<Longrightarrow> inq d \<noteq> [] \<Longrightarrow> dispatch_find_idle_daemon d = Some i \<Longrightarrow> P (dispatch_dequeue i d)"
    and "P d"
  shows "P (snd (drain_loop b d))"
  using assms(2)
proof (induction b d rule: drain_loop.induct)
  case (1 b d)
  show ?case
  proof (cases "inq d = [] \<or> dispatch_find_idle_daemon d = None")
    case True
    with 1 show ?thesis by (auto simp: drain_loop.simps [of b d])
  next
    case False
    then obtain i where i: "inq d \<noteq> []" "dispatch_find_idle_daemon d = Some i" by auto
    then show ?thesis
      using "1.IH" [OF i] assms(1) [OF "1.prems" i] by (simp add: drain_loop.simps [of b d])
  qed
qed

lemma drain_loop_done:
  "inq (snd (drain_loop b d)) = [] \<or> dispatch_find_idle_daemon (snd (drain_loop b d)) = None"
proof (induction b d rule: drain_loop.induct)
  case (1 b d)
  then show ?case
    by (cases "inq d = []"; cases "dispatch_find_idle_daemon d") (auto simp: drain_loop.simps [of b d])
qed

text \<open>Operations that leave the queue, the slots and the counters alone.\<close>

definition same_core :: "dispatcher \<Rightarrow> dispatcher \<Rightarrow> bool" where
  "same_core d' d \<longleftrightarrow>
     inq d' = inq d \<and> inq_count d' = inq_count d \<and> daemons d' = daemons d
     \<and> outq_capacity d' = outq_capacity d \<and> outq_count d' = outq_count d \<and> d_count d' = d_count d
     \<and> executing d' = executing d \<and> stopped d' = stopped d \<and> host_ctx d' = host_ctx d
     \<and> syncing d' = syncing d \<and> sync_generation d' = sync_generation d
     \<and> limit_bytes d' = limit_bytes d \<and> queued_bytes d' = queued_bytes d
     \<and> peak_queued_bytes d' = peak_queued_bytes d \<and> blocked d' = blocked d"

definition same_slots :: "dispatcher \<Rightarrow> dispatcher \<Rightarrow> bool" where
  "same_slots d' d \<longleftrightarrow> same_core d' d \<and> senders d' = senders d \<and> retired d' = retired d"

lemma same_coreD:
  assumes "same_core d' d"
  shows "inq d' = inq d" "inq_count d' = inq_count d" "daemons d' = daemons d"
    "outq_capacity d' = outq_capacity d" "outq_count d' = outq_count d" "d_count d' = d_count d"
    "executing d' = executing d" "stopped d' = stopped d" "host_ctx d' = host_ctx d"
    "syncing d' = syncing d" "sync_generation d' = sync_generation d"
    "limit_bytes d' = limit_bytes d" "queued_bytes d' = queued_bytes d"
    "peak_queued_bytes d' = peak_queued_bytes d" "blocked d' = blocked d"
    "dispatch_find_idle_daemon d' = dispatch_find_idle_daemon d"
  using assms by (auto simp: same_core_def dispatch_find_idle_daemon_def)

lemma same_slotsD:
  assumes "same_slots d' d"
  shows "same_core d' d" "senders d' = senders d" "retired d' = retired d"
  using assms by (auto simp: same_slots_def)

lemma same_trans:
  "same_core a b \<Longrightarrow> same_core b c \<Longrightarrow> same_core a c"
  "same_slots a b \<Longrightarrow> same_slots b c \<Longrightarrow> same_slots a c"
  by (auto simp: same_core_def same_slots_def)

lemma same_emit: "same_slots (emit cs d) d" "same_slots (wake_if c d) d"
  by (auto simp: same_core_def same_slots_def)

lemma same_reply: "same_slots (dispatch_reply_send_locked ok ctx msg d) d"
  by (auto simp: dispatch_reply_send_locked_def Let_def same_core_def same_slots_def split: prod.splits)

lemma same_conn_reset: "same_slots (dispatch_send_conn_reset m ok ctx d) d"
  by (auto simp: dispatch_send_conn_reset_def intro: same_reply same_emit)

lemma same_disconnect_reply: "same_slots (disconnect_reply m ok ctx st d) d"
  by (auto simp: disconnect_reply_def intro: same_conn_reset same_emit)

lemma same_signal: "same_slots (dispatch_queue_signal m n pipe d) d"
  by (auto simp: dispatch_queue_signal_def same_core_def same_slots_def)

lemma same_sig_cb: "same_slots (dispatch_sig_cb sent d) d"
  by (auto simp: dispatch_sig_cb_def Let_def same_core_def same_slots_def split: list.splits)

lemma same_fold_dsend: "same_core (fold dispatch_dsend_free xs d) d"
proof (induction xs arbitrary: d)
  case (Cons x xs)
  have "same_core (dispatch_dsend_free x d) d" by (simp add: dispatch_dsend_free_def same_core_def)
  with Cons same_trans(1) show ?case by fastforce
qed (simp add: same_core_def)

lemma same_reap: "same_core (dispatch_reap_retired d) d"
proof -
  have "same_core (d\<lparr>retired := x\<rparr>) d" for x by (simp add: same_core_def)
  then show ?thesis unfolding dispatch_reap_retired_def by (blast intro: same_trans same_fold_dsend)
qed

lemma retired_fold_dsend [simp]: "retired (fold dispatch_dsend_free xs d) = retired d"
  by (induction xs arbitrary: d) (auto simp: dispatch_dsend_free_def)

lemma retired_reap: "retired (dispatch_reap_retired d) = [ds \<leftarrow> retired d. \<not> reapable d ds]"
  by (simp add: dispatch_reap_retired_def)

lemma senders_fold_dsend:
  "senders (fold dispatch_dsend_free xs d) = (\<lambda>p. if p \<in> set xs then None else senders d p)"
  by (induction xs arbitrary: d) (auto simp: dispatch_dsend_free_def fun_eq_iff)

lemma senders_reap:
  "senders (dispatch_reap_retired d) = (\<lambda>p. if p \<in> set (retired d) \<and> reapable d p then None else senders d p)"
  by (auto simp: dispatch_reap_retired_def senders_fold_dsend fun_eq_iff)

lemma remove_sel [simp]:
  "inq (dispatch_remove_daemon i d) = inq d" "inq_count (dispatch_remove_daemon i d) = inq_count d"
  "daemons (dispatch_remove_daemon i d) = pop_swap i (daemons d)"
  "outq_capacity (dispatch_remove_daemon i d) = outq_capacity d"
  "outq_count (dispatch_remove_daemon i d)
     = (if d_state (daemons d ! i) \<noteq> DAEMON_INIT then outq_count d - 1 else outq_count d)"
  "d_count (dispatch_remove_daemon i d) = d_count d"
  "executing (dispatch_remove_daemon i d) = executing d" "stopped (dispatch_remove_daemon i d) = stopped d"
  "host_ctx (dispatch_remove_daemon i d) = host_ctx d"
  "retired (dispatch_remove_daemon i d) = d_ds (daemons d ! i) # retired d"
  "syncing (dispatch_remove_daemon i d) = syncing d"
  "sync_generation (dispatch_remove_daemon i d) = sync_generation d"
  "limit_bytes (dispatch_remove_daemon i d) = limit_bytes d"
  "queued_bytes (dispatch_remove_daemon i d) = queued_bytes d"
  "peak_queued_bytes (dispatch_remove_daemon i d) = peak_queued_bytes d"
  "senders (dispatch_remove_daemon i d) = senders d" "blocked (dispatch_remove_daemon i d) = blocked d"
  by (simp_all add: dispatch_remove_daemon_def Let_def)

end
