(* ===== verification/DispInv.thy ===== *)
theory DispInv
  imports DispLemmas
begin

text \<open>
  The invariants of the dispatcher and, for every operation, that it keeps them: the counters
  agree with the lists (\<open>counters_ok\<close>), slots and senders are in one-to-one correspondence and no
  send waits (\<open>slots_ok\<close>), the sync generations are ordered (\<open>sync_ok\<close>), no request
  waits while a daemon could take it (\<open>work_ok\<close>), and the contexts are conserved (\<open>ctx_total\<close>).
\<close>

section \<open>Definitions\<close>

definition queue_bytes :: "dispatcher \<Rightarrow> nat" where
  "queue_bytes d = sum_list (map (\<lambda>q. length (q_msg q)) (inq d))"

definition counters_ok :: "dispatcher \<Rightarrow> bool" where
  "counters_ok d \<longleftrightarrow>
     inq_count d = int (length (inq d)) \<and>
     outq_count d = int (cnt (\<lambda>x. d_state x \<noteq> DAEMON_INIT) (daemons d)) \<and>
     executing d = int (cnt (\<lambda>x. d_state x = DAEMON_BUSY) (daemons d)) \<and>
     length (daemons d) \<le> outq_capacity d \<and> 0 < outq_capacity d \<and>
     queue_bytes d < 2 ^ 64 \<and> queued_bytes d = of_nat (queue_bytes d) \<and>
     queued_bytes d \<le> peak_queued_bytes d \<and>
     inq_count d + executing d \<le> d_count d"

definition slot_ok :: "dispatcher \<Rightarrow> daemon \<Rightarrow> bool" where
  "slot_ok d x \<longleftrightarrow>
     (\<exists>s. senders d (d_ds x) = Some s \<and> s_pipe s = d_pipe x
          \<and> (s_busy s \<longrightarrow> d_state x = DAEMON_BUSY) \<and> (s_sending s \<longrightarrow> d_state x = DAEMON_INIT))"

definition slots_ok :: "dispatcher \<Rightarrow> bool" where
  "slots_ok d \<longleftrightarrow>
     distinct (map d_pipe (daemons d)) \<and> distinct (map d_ds (daemons d) @ retired d) \<and>
     dom (senders d) = set (map d_ds (daemons d) @ retired d) \<and>
     (\<forall>x \<in> set (daemons d). slot_ok d x) \<and> \<not> blocked d"

definition sync_ok :: "dispatcher \<Rightarrow> bool" where
  "sync_ok d \<longleftrightarrow> (\<forall>x \<in> set (daemons d).
     d_sync_gen x \<le> sync_generation d \<and> (\<not> syncing d \<longrightarrow> d_sync_gen x < sync_generation d))"

definition work_ok :: "dispatcher \<Rightarrow> bool" where
  "work_ok d \<longleftrightarrow> stopped d \<or> inq d = [] \<or> dispatch_find_idle_daemon d = None"

text \<open>The contexts the dispatcher answers for, and those it has closed.\<close>

definition busy_ctx :: "daemon \<Rightarrow> nat multiset" where
  "busy_ctx x = (if d_state x = DAEMON_BUSY then {# d_ctx x #} else {#})"

fun closed_ctx :: "dcall \<Rightarrow> nat multiset" where
  "closed_ctx (CtxClose c) = {# c #}"
| "closed_ctx _ = {#}"

definition closed_by :: "dcall list \<Rightarrow> nat multiset" where
  "closed_by cs = sum_list (map closed_ctx cs)"

definition ctx_total :: "dispatcher \<Rightarrow> nat multiset" where
  "ctx_total d = sum_list (map (\<lambda>q. {# q_ctx q #}) (inq d)) + sum_list (map busy_ctx (daemons d))
     + sum_list (map (\<lambda>r. {# r_ctx r #}) (reply_active d)) + closed_by (calls d)"

section \<open>The conservation of contexts\<close>

lemma closed_by_simps [simp]:
  "closed_by [] = {#}" "closed_by (c # cs) = closed_ctx c + closed_by cs"
  "closed_by (cs @ ds) = closed_by cs + closed_by ds"
  "closed_by (replicate n DaemonRecv) = {#}" "closed_by (map (\<lambda>_. MsgFree m) ps) = {#}"
  "closed_by (stale_free b) = {#}"
proof -
  show "closed_by (stale_free b) = {#}" by (cases b) (simp_all add: stale_free_def closed_by_def)
  show "closed_by (replicate n DaemonRecv) = {#}" by (induction n) (simp_all add: closed_by_def)
  show "closed_by (map (\<lambda>_. MsgFree m) ps) = {#}" by (induction ps) (simp_all add: closed_by_def)
qed (simp_all add: closed_by_def)

lemma ctx_emit: "ctx_total (emit cs d) = ctx_total d + closed_by cs"
  by (simp add: ctx_total_def ac_simps)

lemma ctx_wake [simp]: "ctx_total (wake_if c d) = ctx_total d"
  by (simp add: wake_if_def ctx_emit)

lemma ctx_set_sender [simp]: "ctx_total (set_sender p s d) = ctx_total d"
  by (simp add: ctx_total_def)

lemma ctx_enqueue: "ctx_total (dispatch_enqueue ctx msg msgid sy d) = ctx_total d + {# ctx #}"
  by (simp add: ctx_total_def dispatch_enqueue_def Let_def ac_simps)

lemma ctx_set_daemon:
  "i < length (daemons d) \<Longrightarrow>
   ctx_total (set_daemon i x d) + busy_ctx (daemons d ! i) = ctx_total d + busy_ctx x"
  using sum_list_map_update [of i "daemons d" busy_ctx x] by (simp add: ctx_total_def ac_simps)

lemma ctx_slot:
  assumes "i < length (daemons d)" "daemons d' = (daemons d)[i := x]" "inq d' = inq d"
    "reply_active d' = reply_active d" "closed_by (calls d') = closed_by (calls d)"
  shows "ctx_total d' + busy_ctx (daemons d ! i) = ctx_total d + busy_ctx x"
  using sum_list_map_update [OF assms(1), of busy_ctx x] assms by (simp add: ctx_total_def ac_simps)

lemma ctx_assign:
  assumes "i < length (daemons d)" "d_state (daemons d ! i) \<noteq> DAEMON_BUSY"
  shows "ctx_total (dispatch_assign_task i ctx msg msgid sy d) = ctx_total d + {# ctx #}"
proof -
  let ?d' = "dispatch_assign_task i ctx msg msgid sy d"
  have "ctx_total ?d' + busy_ctx (daemons d ! i) = ctx_total d + busy_ctx (assigned i ctx msgid sy d)"
    by (rule ctx_slot) (use assms in \<open>simp_all add: assign_task_send\<close>)
  then show ?thesis using assms by (simp add: busy_ctx_def)
qed

lemma ctx_dequeue:
  assumes "i < length (daemons d)" "d_state (daemons d ! i) \<noteq> DAEMON_BUSY" "inq d \<noteq> []"
  shows "ctx_total (dispatch_dequeue i d) = ctx_total d"
proof -
  let ?q = "hd (inq d)"
  let ?d = "d\<lparr>inq := tl (inq d), inq_count := inq_count d - 1,
              queued_bytes := queued_bytes d - of_nat (length (q_msg ?q))\<rparr>"
  have "ctx_total ?d + {# q_ctx ?q #} = ctx_total d"
    using assms(3) by (cases "inq d") (simp_all add: ctx_total_def)
  then show ?thesis
    using ctx_assign [of i ?d] assms(1,2) by (simp add: dispatch_dequeue_def Let_def)
qed

lemma ctx_drain [simp]: "ctx_total (dispatch_drain_locked d) = ctx_total d"
proof -
  have "ctx_total (snd (drain_loop False d)) = ctx_total d"
    by (rule drain_loop_induct [where P = "\<lambda>x. ctx_total x = ctx_total d"])
      (use find_idle_Some ctx_dequeue in fastforce)+
  then show ?thesis
    by (simp add: dispatch_drain_locked_def split: prod.splits) (metis snd_conv)
qed

lemma harvest_ctx:
  "harvest rs = (act, cs, n) \<Longrightarrow>
   sum_list (map (\<lambda>r. {# r_ctx r #}) act) + closed_by cs = sum_list (map (\<lambda>r. {# r_ctx r #}) rs)"
  by (induction rs arbitrary: act cs n) (auto split: prod.splits if_splits simp: ac_simps)

lemma ctx_reply:
  "ctx_total (dispatch_reply_send_locked ok ctx msg d) = ctx_total d + {# ctx #}"
proof -
  obtain act cs n where h: "harvest (reply_active d) = (act, cs, n)" by (metis prod_cases3)
  show ?thesis
    using harvest_ctx [OF h]
    by (auto simp: dispatch_reply_send_locked_def h Let_def ctx_total_def ac_simps)
qed

lemma ctx_conn_reset:
  "ctx_total (dispatch_send_conn_reset m ok ctx d) = ctx_total d + {# ctx #}"
  by (simp add: dispatch_send_conn_reset_def ctx_reply ctx_emit)

lemma ctx_remove:
  "i < length (daemons d) \<Longrightarrow>
   ctx_total (dispatch_remove_daemon i d) + busy_ctx (daemons d ! i) = ctx_total d"
  using sum_list_pop_swap [of i "daemons d" busy_ctx]
  by (simp add: dispatch_remove_daemon_def Let_def ctx_total_def ac_simps)

lemma ctx_signal [simp]: "ctx_total (dispatch_queue_signal m n pipe d) = ctx_total d"
  by (auto simp: dispatch_queue_signal_def ctx_emit) (simp_all add: ctx_total_def)

lemma ctx_sig_cb [simp]: "ctx_total (dispatch_sig_cb sent d) = ctx_total d"
  by (auto simp: dispatch_sig_cb_def Let_def ctx_emit split: list.splits) (simp_all add: ctx_total_def)

lemma ctx_dsend_free [simp]: "ctx_total (dispatch_dsend_free ds d) = ctx_total d"
  by (simp add: dispatch_dsend_free_def ctx_total_def)

lemma ctx_fold_dsend [simp]: "ctx_total (fold dispatch_dsend_free xs d) = ctx_total d"
  by (induction xs arbitrary: d) auto

lemma ctx_reap [simp]: "ctx_total (dispatch_reap_retired d) = ctx_total d"
  by (simp add: dispatch_reap_retired_def) (simp add: ctx_total_def)

lemma ctx_init_cb [simp]: "ctx_total (dispatch_init_cb sent ds d) = ctx_total d"
proof -
  let ?s = "the (senders d ds)"
  let ?d1 = "set_sender ds (?s\<lparr>s_sending := False\<rparr>) (if sent then d else emit [MsgFree (s_init ?s)] d)"
  have 1: "ctx_total ?d1 = ctx_total d" by (simp add: ctx_emit)
  have 2: "ctx_total (emit [CvWake] (set_daemon i ((daemons ?d1 ! i)\<lparr>d_state := DAEMON_IDLE\<rparr>)
              (?d1\<lparr>connections := a, outq_count := b\<rparr>))) = ctx_total ?d1"
    if "i < length (daemons ?d1)" "d_state (daemons ?d1 ! i) = DAEMON_INIT" for i a b
  proof -
    let ?e = "?d1\<lparr>connections := a, outq_count := b\<rparr>"
    have "ctx_total ?e = ctx_total ?d1" by (simp add: ctx_total_def)
    moreover have "daemons ?e = daemons ?d1" by simp
    ultimately show ?thesis
      using ctx_set_daemon [of i ?e "(daemons ?d1 ! i)\<lparr>d_state := DAEMON_IDLE\<rparr>"] that
      by (simp add: ctx_emit busy_ctx_def)
  qed
  show ?thesis
    unfolding dispatch_init_cb_def Let_def
    using find_daemon_Some [of ?d1] 1 2 by (auto split: option.splits)
qed

lemma ctx_insert:
  "dispatch_insert_daemon r pipe ds d = Some d' \<Longrightarrow> ctx_total d' = ctx_total d"
  by (auto simp: dispatch_insert_daemon_def Let_def ctx_total_def busy_ctx_def split: if_splits)

lemma ctx_fail [simp]: "ctx_total (connect_fail ok pipe d) = ctx_total d"
  by (simp add: connect_fail_def ctx_emit)

lemma ctx_seed [simp]: "ctx_total (d\<lparr>rng_seed := x\<rparr>) = ctx_total d"
  by (simp add: ctx_total_def)

lemma ctx_connect [simp]: "ctx_total (dispatch_handle_connect ok ds pipe d) = ctx_total d"
  by (auto simp: dispatch_handle_connect_def Let_def ctx_emit split: option.splits dest: ctx_insert)

definition held_ctx :: "(nat \<times> bool) option \<Rightarrow> nat multiset" where
  "held_ctx r = (case r of None \<Rightarrow> {#} | Some (c, _) \<Rightarrow> {# c #})"

lemma ctx_disconnect:
  assumes "disconnect_locked pipe d = Some (r, d')"
  shows "ctx_total d' + held_ctx r = ctx_total d"
proof -
  obtain i where i: "dispatch_find_daemon d pipe = Some i" "i < length (daemons d)"
    using assms find_daemon_Some by (fastforce simp: disconnect_locked_def split: option.splits)
  have e: "ctx_total (d\<lparr>executing := x\<rparr>) = ctx_total d" for x by (simp add: ctx_total_def)
  have "ctx_total (dispatch_remove_daemon i (d\<lparr>executing := x\<rparr>)) + busy_ctx (daemons d ! i) = ctx_total d" for x
    using ctx_remove [of i "d\<lparr>executing := x\<rparr>"] i(2) e by simp
  with assms i ctx_remove [OF i(2)] show ?thesis
    by (auto simp: disconnect_locked_def Let_def ctx_emit held_ctx_def busy_ctx_def split: if_splits)
qed

lemma ctx_disconnect_reply:
  "ctx_total (disconnect_reply m ok ctx st d) = ctx_total d + {# ctx #}"
  by (simp add: disconnect_reply_def ctx_emit ctx_conn_reset)

lemma ctx_host_recv:
  "\<not> stopped d \<Longrightarrow> ctx_total (host_recv_locked msg d) = ctx_total d + {# host_ctx d #}"
  "stopped d \<Longrightarrow> ctx_total (host_recv_locked msg d) = ctx_total d"
proof -
  let ?d = "d\<lparr>d_count := d_count d + 1\<rparr>"
  have e: "ctx_total ?d = ctx_total d" by (simp add: ctx_total_def)
  show "ctx_total (host_recv_locked msg d) = ctx_total d + {# host_ctx d #}" if "\<not> stopped d"
  proof (cases "dispatch_find_idle_daemon ?d")
    case None
    with that e show ?thesis
      by (simp add: host_recv_locked_def Let_def ctx_enqueue split: prod.splits)
  next
    case (Some i)
    with find_idle_Some [OF Some] ctx_assign [of i ?d] that e show ?thesis
      by (simp add: host_recv_locked_def Let_def split: prod.splits)
  qed
  show "ctx_total (host_recv_locked msg d) = ctx_total d" if "stopped d"
    using that by (simp add: host_recv_locked_def ctx_emit split: prod.splits)
qed

lemma ctx_reopen [simp]: "ctx_total (host_reopen r d) = ctx_total d"
  by (auto simp: host_reopen_def ctx_emit split: option.splits) (simp_all add: ctx_total_def)

lemma ctx_daemon_recv [simp]: "ctx_total (dispatch_handle_daemon_recv ok pipe msg d) = ctx_total d"
proof -
  have marker: "ctx_total (dispatch_remove_daemon i (d\<lparr>executing := x\<rparr>)) + {# d_ctx (daemons d ! i) #}
      = ctx_total d" if "i < length (daemons d)" "d_state (daemons d ! i) = DAEMON_BUSY" for i x
  proof -
    have "ctx_total (d\<lparr>executing := x\<rparr>) = ctx_total d" by (simp add: ctx_total_def)
    then show ?thesis using ctx_remove [of i "d\<lparr>executing := x\<rparr>"] that by (simp add: busy_ctx_def)
  qed
  have idle: "ctx_total (set_daemon i ((daemons d ! i)\<lparr>d_state := DAEMON_IDLE, d_msgid := 0\<rparr>)
        (d\<lparr>executing := x\<rparr>)) + {# d_ctx (daemons d ! i) #} = ctx_total d"
    if "i < length (daemons d)" "d_state (daemons d ! i) = DAEMON_BUSY" for i x
  proof -
    have "ctx_total (d\<lparr>executing := x\<rparr>) = ctx_total d" by (simp add: ctx_total_def)
    then show ?thesis using ctx_set_daemon [of i "d\<lparr>executing := x\<rparr>"] that by (simp add: busy_ctx_def)
  qed
  show ?thesis
  proof (cases "dispatch_find_daemon d pipe")
    case None
    then show ?thesis by (simp add: dispatch_handle_daemon_recv_def Let_def ctx_emit)
  next
    case (Some i)
    note i = find_daemon_Some [OF Some, THEN conjunct1]
    show ?thesis
    proof (cases "\<not> stopped d \<and> d_state (daemons d ! i) = DAEMON_BUSY")
      case False
      then show ?thesis using Some
        by (simp only: dispatch_handle_daemon_recv_def Let_def option.case if_False ctx_emit) simp
    next
      case True
      then show ?thesis
        using Some marker [OF i] idle [OF i]
        by (cases "snd (dispatch_read_msg_info msg)")
          (simp_all add: dispatch_handle_daemon_recv_def Let_def ctx_emit ctx_reply)
    qed
  qed
qed

lemma ctx_cancel_inq: "ctx_total (snd (dispatch_cancel_inq tid d)) = ctx_total d"
proof (cases "find_idx (\<lambda>q. q_msgid q = tid) (inq d)")
  case None
  then show ?thesis by (simp add: dispatch_cancel_inq_def)
next
  case (Some k)
  then have k: "k < length (inq d)" by (auto dest: find_idx_Some)
  let ?f = "\<lambda>q. {# q_ctx q #}"
  from sum_list_remove_nth [OF k, of ?f]
  have "sum_list (map ?f (inq d)) = sum_list (map ?f (take k (inq d) @ drop (Suc k) (inq d))) + ?f (inq d ! k)"
    by simp
  then show ?thesis
    by (simp add: dispatch_cancel_inq_def Some Let_def) (simp add: ctx_total_def wake_if_def)
qed

lemma ctx_cancel [simp]: "ctx_total (snd (dispatch_cancel_direct m n tid d)) = ctx_total d"
  by (auto simp: dispatch_cancel_direct_def ctx_cancel_inq split: option.splits)

lemma ctx_stop [simp]: "ctx_total (dispatcher_handle_stop d) = ctx_total d"
  by (simp add: dispatcher_handle_stop_def ctx_emit) (simp add: ctx_total_def)

lemmas ctx_laws = ctx_emit ctx_reply ctx_conn_reset ctx_disconnect ctx_disconnect_reply ctx_host_recv

section \<open>Shutting down closes exactly the contexts that are left\<close>

lemma calls_fold_dsend:
  "closed_by (calls (fold dispatch_dsend_free xs d)) = closed_by (calls d)"
  by (induction xs arbitrary: d) (auto simp: dispatch_dsend_free_def)

lemma calls_slot_release:
  "closed_by (calls (fold slot_release xs d)) = closed_by (calls d) + sum_list (map busy_ctx xs)"
  by (induction xs arbitrary: d)
    (auto simp: slot_release_def dispatch_dsend_free_def Let_def busy_ctx_def ac_simps)

lemma calls_reply_release:
  "closed_by (calls (fold reply_release xs d)) = closed_by (calls d) + sum_list (map (\<lambda>r. {# r_ctx r #}) xs)"
  by (induction xs arbitrary: d) (auto simp: reply_release_def ac_simps)

lemma calls_node_release:
  "closed_by (calls (fold node_release xs d)) = closed_by (calls d) + sum_list (map (\<lambda>q. {# q_ctx q #}) xs)"
  by (induction xs arbitrary: d) (auto simp: node_release_def ac_simps)

lemma fold_dsend_sel [simp]:
  "daemons (fold dispatch_dsend_free xs d) = daemons d" "inq (fold dispatch_dsend_free xs d) = inq d"
  "reply_active (fold dispatch_dsend_free xs d) = reply_active d"
  "host_ctx (fold dispatch_dsend_free xs d) = host_ctx d"
  "sig_queue (fold dispatch_dsend_free xs d) = sig_queue d"
  by (induction xs arbitrary: d) (auto simp: dispatch_dsend_free_def)

lemma fold_slot_sel [simp]:
  "daemons (fold slot_release xs d) = daemons d" "inq (fold slot_release xs d) = inq d"
  "reply_active (fold slot_release xs d) = reply_active d" "host_ctx (fold slot_release xs d) = host_ctx d"
  "sig_queue (fold slot_release xs d) = sig_queue d"
  by (induction xs arbitrary: d) (auto simp: slot_release_def dispatch_dsend_free_def Let_def)

lemma fold_reply_sel [simp]:
  "inq (fold reply_release xs d) = inq d" "host_ctx (fold reply_release xs d) = host_ctx d"
  "sig_queue (fold reply_release xs d) = sig_queue d" "senders (fold reply_release xs d) = senders d"
  by (induction xs arbitrary: d) (auto simp: reply_release_def)

lemma fold_node_sel [simp]:
  "sig_queue (fold node_release xs d) = sig_queue d" "senders (fold node_release xs d) = senders d"
  by (induction xs arbitrary: d) (auto simp: node_release_def)

lemma shutdown_closes:
  "closed_by (calls (dispatch_shutdown d)) = ctx_total d + {# host_ctx d #}"
  by (simp add: dispatch_shutdown_def Let_def calls_fold_dsend calls_slot_release calls_reply_release
      calls_node_release ctx_total_def ac_simps)

lemma senders_fold_slot:
  "senders (fold slot_release xs d) = (\<lambda>p. if p \<in> d_ds ` set xs then None else senders d p)"
  by (induction xs arbitrary: d) (auto simp: slot_release_def dispatch_dsend_free_def Let_def fun_eq_iff)

lemma shutdown_frees_senders:
  assumes "slots_ok d" shows "senders (dispatch_shutdown d) = (\<lambda>_. None)"
proof -
  have "dom (senders d) = set (map d_ds (daemons d) @ retired d)" using assms by (simp add: slots_ok_def)
  then have "p \<notin> set (retired d) \<Longrightarrow> p \<notin> d_ds ` set (daemons d) \<Longrightarrow> senders d p = None" for p
    by (auto simp: dom_def set_eq_iff)
  then show ?thesis
    by (auto simp: dispatch_shutdown_def Let_def senders_fold_dsend senders_fold_slot fun_eq_iff)
qed

end
