(* ===== verification/DispCore.thy ===== *)
theory DispCore
  imports DispInv
begin

text \<open>
  Every dispatcher operation keeps the counter, slot and sync invariants, and every handler
  leaves no request waiting that a daemon could take.
\<close>

definition core_ok :: "dispatcher \<Rightarrow> bool" where
  "core_ok d \<longleftrightarrow> counters_ok d \<and> slots_ok d \<and> sync_ok d"

lemmas core_defs = core_ok_def counters_ok_def slots_ok_def sync_ok_def slot_ok_def queue_bytes_def

lemma core_same: "same_slots d' d \<Longrightarrow> core_ok d' = core_ok d"
  by (simp add: core_defs same_slotsD same_coreD [OF same_slotsD(1)])

lemma counters_same: "same_core d' d \<Longrightarrow> counters_ok d' = counters_ok d"
  by (simp add: counters_ok_def queue_bytes_def same_coreD)

lemma sync_same: "same_core d' d \<Longrightarrow> sync_ok d' = sync_ok d"
  by (simp add: sync_ok_def same_coreD)

lemma work_same: "same_core d' d \<Longrightarrow> work_ok d' = work_ok d"
  by (simp add: work_ok_def same_coreD)

lemma core_ctrs [simp]: "core_ok (d\<lparr>rng_seed := x\<rparr>) = core_ok d" "core_ok (d\<lparr>connections := y\<rparr>) = core_ok d"
  by (simp_all add: core_defs)

section \<open>Assignment and draining\<close>

lemma counters_assign:
  assumes "counters_ok d" "i < length (daemons d)" "d_state (daemons d ! i) = DAEMON_IDLE"
    "inq_count d + executing d < d_count d"
  shows "counters_ok (dispatch_assign_task i ctx msg msgid sy d)"
  using assms cnt_update [of i "daemons d" "\<lambda>x. d_state x \<noteq> DAEMON_INIT" "assigned i ctx msgid sy d"]
    cnt_update [of i "daemons d" "\<lambda>x. d_state x = DAEMON_BUSY" "assigned i ctx msgid sy d"]
  by (auto simp: counters_ok_def queue_bytes_def)

lemma slots_assign:
  assumes "slots_ok d" "i < length (daemons d)" "d_state (daemons d ! i) = DAEMON_IDLE"
  shows "slots_ok (dispatch_assign_task i ctx msg msgid sy d)"
proof -
  let ?x = "daemons d ! i" and ?y = "assigned i ctx msgid sy d"
  have p: "map d_pipe ((daemons d)[i := ?y]) = map d_pipe (daemons d)"
    "map d_ds ((daemons d)[i := ?y]) = map d_ds (daemons d)"
    using assms(2) by (simp_all add: map_update list_update_same_conv)
  have x: "slot_ok d ?x" using assms by (simp add: slots_ok_def)
  then obtain s where s: "senders d (d_ds ?x) = Some s" "s_pipe s = d_pipe ?x" "\<not> s_busy s" "\<not> s_sending s"
    using assms(3) by (auto simp: slot_ok_def)
  have inj: "z \<in> set (daemons d) \<Longrightarrow> d_ds z = d_ds ?x \<Longrightarrow> z = ?x" for z
    using assms(1,2) by (auto simp: slots_ok_def distinct_map inj_on_def)
  have "slot_ok (dispatch_assign_task i ctx msg msgid sy d) z" if "z \<in> set ((daemons d)[i := ?y])" for z
  proof (cases "d_ds z = d_ds ?x")
    case True
    have "z = ?y"
    proof (rule ccontr)
      assume "z \<noteq> ?y"
      with in_set_update [OF that] obtain j where j: "j < length (daemons d)" "j \<noteq> i" "z = daemons d ! j"
        by blast
      then have "map d_ds (daemons d) ! j = map d_ds (daemons d) ! i" using True assms(2) by simp
      moreover have "distinct (map d_ds (daemons d))" using assms(1) by (simp add: slots_ok_def)
      ultimately show False
        using j assms(2) nth_eq_iff_index_eq [of "map d_ds (daemons d)" j i] by simp
    qed
    with s assms(2) show ?thesis by (simp add: slot_ok_def assign_task_send)
  next
    case False
    then have "z \<in> set (daemons d)" using that assms(2) set_update_subset_insert by fastforce
    then have "slot_ok d z" using assms(1) by (simp add: slots_ok_def)
    with False assms(2) show ?thesis by (simp add: slot_ok_def assign_task_send)
  qed
  moreover have "insert (d_ds ?x) (dom (senders d)) = dom (senders d)" using s(1) by auto
  ultimately show ?thesis
    using assms(1,2) s p unfolding slots_ok_def by (simp add: assign_task_send)
qed

lemma sync_assign:
  assumes "sync_ok d" "i < length (daemons d)"
  shows "sync_ok (dispatch_assign_task i ctx msg msgid sy d)"
proof -
  have "daemons d ! i \<in> set (daemons d)" using assms(2) by simp
  then have i: "d_sync_gen (daemons d ! i) \<le> sync_generation d"
    "\<not> syncing d \<Longrightarrow> d_sync_gen (daemons d ! i) < sync_generation d"
    using assms(1) by (auto simp: sync_ok_def)
  show ?thesis
    unfolding sync_ok_def
  proof (rule ballI)
    fix x assume "x \<in> set (daemons (dispatch_assign_task i ctx msg msgid sy d))"
    then have "x = assigned i ctx msgid sy d \<or> x \<in> set (daemons d)"
      using in_set_update assms(2) by fastforce
    then have "d_sync_gen x \<le> sync_generation d"
      "\<not> sy \<and> \<not> syncing d \<Longrightarrow> d_sync_gen x < sync_generation d"
      using assms(1) i by (auto simp: sync_ok_def assigned_def)
    then show "d_sync_gen x \<le> sync_generation (dispatch_assign_task i ctx msg msgid sy d) \<and>
       (\<not> syncing (dispatch_assign_task i ctx msg msgid sy d) \<longrightarrow>
          d_sync_gen x < sync_generation (dispatch_assign_task i ctx msg msgid sy d))"
      using assms(2) by auto
  qed
qed

lemma core_assign:
  assumes "core_ok d" "i < length (daemons d)" "d_state (daemons d ! i) = DAEMON_IDLE"
    "inq_count d + executing d < d_count d"
  shows "core_ok (dispatch_assign_task i ctx msg msgid sy d)"
  using assms by (simp add: core_ok_def counters_assign slots_assign sync_assign)

lemma core_pop:
  assumes "core_ok d" "inq d \<noteq> []"
  defines "d' \<equiv> d\<lparr>inq := tl (inq d), inq_count := inq_count d - 1,
                   queued_bytes := queued_bytes d - of_nat (length (q_msg (hd (inq d))))\<rparr>"
  shows "core_ok d'" and "inq_count d' + executing d' < d_count d'"
proof -
  obtain q qs where q: "inq d = q # qs" using assms(2) by (cases "inq d") auto
  let ?l = "length (q_msg q)" and ?s = "sum_list (map (\<lambda>q. length (q_msg q)) qs)"
  have b: "?l + ?s < 2 ^ 64" "queued_bytes d = of_nat (?l + ?s)" "queued_bytes d \<le> peak_queued_bytes d"
    using assms(1) q by (auto simp: core_defs)
  have "(of_nat ?s :: u64) \<le> of_nat (?l + ?s)"
    using b(1) by (simp add: word_le_nat_alt unat_of_nat flip: of_nat_add)
  with b have "queued_bytes d - of_nat ?l = of_nat ?s" "(of_nat ?s :: u64) \<le> peak_queued_bytes d"
    by auto
  then show "core_ok d'" "inq_count d' + executing d' < d_count d'"
    using assms(1) q b(1) unfolding d'_def by (auto simp: core_defs)
qed

lemma core_dequeue:
  assumes "core_ok d" "inq d \<noteq> []" "dispatch_find_idle_daemon d = Some i"
  shows "core_ok (dispatch_dequeue i d)"
  using core_pop [OF assms(1,2)] find_idle_Some [OF assms(3)]
  unfolding dispatch_dequeue_def Let_def by (intro core_assign) auto

lemma core_drain: "core_ok d \<Longrightarrow> core_ok (dispatch_drain_locked d)"
proof -
  assume "core_ok d"
  then have "core_ok (snd (drain_loop False d))"
    by (rule drain_loop_induct [where P = core_ok, rotated]) (rule core_dequeue)
  then show ?thesis
    by (cases "drain_loop False d") (simp add: dispatch_drain_locked_def core_same [OF same_emit(2)])
qed

lemma work_drain: "work_ok (dispatch_drain_locked d)"
proof -
  obtain b e where e: "drain_loop False d = (b, e)" by fastforce
  have "work_ok e" using drain_loop_done [of False d] by (auto simp: e work_ok_def)
  then show ?thesis
    by (simp add: dispatch_drain_locked_def e work_same [OF same_slotsD(1) [OF same_emit(2)]])
qed

section \<open>Removal, insertion and reaping\<close>

text \<open>Taking a slot out, with the \<open>executing\<close> adjustment the callers make for a busy one.\<close>

definition minus_busy :: "nat \<Rightarrow> dispatcher \<Rightarrow> dispatcher" where
  "minus_busy i d = (if d_state (daemons d ! i) = DAEMON_BUSY then d\<lparr>executing := executing d - 1\<rparr> else d)"

lemma minus_busy_sel [simp]:
  "inq (minus_busy i d) = inq d" "daemons (minus_busy i d) = daemons d" "stopped (minus_busy i d) = stopped d"
  "retired (minus_busy i d) = retired d" "senders (minus_busy i d) = senders d"
  "syncing (minus_busy i d) = syncing d" "sync_generation (minus_busy i d) = sync_generation d"
  "blocked (minus_busy i d) = blocked d" "inq_count (minus_busy i d) = inq_count d"
  "outq_capacity (minus_busy i d) = outq_capacity d" "outq_count (minus_busy i d) = outq_count d"
  "d_count (minus_busy i d) = d_count d" "queued_bytes (minus_busy i d) = queued_bytes d"
  "peak_queued_bytes (minus_busy i d) = peak_queued_bytes d"
  by (simp_all add: minus_busy_def)

lemma core_remove:
  assumes "core_ok d" "i < length (daemons d)"
  shows "core_ok (dispatch_remove_daemon i (minus_busy i d))"
proof -
  let ?x = "daemons d ! i" and ?ds = "pop_swap i (daemons d)"
  have sub: "set ?ds \<subseteq> set (daemons d)" using assms(2) by (rule set_pop_swap_subset)
  have m: "mset ?ds + {# ?x #} = mset (daemons d)" using assms(2) by (rule mset_pop_swap)
  have mp: "mset (map f ?ds) + {# f ?x #} = mset (map f (daemons d))" for f :: "daemon \<Rightarrow> 'b"
    using arg_cong [OF m, of "image_mset f"] by simp
  have dist: "distinct (f ?x # map f ?ds)" if "distinct (map f (daemons d))" for f :: "daemon \<Rightarrow> 'b"
    using that mp [of f] by (metis add.commute add_mset_add_single mset.simps(2) mset_eq_imp_distinct_iff)
  have st: "insert (f ?x) (f ` set ?ds) = f ` set (daemons d)" for f :: "daemon \<Rightarrow> 'b"
    using arg_cong [OF m, of "\<lambda>m. f ` set_mset m"] by simp
  have "counters_ok (dispatch_remove_daemon i (minus_busy i d))"
    using assms cnt_pop_swap [OF assms(2), of "\<lambda>x. d_state x \<noteq> DAEMON_INIT"]
      cnt_pop_swap [OF assms(2), of "\<lambda>x. d_state x = DAEMON_BUSY"]
    by (auto simp: core_ok_def counters_ok_def queue_bytes_def minus_busy_def)
  moreover have "slots_ok (dispatch_remove_daemon i (minus_busy i d))"
  proof -
    have s: "slots_ok d" using assms(1) by (simp add: core_ok_def)
    then have "d_ds ` set (daemons d) \<inter> set (retired d) = {}" by (simp add: slots_ok_def)
    then have "d_ds ` set ?ds \<inter> set (retired d) = {}" "d_ds ?x \<notin> set (retired d)"
      using sub nth_mem [OF assms(2)] by blast+
    moreover have "\<forall>x \<in> set ?ds. slot_ok (dispatch_remove_daemon i (minus_busy i d)) x"
      using s sub by (auto simp: slots_ok_def slot_ok_def)
    ultimately show ?thesis
      using s dist [of d_pipe] dist [of d_ds] st [of d_ds] by (auto simp: slots_ok_def)
  qed
  moreover have "sync_ok (dispatch_remove_daemon i (minus_busy i d))"
    using assms sub by (auto simp: core_ok_def sync_ok_def)
  ultimately show ?thesis by (simp add: core_ok_def)
qed

lemma find_idx_subset: "set xs \<subseteq> set ys \<Longrightarrow> find_idx P ys = None \<Longrightarrow> find_idx P xs = None"
  by (auto simp: find_idx_None_iff)

lemma work_remove:
  "work_ok d \<Longrightarrow> i < length (daemons d) \<Longrightarrow> work_ok (dispatch_remove_daemon i (minus_busy i d))"
  using set_pop_swap_subset [of i "daemons d"]
  by (auto simp: work_ok_def dispatch_find_idle_daemon_def dest: find_idx_subset)

lemma core_insert:
  assumes "core_ok d" "pipe \<notin> d_pipe ` set (daemons d)" "ds \<notin> dom (senders d)"
    "dispatch_insert_daemon r pipe ds d = Some d'" "s_pipe s = pipe" "\<not> s_busy s"
  shows "core_ok (set_sender ds s d')"
proof -
  have f: "ds \<notin> d_ds ` set (daemons d)" "ds \<notin> set (retired d)"
    using assms(1,3) by (auto simp: core_ok_def slots_ok_def)
  have d': "daemons d' = daemons d @ [\<lparr>d_pipe = pipe, d_state = DAEMON_INIT, d_msgid = 0,
      d_sync_gen = sync_generation d - 1, d_ctx = 0, d_ds = ds\<rparr>]"
    "inq d' = inq d" "retired d' = retired d" "senders d' = senders d" "blocked d' = blocked d"
    "syncing d' = syncing d" "sync_generation d' = sync_generation d"
    using assms(4) by (auto simp: dispatch_insert_daemon_def Let_def split: if_splits)
  have "counters_ok d'"
    using assms(1,4) by (auto simp: core_ok_def counters_ok_def queue_bytes_def
        dispatch_insert_daemon_def Let_def Suc_le_eq split: if_splits)
  then have "counters_ok (set_sender ds s d')" by (auto simp: counters_ok_def queue_bytes_def)
  moreover have "slots_ok (set_sender ds s d')"
  proof -
    have "slot_ok (set_sender ds s d') x" if "x \<in> set (daemons d)" for x
      using that f(1) assms(1) by (auto simp: core_ok_def slots_ok_def slot_ok_def d')
    then show ?thesis
      using f assms(1,2,5,6) by (auto simp: core_ok_def slots_ok_def d') (auto simp: slot_ok_def)
  qed
  moreover have "sync_ok (set_sender ds s d')"
    using assms(1) by (auto simp: core_ok_def sync_ok_def d')
  ultimately show ?thesis by (simp add: core_ok_def)
qed

lemma work_insert:
  "work_ok d \<Longrightarrow> dispatch_insert_daemon r pipe ds d = Some d' \<Longrightarrow> work_ok (set_sender ds s d')"
  by (auto simp: work_ok_def dispatch_find_idle_daemon_def dispatch_insert_daemon_def Let_def
      find_idx_None_iff split: if_splits)

lemma core_reap: 
  assumes "core_ok d" shows "core_ok (dispatch_reap_retired d)"
proof -
  let ?d = "dispatch_reap_retired d"
  have "\<forall>x \<in> set (daemons d). d_ds x \<notin> set (retired d)"
    using assms by (auto simp: core_ok_def slots_ok_def)
  moreover have "senders d p \<noteq> None \<longleftrightarrow> p \<in> d_ds ` set (daemons d) \<or> p \<in> set (retired d)" for p
    using assms unfolding core_ok_def slots_ok_def by (auto simp: set_eq_iff dom_def)
  ultimately have "dom (senders ?d) = set (map d_ds (daemons ?d) @ retired ?d)"
    unfolding dom_def senders_reap retired_reap same_coreD [OF same_reap] set_eq_iff by auto
  moreover have "slot_ok ?d x" if "x \<in> set (daemons d)" for x
    using that assms by (auto simp: core_ok_def slots_ok_def slot_ok_def senders_reap)
  ultimately show ?thesis
    using assms unfolding core_ok_def slots_ok_def counters_same [OF same_reap] sync_same [OF same_reap]
    by (auto simp: same_coreD [OF same_reap] retired_reap)
qed

section \<open>Handlers\<close>

lemma core_connect:
  assumes "core_ok d" "pipe \<notin> d_pipe ` set (daemons d)" "ds \<notin> dom (senders d)"
  shows "core_ok (dispatch_handle_connect ok ds pipe d)"
proof -
  let ?d = "dispatch_reap_retired d"
  have c: "core_ok ?d" "pipe \<notin> d_pipe ` set (daemons ?d)" "ds \<notin> dom (senders ?d)"
    using assms core_reap by (auto simp: same_coreD [OF same_reap] senders_reap split: if_splits)
  have fail: "core_ok (connect_fail ok pipe ?d)"
    using c(1) by (simp add: connect_fail_def core_same [OF same_emit(1)])
  show ?thesis
  proof (cases "dispatch_insert_daemon (c_realloc ok) pipe ds ?d")
    case None
    then show ?thesis using fail by (simp add: dispatch_handle_connect_def Let_def)
  next
    case (Some d2)
    have "core_ok (set_sender ds s (d2\<lparr>rng_seed := x\<rparr>))" if "s_pipe s = pipe" "\<not> s_busy s" for s x
    proof -
      have "core_ok (set_sender ds s d2)" by (rule core_insert [OF c Some that])
      moreover have "set_sender ds s (d2\<lparr>rng_seed := x\<rparr>) = (set_sender ds s d2)\<lparr>rng_seed := x\<rparr>"
        by (simp add: set_sender_def)
      ultimately show ?thesis by simp
    qed
    then show ?thesis using fail Some
      by (simp add: dispatch_handle_connect_def Let_def core_same [OF same_emit(1)])
  qed
qed

lemma work_connect:
  assumes "work_ok d" shows "work_ok (dispatch_handle_connect ok ds pipe d)"
proof -
  let ?d = "dispatch_reap_retired d"
  have c: "work_ok ?d" using assms by (simp add: work_same [OF same_reap])
  note e = work_same [OF same_slotsD(1) [OF same_emit(1)]]
  have "work_ok (set_sender ds s (d2\<lparr>rng_seed := x\<rparr>))"
    if "dispatch_insert_daemon (c_realloc ok) pipe ds ?d = Some d2" for d2 s x
    using work_insert [OF c that, of s] by (simp add: work_ok_def dispatch_find_idle_daemon_def)
  then show ?thesis
    using c by (auto simp: dispatch_handle_connect_def Let_def connect_fail_def e split: option.splits)
qed

lemma core_sender_done:
  assumes "core_ok d" "senders d ds = Some s" "s_pipe s' = s_pipe s"
    "s_busy s' \<Longrightarrow> s_busy s" "s_sending s' \<Longrightarrow> s_sending s"
  shows "core_ok (set_sender ds s' d)"
proof -
  have "insert ds (dom (senders d)) = dom (senders d)" using assms(2) by auto
  moreover have "slot_ok (set_sender ds s' d) x" if "slot_ok d x" for x
    using that assms(2-) by (auto simp: slot_ok_def)
  ultimately show ?thesis using assms(1) by (auto simp: core_ok_def counters_ok_def queue_bytes_def
        slots_ok_def sync_ok_def)
qed

lemma core_idle:
  assumes "core_ok d" "i < length (daemons d)" "d_state (daemons d ! i) = DAEMON_INIT"
    "senders d (d_ds (daemons d ! i)) = Some s" "\<not> s_sending s"
  shows "core_ok (set_daemon i ((daemons d ! i)\<lparr>d_state := DAEMON_IDLE\<rparr>)
           (d\<lparr>connections := c, outq_count := outq_count d + 1\<rparr>))" (is "core_ok ?d'")
proof -
  let ?x = "daemons d ! i" let ?y = "?x\<lparr>d_state := DAEMON_IDLE\<rparr>"
  have "?x \<in> set (daemons d)" using assms(2) by simp
  then have sx: "slot_ok d ?x" using assms(1) by (simp add: core_ok_def slots_ok_def)
  then have x: "s_pipe s = d_pipe ?x" "\<not> s_busy s" using assms(3,4) by (auto simp: slot_ok_def)
  have p: "map d_pipe ((daemons d)[i := ?y]) = map d_pipe (daemons d)"
    "map d_ds ((daemons d)[i := ?y]) = map d_ds (daemons d)"
    using assms(2) by (simp_all add: map_update list_update_same_conv)
  have c: "counters_ok ?d'"
    using assms(1-3) cnt_update [OF assms(2), of "\<lambda>x. d_state x \<noteq> DAEMON_INIT" ?y]
      cnt_update [OF assms(2), of "\<lambda>x. d_state x = DAEMON_BUSY" ?y]
    by (auto simp: core_ok_def counters_ok_def queue_bytes_def)
  have "slot_ok ?d' z" "d_sync_gen z \<le> sync_generation d \<and> (\<not> syncing d \<longrightarrow> d_sync_gen z < sync_generation d)"
    if "z \<in> set (daemons ?d')" for z
  proof -
    have z: "z = ?y \<or> z \<in> set (daemons d)" using in_set_update that by fastforce
    have i: "?x \<in> set (daemons d)" using assms(2) by simp
    show "slot_ok ?d' z" using z x assms by (auto simp: core_ok_def slots_ok_def slot_ok_def)
    show "d_sync_gen z \<le> sync_generation d \<and> (\<not> syncing d \<longrightarrow> d_sync_gen z < sync_generation d)"
      using z i assms(1) by (auto simp: core_ok_def sync_ok_def)
  qed
  then show ?thesis
    using c p assms(1) by (simp add: core_ok_def slots_ok_def sync_ok_def)
qed

lemma work_update:
  "work_ok d \<Longrightarrow> inq d' = inq d \<Longrightarrow> daemons d' = daemons d \<Longrightarrow> syncing d' = syncing d
     \<Longrightarrow> sync_generation d' = sync_generation d \<Longrightarrow> stopped d' = stopped d \<Longrightarrow> work_ok d'"
  by (simp add: work_ok_def dispatch_find_idle_daemon_def)

lemma inv_init_cb:
  assumes "core_ok d" "work_ok d" "senders d ds = Some s"
  shows "core_ok (dispatch_init_cb sent ds d)" and "work_ok (dispatch_init_cb sent ds d)"
proof -
  let ?e = "if sent then d else emit [MsgFree (s_init s)] d"
  let ?d1 = "set_sender ds (s\<lparr>s_sending := False\<rparr>) ?e"
  have e: "same_slots ?e d" by (simp add: same_emit same_slots_def same_core_def)
  have c1: "core_ok ?d1"
    using assms e by (intro core_sender_done) (auto simp: core_same same_slotsD)
  have w1: "work_ok ?d1" by (rule work_update [OF assms(2)]) auto
  have step: "core_ok (set_daemon i ((daemons ?d1 ! i)\<lparr>d_state := DAEMON_IDLE\<rparr>)
          (?d1\<lparr>connections := connections ?d1 + 1, outq_count := outq_count ?d1 + 1\<rparr>))"
    if "i < length (daemons ?d1)" "d_state (daemons ?d1 ! i) = DAEMON_INIT" "d_ds (daemons ?d1 ! i) = ds" for i
    by (rule core_idle [OF c1 that(1,2), of "s\<lparr>s_sending := False\<rparr>"]) (use that(3) in auto)
  have d: "dispatch_init_cb sent ds d = (case dispatch_find_daemon ?d1 (s_pipe s) of
       None \<Rightarrow> ?d1
     | Some i \<Rightarrow> if sent \<and> d_ds (daemons ?d1 ! i) = ds \<and> d_state (daemons ?d1 ! i) = DAEMON_INIT
        then (let d2 = emit [CvWake] (set_daemon i ((daemons ?d1 ! i)\<lparr>d_state := DAEMON_IDLE\<rparr>)
                  (?d1\<lparr>connections := connections ?d1 + 1, outq_count := outq_count ?d1 + 1\<rparr>))
              in if \<not> stopped d2 then dispatch_drain_locked d2 else d2)
        else ?d1)"
    unfolding dispatch_init_cb_def Let_def assms(3) option.sel ..
  note f = find_daemon_Some [of ?d1 "s_pipe s", THEN conjunct1]
  show "core_ok (dispatch_init_cb sent ds d)"
    unfolding d Let_def using c1 step f
    by (auto split: option.splits simp: core_same [OF same_emit(1)] intro!: core_drain)
  show "work_ok (dispatch_init_cb sent ds d)"
    unfolding d Let_def using w1 work_drain by (auto split: option.splits simp: work_ok_def)
qed

lemma disconnect_state:
  assumes "disconnect_locked pipe d = Some (r, d')"
  obtains i where "dispatch_find_daemon d pipe = Some i" "i < length (daemons d)"
    "d' = emit [CvWake] (dispatch_remove_daemon i (minus_busy i d))"
    "r = (if d_state (daemons d ! i) = DAEMON_BUSY then Some (d_ctx (daemons d ! i), stopped d) else None)"
proof -
  obtain i where i: "dispatch_find_daemon d pipe = Some i" "i < length (daemons d)"
    using assms find_daemon_Some by (fastforce simp: disconnect_locked_def split: option.splits)
  show ?thesis
    by (rule that [OF i]) (use assms i(1) in \<open>auto simp: disconnect_locked_def Let_def minus_busy_def\<close>)
qed

lemma inv_disconnect:
  assumes "core_ok d" "work_ok d" "disconnect_locked pipe d = Some (r, d')"
  shows "core_ok d'" and "work_ok d'"
proof -
  from assms(3) obtain i where i: "i < length (daemons d)"
    "d' = emit [CvWake] (dispatch_remove_daemon i (minus_busy i d))" by (rule disconnect_state)
  show "core_ok d'" "work_ok d'"
    using core_remove [OF assms(1) i(1)] work_remove [OF assms(2) i(1)] i(2)
    by (simp_all add: core_same [OF same_emit(1)] work_same [OF same_slotsD(1) [OF same_emit(1)]])
qed

lemma inv_host_recv:
  assumes "core_ok d" "work_ok d" "queue_bytes d + length msg < 2 ^ 64"
  shows "core_ok (host_recv_locked msg d)" and "work_ok (host_recv_locked msg d)"
proof -
  let ?d = "d\<lparr>d_count := d_count d + 1\<rparr>"
  obtain mid sy where m: "dispatch_read_msg_info msg = (mid, sy)" by fastforce
  have c: "core_ok ?d" "inq_count ?d + executing ?d < d_count ?d" using assms(1) by (auto simp: core_defs)
  have enq: "core_ok (dispatch_enqueue ctx msg mid sy ?d)" for ctx
  proof -
    have "counters_ok (dispatch_enqueue ctx msg mid sy ?d)"
      using assms(1,3) by (auto simp: core_ok_def counters_ok_def queue_bytes_def dispatch_enqueue_def Let_def)
    then show ?thesis
      using assms(1) by (simp add: core_ok_def slots_ok_def sync_ok_def slot_ok_def dispatch_enqueue_def Let_def)
  qed
  have w: "inq (dispatch_assign_task i ctx msg mid sy ?d) = []"
    if "dispatch_find_idle_daemon ?d = Some i" "\<not> stopped d" for i ctx
    using that assms(2) by (auto simp: work_ok_def dispatch_find_idle_daemon_def)
  have st: "core_ok (emit [MsgFree msg] d)" "stopped d \<Longrightarrow> work_ok (emit [MsgFree msg] d)"
    using assms(1) by (simp_all add: core_same [OF same_emit(1)] work_ok_def)
  show "core_ok (host_recv_locked msg d)"
    using st(1) enq find_idle_Some [of ?d]
    by (auto simp: host_recv_locked_def m Let_def split: option.splits intro!: core_assign [OF c(1) _ _ c(2)])
  have "work_ok (dispatch_enqueue ctx msg mid sy ?d)" if "dispatch_find_idle_daemon ?d = None" for ctx
    using that by (simp add: work_ok_def dispatch_enqueue_def Let_def dispatch_find_idle_daemon_def)
  then show "work_ok (host_recv_locked msg d)"
    using st(2) w
    by (cases "dispatch_find_idle_daemon ?d") (auto simp: host_recv_locked_def m Let_def work_ok_def)
qed

lemma core_reply_idle:
  assumes "core_ok d" "i < length (daemons d)" "d_state (daemons d ! i) = DAEMON_BUSY"
    "\<not> s_busy (the (senders d (d_ds (daemons d ! i))))"
  shows "core_ok (set_daemon i ((daemons d ! i)\<lparr>d_state := DAEMON_IDLE, d_msgid := 0\<rparr>)
           (d\<lparr>executing := executing d - 1\<rparr>))" (is "core_ok ?d'")
proof -
  let ?x = "daemons d ! i" let ?y = "?x\<lparr>d_state := DAEMON_IDLE, d_msgid := 0\<rparr>"
  have m: "?x \<in> set (daemons d)" using assms(2) by simp
  then have sx: "slot_ok d ?x" using assms(1) by (simp add: core_ok_def slots_ok_def)
  have p: "map d_pipe ((daemons d)[i := ?y]) = map d_pipe (daemons d)"
    "map d_ds ((daemons d)[i := ?y]) = map d_ds (daemons d)"
    using assms(2) by (simp_all add: map_update list_update_same_conv)
  have c: "counters_ok ?d'"
    using assms(1-3) cnt_update [OF assms(2), of "\<lambda>x. d_state x \<noteq> DAEMON_INIT" ?y]
      cnt_update [OF assms(2), of "\<lambda>x. d_state x = DAEMON_BUSY" ?y]
    by (auto simp: core_ok_def counters_ok_def queue_bytes_def)
  have "slot_ok ?d' z" "d_sync_gen z \<le> sync_generation d \<and> (\<not> syncing d \<longrightarrow> d_sync_gen z < sync_generation d)"
    if "z \<in> set (daemons ?d')" for z
  proof -
    have z: "z = ?y \<or> z \<in> set (daemons d)" using in_set_update that by fastforce
    show "slot_ok ?d' z"
      using z sx assms by (auto simp: core_ok_def slots_ok_def) (auto simp: slot_ok_def)
    show "d_sync_gen z \<le> sync_generation d \<and> (\<not> syncing d \<longrightarrow> d_sync_gen z < sync_generation d)"
      using z m assms(1) by (auto simp: core_ok_def sync_ok_def)
  qed
  then show ?thesis
    using c p assms(1) by (simp add: core_ok_def slots_ok_def sync_ok_def)
qed

text \<open>NNG completes a send before the message reaches the wire, so before any reply to it.\<close>

definition reply_after_send :: "int \<Rightarrow> dispatcher \<Rightarrow> bool" where
  "reply_after_send pipe d \<longleftrightarrow>
     (\<forall>x \<in> set (daemons d). d_pipe x = pipe \<longrightarrow> \<not> s_busy (the (senders d (d_ds x))))"

lemma inv_daemon_recv:
  assumes "core_ok d" "work_ok d" "reply_after_send pipe d"
  shows "core_ok (dispatch_handle_daemon_recv ok pipe msg d)"
    and "work_ok (dispatch_handle_daemon_recv ok pipe msg d)"
proof -
  note same = core_same [OF same_emit(1)] core_same [OF same_reply] core_same [OF same_signal]
    work_same [OF same_slotsD(1) [OF same_emit(1)]] work_same [OF same_slotsD(1) [OF same_reply]]
    work_same [OF same_slotsD(1) [OF same_signal]]
  have "core_ok (dispatch_handle_daemon_recv ok pipe msg d) \<and> work_ok (dispatch_handle_daemon_recv ok pipe msg d)"
  proof (cases "dispatch_find_daemon d pipe")
    case None
    with assms show ?thesis by (simp add: dispatch_handle_daemon_recv_def Let_def same)
  next
    case (Some i)
    note i = find_daemon_Some [OF Some]
    let ?m = "dispatch_remove_daemon i (d\<lparr>executing := executing d - 1\<rparr>)"
    have b: "minus_busy i d = d\<lparr>executing := executing d - 1\<rparr>" if "d_state (daemons d ! i) = DAEMON_BUSY"
      using that by (simp add: minus_busy_def)
    show ?thesis
    proof (cases "\<not> stopped d \<and> d_state (daemons d ! i) = DAEMON_BUSY")
      case False
      then have "dispatch_handle_daemon_recv ok pipe msg d = emit [DaemonRecv] (emit [MsgFree msg] d)"
        using Some by (simp only: dispatch_handle_daemon_recv_def Let_def option.case if_False)
      with assms show ?thesis by (simp add: same)
    next
      case True
      then have mb: "minus_busy i d = d\<lparr>executing := executing d - 1\<rparr>" using b by simp
      have "\<not> s_busy (the (senders d (d_ds (daemons d ! i))))"
        using assms(3) i by (auto simp: reply_after_send_def)
      then have "core_ok (set_daemon i ((daemons d ! i)\<lparr>d_state := DAEMON_IDLE, d_msgid := 0\<rparr>)
           (d\<lparr>executing := executing d - 1\<rparr>))"
        using core_reply_idle [OF assms(1)] i True by blast
      then show ?thesis
        using Some True core_remove [OF assms(1), of i] work_remove [OF assms(2), of i] i mb
        by (cases "snd (dispatch_read_msg_info msg)")
          (simp_all add: dispatch_handle_daemon_recv_def Let_def same core_drain work_drain)
    qed
  qed
  then show "core_ok (dispatch_handle_daemon_recv ok pipe msg d)"
    "work_ok (dispatch_handle_daemon_recv ok pipe msg d)" by auto
qed

lemma inv_cancel_inq:
  assumes "core_ok d" "work_ok d"
  shows "core_ok (snd (dispatch_cancel_inq tid d))" and "work_ok (snd (dispatch_cancel_inq tid d))"
proof -
  have "core_ok (snd (dispatch_cancel_inq tid d)) \<and> work_ok (snd (dispatch_cancel_inq tid d))"
  proof (cases "find_idx (\<lambda>q. q_msgid q = tid) (inq d)")
    case None
    with assms show ?thesis by (simp add: dispatch_cancel_inq_def)
  next
    case (Some k)
    then have k: "k < length (inq d)" by (auto dest: find_idx_Some)
    let ?qs = "take k (inq d) @ drop (Suc k) (inq d)" and ?l = "length (q_msg (inq d ! k))"
    let ?s = "sum_list (map (\<lambda>q. length (q_msg q)) ?qs)"
    let ?d = "d\<lparr>inq := ?qs, inq_count := inq_count d - 1, queued_bytes := queued_bytes d - of_nat ?l\<rparr>"
    have b: "?s + ?l < 2 ^ 64" "queued_bytes d = of_nat (?s + ?l)" "queued_bytes d \<le> peak_queued_bytes d"
      using assms(1) sum_list_remove_nth [OF k, of "\<lambda>q. length (q_msg q)"] by (auto simp: core_defs)
    have "(of_nat ?s :: u64) \<le> of_nat (?s + ?l)"
      using b(1) by (simp add: word_le_nat_alt unat_of_nat del: map_append sum_list_append flip: of_nat_add)
    with b have q: "queued_bytes d - of_nat ?l = of_nat ?s" "(of_nat ?s :: u64) \<le> peak_queued_bytes d"
      by (auto simp del: map_append sum_list_append)
    have "counters_ok ?d"
      using assms(1) q b(1) k unfolding core_ok_def counters_ok_def queue_bytes_def by auto
    moreover have "slots_ok ?d" "sync_ok ?d"
      using assms(1) by (auto simp: core_ok_def slots_ok_def sync_ok_def slot_ok_def)
    moreover have "work_ok ?d"
      using assms(2) k by (auto simp: work_ok_def dispatch_find_idle_daemon_def)
    ultimately show ?thesis
      by (simp add: dispatch_cancel_inq_def Some Let_def core_ok_def [symmetric]
          core_same [OF same_emit(1)] core_same [OF same_emit(2)]
          work_same [OF same_slotsD(1) [OF same_emit(1)]] work_same [OF same_slotsD(1) [OF same_emit(2)]])
        (simp add: core_ok_def)
  qed
  then show "core_ok (snd (dispatch_cancel_inq tid d))" "work_ok (snd (dispatch_cancel_inq tid d))" by auto
qed

lemma inv_cancel:
  assumes "core_ok d" "work_ok d"
  shows "core_ok (snd (dispatch_cancel_direct m n tid d))" and "work_ok (snd (dispatch_cancel_direct m n tid d))"
  using assms inv_cancel_inq
  by (auto simp: dispatch_cancel_direct_def core_same [OF same_signal]
      work_same [OF same_slotsD(1) [OF same_signal]] split: option.splits)

lemma inv_stop:
  "core_ok d \<Longrightarrow> core_ok (dispatcher_handle_stop d)" "work_ok (dispatcher_handle_stop d)"
  "core_ok d \<Longrightarrow> core_ok (host_reopen r d)" "work_ok d \<Longrightarrow> work_ok (host_reopen r d)"
proof -
  show "core_ok d \<Longrightarrow> core_ok (dispatcher_handle_stop d)"
    by (auto simp: dispatcher_handle_stop_def core_same [OF same_emit(1)]) (auto simp: core_defs)
  show "core_ok d \<Longrightarrow> core_ok (host_reopen r d)"
    by (cases r) (auto simp: host_reopen_def core_same [OF same_emit(1)], (auto simp: core_defs)+)
  show "work_ok (dispatcher_handle_stop d)" by (simp add: dispatcher_handle_stop_def work_ok_def)
  show "work_ok d \<Longrightarrow> work_ok (host_reopen r d)"
    by (cases r) (auto simp: host_reopen_def work_ok_def dispatch_find_idle_daemon_def)
qed

end
