(* ===== verification/DispSteps.thy ===== *)
theory DispSteps
  imports DispCore
begin

text \<open>
  The dispatcher as a state machine: every interleaving of its callbacks, one step per section
  run under the mutex, together with what NNG does in between (a send completes, a pipe appears
  or goes). \<open>held\<close> are the contexts a disconnect callback carries between its two locked
  sections, \<open>phase\<close> says who owns \<open>host_ctx\<close>, and \<open>opened\<close> lists every context ever opened.
\<close>

datatype host_phase = Receiving | Reopening | Lost

record conf =
  disp :: dispatcher
  held :: "(nat \<times> bool) list"
  phase :: host_phase
  opened :: "nat list"

definition task_done :: "bool \<Rightarrow> nat \<Rightarrow> dsend \<Rightarrow> dispatcher \<Rightarrow> dispatcher" where
  "task_done sent ds s d =
     set_sender ds (s\<lparr>s_busy := False, s_msg := (if sent then None else s_msg s)\<rparr>) d"

definition reply_done :: "bool \<Rightarrow> nat \<Rightarrow> dispatcher \<Rightarrow> dispatcher" where
  "reply_done sent i d =
     d\<lparr>reply_active := (reply_active d)[i := (reply_active d ! i)
         \<lparr>r_busy := False, r_msg := (if sent then None else r_msg (reply_active d ! i))\<rparr>]\<rparr>"

text \<open>
  The assumptions on NNG are the premises: a new pipe has an id no connected pipe has, a new
  context and a new sender are fresh, callbacks fire for operations in flight, a reply from a
  pipe comes after its task send completed, and the messages queued at one time fit in the
  address space.
\<close>

inductive dstep :: "conf \<Rightarrow> conf \<Rightarrow> bool" where
  Connect: "pipe \<notin> d_pipe ` set (daemons (disp c)) \<Longrightarrow> ds \<notin> dom (senders (disp c)) \<Longrightarrow>
    dstep c (c\<lparr>disp := dispatch_handle_connect ok ds pipe (disp c)\<rparr>)"
| Init_done: "senders (disp c) ds = Some s \<Longrightarrow> s_sending s \<Longrightarrow>
    dstep c (c\<lparr>disp := dispatch_init_cb sent ds (disp c)\<rparr>)"
| Task_done: "senders (disp c) ds = Some s \<Longrightarrow> s_busy s \<Longrightarrow>
    dstep c (c\<lparr>disp := task_done sent ds s (disp c)\<rparr>)"
| Reply_done: "i < length (reply_active (disp c)) \<Longrightarrow>
    dstep c (c\<lparr>disp := reply_done sent i (disp c)\<rparr>)"
| Host_recv: "phase c = Receiving \<Longrightarrow> queue_bytes (disp c) + length msg < 2 ^ 64 \<Longrightarrow>
    dstep c (c\<lparr>disp := host_recv_locked msg (disp c),
               phase := (if stopped (disp c) then Receiving else Reopening)\<rparr>)"
| Reopen: "phase c = Reopening \<Longrightarrow> ctx \<notin> set (opened c) \<Longrightarrow>
    dstep c (c\<lparr>disp := host_reopen (Some ctx) (disp c), phase := Receiving, opened := ctx # opened c\<rparr>)"
| Reopen_fail: "phase c = Reopening \<Longrightarrow>
    dstep c (c\<lparr>disp := host_reopen None (disp c), phase := Lost\<rparr>)"
| Daemon_recv: "reply_after_send pipe (disp c) \<Longrightarrow>
    dstep c (c\<lparr>disp := dispatch_handle_daemon_recv rok pipe msg (disp c)\<rparr>)"
| Disconnect: "disconnect_locked pipe (disp c) = Some (r, d') \<Longrightarrow>
    dstep c (c\<lparr>disp := d', held := (case r of None \<Rightarrow> held c | Some h \<Rightarrow> h # held c)\<rparr>)"
| Disconnect_reply: "held c = hs1 @ (ctx, st) # hs2 \<Longrightarrow>
    dstep c (c\<lparr>disp := disconnect_reply m k ctx st (disp c), held := hs1 @ hs2\<rparr>)"
| Reap: "dstep c (c\<lparr>disp := dispatch_reap_retired (disp c)\<rparr>)"
| Cancel: "dstep c (c\<lparr>disp := snd (dispatch_cancel_direct m k tid (disp c))\<rparr>)"
| Signal_done: "sig_active (disp c) \<Longrightarrow>
    dstep c (c\<lparr>disp := dispatch_sig_cb sent (disp c)\<rparr>)"
| Stop: "dstep c (c\<lparr>disp := dispatcher_handle_stop (disp c)\<rparr>)"

inductive_cases dstep_cases: "dstep c c'"

inductive dreach :: "conf \<Rightarrow> conf \<Rightarrow> bool" for c0 where
  dreach_refl: "dreach c0 c0"
| dreach_step: "dreach c0 c \<Longrightarrow> dstep c c' \<Longrightarrow> dreach c0 c'"

definition conf_start :: "dispatcher \<Rightarrow> conf" where
  "conf_start d = \<lparr>disp = d, held = [], phase = Receiving, opened = [host_ctx d]\<rparr>"

section \<open>The invariant\<close>

definition host_owned :: "conf \<Rightarrow> nat multiset" where
  "host_owned c = (if phase c = Receiving then {# host_ctx (disp c) #} else {#})"

definition ctx_ok :: "conf \<Rightarrow> bool" where
  "ctx_ok c \<longleftrightarrow> distinct (opened c) \<and>
     mset (opened c) = host_owned c + mset (map fst (held c)) + ctx_total (disp c)"

definition conf_ok :: "conf \<Rightarrow> bool" where
  "conf_ok c \<longleftrightarrow> core_ok (disp c) \<and> work_ok (disp c) \<and> ctx_ok c"

lemma ctx_task_done [simp]: "ctx_total (task_done sent ds s d) = ctx_total d"
  by (simp add: task_done_def)

lemma ctx_reply_done [simp]: "i < length (reply_active d) \<Longrightarrow> ctx_total (reply_done sent i d) = ctx_total d"
proof -
  assume "i < length (reply_active d)"
  then have "map (\<lambda>r. {# r_ctx r #}) ((reply_active d)[i := (reply_active d ! i)\<lparr>r_busy := b, r_msg := m\<rparr>])
      = map (\<lambda>r. {# r_ctx r #}) (reply_active d)" for b m
    by (simp add: map_update list_update_same_conv)
  then show ?thesis by (simp only: reply_done_def ctx_total_def) simp
qed

text \<open>\<open>host_ctx\<close> changes only where it is reopened.\<close>

lemma same_host: "same_core d' d \<Longrightarrow> host_ctx d' = host_ctx d"
  by (simp add: same_coreD)

lemma host_drain [simp]: "host_ctx (dispatch_drain_locked d) = host_ctx d"
proof -
  have "host_ctx (snd (drain_loop False d)) = host_ctx d"
    by (rule drain_loop_induct [where P = "\<lambda>x. host_ctx x = host_ctx d"]) (auto dest: find_idle_Some)
  then show ?thesis by (cases "drain_loop False d") (simp add: dispatch_drain_locked_def)
qed

lemma host_insert: "dispatch_insert_daemon r p ds d = Some d' \<Longrightarrow> host_ctx d' = host_ctx d"
  by (auto simp: dispatch_insert_daemon_def Let_def split: if_splits)

lemma host_connect [simp]: "host_ctx (dispatch_handle_connect ok ds pipe d) = host_ctx d"
  using same_host [OF same_reap] host_insert
  by (fastforce simp: dispatch_handle_connect_def connect_fail_def Let_def split: option.splits)

lemma host_init_cb [simp]: "host_ctx (dispatch_init_cb sent ds d) = host_ctx d"
  by (auto simp: dispatch_init_cb_def Let_def split: option.splits)

lemma host_daemon_recv [simp]: "host_ctx (dispatch_handle_daemon_recv ok pipe msg d) = host_ctx d"
  using same_host [OF same_slotsD(1) [OF same_reply]] same_host [OF same_slotsD(1) [OF same_signal]]
  by (simp add: dispatch_handle_daemon_recv_def Let_def split: option.splits)

lemma host_disconnect: "disconnect_locked pipe d = Some (r, d') \<Longrightarrow> host_ctx d' = host_ctx d"
  by (auto simp: disconnect_locked_def Let_def split: option.splits)

lemma host_cancel [simp]: "host_ctx (snd (dispatch_cancel_direct m k tid d)) = host_ctx d"
  using same_host [OF same_slotsD(1) [OF same_signal]]
  by (simp add: dispatch_cancel_direct_def dispatch_cancel_inq_def Let_def split: option.splits)

lemma host_others [simp]:
  "host_ctx (dispatch_reap_retired d) = host_ctx d" "host_ctx (disconnect_reply m k ctx st d) = host_ctx d"
  "host_ctx (dispatch_sig_cb sent d) = host_ctx d" "host_ctx (task_done sent ds s d) = host_ctx d"
  "host_ctx (reply_done sent i d) = host_ctx d" "host_ctx (dispatcher_handle_stop d) = host_ctx d"
  using same_host [OF same_reap] same_host [OF same_slotsD(1) [OF same_disconnect_reply]]
    same_host [OF same_slotsD(1) [OF same_sig_cb]]
  by (simp_all add: task_done_def reply_done_def dispatcher_handle_stop_def)

lemma host_recv_stopped: "stopped d \<Longrightarrow> host_ctx (host_recv_locked msg d) = host_ctx d"
  by (simp add: host_recv_locked_def split: prod.splits)

lemma ctx_ok_frame:
  "ctx_ok c \<Longrightarrow> ctx_total d' = ctx_total (disp c) \<Longrightarrow> host_ctx d' = host_ctx (disp c) \<Longrightarrow> ctx_ok (c\<lparr>disp := d'\<rparr>)"
  by (simp add: ctx_ok_def host_owned_def)

lemma reply_done_same: "same_slots (reply_done sent i d) d"
  by (simp add: reply_done_def same_slots_def same_core_def)

lemma task_done_inv:
  assumes "core_ok d" "work_ok d" "senders d ds = Some s"
  shows "core_ok (task_done sent ds s d)" "work_ok (task_done sent ds s d)"
proof -
  show "core_ok (task_done sent ds s d)"
    unfolding task_done_def by (rule core_sender_done [OF assms(1,3)]) auto
  show "work_ok (task_done sent ds s d)"
    unfolding task_done_def by (rule work_update [OF assms(2)]) auto
qed

lemma dstep_inv:
  assumes "dstep c c'" "conf_ok c"
  shows "core_ok (disp c') \<and> work_ok (disp c')"
  using assms
proof (induction rule: dstep.induct)
  case (Init_done c ds s sent)
  then show ?case using inv_init_cb [of "disp c"] by (simp add: conf_ok_def)
next
  case (Disconnect pipe c r d')
  then show ?case using inv_disconnect [of "disp c"] by (simp add: conf_ok_def)
qed (simp_all add: conf_ok_def core_connect work_connect task_done_inv inv_host_recv inv_stop
      inv_daemon_recv inv_cancel core_reap work_same [OF same_reap] core_same [OF reply_done_same]
      work_same [OF same_slotsD(1) [OF reply_done_same]] core_same [OF same_sig_cb]
      work_same [OF same_slotsD(1) [OF same_sig_cb]] core_same [OF same_disconnect_reply]
      work_same [OF same_slotsD(1) [OF same_disconnect_reply]])

lemma dstep_ctx:
  assumes "dstep c c'" "ctx_ok c"
  shows "ctx_ok c'"
  using assms
proof (induction rule: dstep.induct)
  case (Host_recv c msg)
  then show ?case
    using ctx_host_recv [of "disp c" msg] host_recv_stopped [of "disp c" msg]
    by (simp add: ctx_ok_def host_owned_def)
next
  case (Reopen c ctx)
  then show ?case by (simp add: ctx_ok_def host_owned_def) (simp add: host_reopen_def)
next
  case (Reopen_fail c)
  then show ?case by (simp add: ctx_ok_def host_owned_def)
next
  case (Disconnect pipe c r d')
  then show ?case
    using ctx_disconnect [OF Disconnect(1)] host_disconnect [OF Disconnect(1)]
    by (auto simp: ctx_ok_def host_owned_def held_ctx_def ac_simps split: option.splits prod.splits)
next
  case (Disconnect_reply c hs1 ctx st hs2 m k)
  then show ?case by (simp add: ctx_ok_def host_owned_def ctx_disconnect_reply ac_simps)
qed (auto intro: ctx_ok_frame)

lemma dreach_inv:
  assumes "dreach c0 c" "conf_ok c0"
  shows "conf_ok c"
  using assms by (induction rule: dreach.induct) (auto simp: conf_ok_def dest: dstep_inv dstep_ctx)

lemma start_ok:
  assumes "rnng_dispatcher_start capacity reset ser stream ctx = Some d"
  shows "conf_ok (conf_start d)"
proof -
  have d: "inq d = []" "daemons d = []" "reply_active d = []" "retired d = []" "\<not> blocked d"
    "senders d = (\<lambda>_. None)" "calls d = HostRecv ctx # replicate DISPATCH_RECV_POOL DaemonRecv"
    "inq_count d = 0" "outq_count d = 0" "executing d = 0" "d_count d = 0" "outq_capacity d = 16"
    "queued_bytes d = 0"
    using assms by (auto simp: rnng_dispatcher_start_def dispatch_prepare_init_template_def Let_def
        dispatcher_calloc_def DISPATCH_INITIAL_SIZE_def split: option.splits)
  show ?thesis
    by (simp add: conf_ok_def conf_start_def core_defs work_ok_def ctx_ok_def host_owned_def ctx_total_def d)
qed

end
