(* ===== verification/DispProps.thy ===== *)
theory DispProps
  imports DispSteps
begin

text \<open>The properties of the dispatcher, over every interleaving that \<open>DispSteps\<close> allows.\<close>

section \<open>The init message\<close>

lemma find_sentinel_at:
  assumes "\<forall>i < length pre. take 24 (drop i (pre @ sentinel @ post)) \<noteq> sentinel"
  shows "find_sentinel (pre @ sentinel @ post) = Some (length pre)"
proof -
  have l: "length sentinel = 24" by (simp add: sentinel_def)
  show ?thesis
    unfolding find_sentinel_def
    by (rule find_idx_upt) (use assms l in auto)
qed

lemma sentinel_bytes: "concat (map i32_bytes (replicate 6 sentinel_val)) = sentinel"
proof -
  have "i32_bytes sentinel_val = [0x7F, 0x7F, 0x7F, 0x7F]"
    by (simp add: i32_bytes_def sentinel_val_def to_le_numeral)
  then show ?thesis by (simp add: sentinel_def replicate_numeral)
qed

lemma length_seed_bytes: "length (concat (map i32_bytes v)) = 4 * length v"
  by (rule length_concat_map) simp

text \<open>
  C36: patching the seed into the serialized template is the same as serializing again. Where R's
  serialization puts the six seed words of the stream as 24 consecutive bytes and the sentinel
  pattern does not occur before them, start succeeds and the init message sent to a daemon is
  the serialization of the init data with that daemon's own seed in it.
\<close>

theorem init_message_is_serialization:
  assumes "\<forall>v. length v = 6 \<longrightarrow> ser v = pre @ concat (map i32_bytes v) @ post"
    "\<forall>i < length pre. take 24 (drop i (pre @ sentinel @ post)) \<noteq> sentinel"
    "length seed = 6"
  shows "\<exists>d. rnng_dispatcher_start capacity reset ser stream ctx = Some d
     \<and> rng_seed d = take 6 (drop 1 stream) \<and> init_message d seed = ser seed"
proof -
  have b: "ser (replicate 6 sentinel_val) = pre @ sentinel @ post"
    using assms(1) sentinel_bytes by simp
  have "put_at (length pre) (concat (map i32_bytes seed)) (pre @ sentinel @ post) = ser seed"
    using assms(1,3) length_seed_bytes [of seed] by (simp add: put_at_def sentinel_def)
  then show ?thesis
    using find_sentinel_at [OF assms(2)]
    by (simp add: rnng_dispatcher_start_def dispatch_prepare_init_template_def b Let_def init_message_def)
qed

text \<open>A small serialization used by the witnesses.\<close>

definition demo_ser :: "i32 list \<Rightarrow> byte list" where
  "demo_ser seed = 0x42 # concat (map i32_bytes seed) @ [9]"

lemma demo_ser_ok: "\<forall>i < length [0x42 :: byte]. take 24 (drop i ([0x42] @ sentinel @ [9])) \<noteq> sentinel"
  by (simp add: sentinel_def replicate_numeral)

theorem init_message_is_serialization_witness:
  "\<exists>d. rnng_dispatcher_start (Some 2) [] demo_ser [10407, 1, 2, 3, 4, 5, 6] 7 = Some d
     \<and> rng_seed d = [1, 2, 3, 4, 5, 6] \<and> init_message d [9, 8, 7, 6, 5, 4] = demo_ser [9, 8, 7, 6, 5, 4]"
  using init_message_is_serialization
    [of demo_ser "[0x42]" "[9]" "[9, 8, 7, 6, 5, 4]" "Some 2" "[]" "[10407, 1, 2, 3, 4, 5, 6]" 7, OF _ demo_ser_ok]
  by (simp add: demo_ser_def)

section \<open>Contexts\<close>


text \<open>A small run used by the witnesses: one request arrives while no daemon is connected.\<close>

lemma demo_sentinel: "find_sentinel (demo_ser (replicate 6 sentinel_val)) = Some 1"
  using find_sentinel_at [OF demo_ser_ok] unfolding demo_ser_def sentinel_bytes by simp

definition demo_start :: dispatcher where
  "demo_start = the (rnng_dispatcher_start None [1, 2] demo_ser [10407, 1, 2, 3, 4, 5, 6] 0)"

lemma demo_start: "rnng_dispatcher_start None [1, 2] demo_ser [10407, 1, 2, 3, 4, 5, 6] 0 = Some demo_start"
  by (simp add: demo_start_def rnng_dispatcher_start_def dispatch_prepare_init_template_def demo_sentinel Let_def)

lemma demo_start_sel:
  "daemons demo_start = []" "inq demo_start = []" "stopped demo_start = False" "host_ctx demo_start = 0"
  "senders demo_start = (\<lambda>_. None)" "syncing demo_start = False" "limit_bytes demo_start = 0"
  "outq_capacity demo_start = 16" "sync_generation demo_start = 0" "retired demo_start = []"
  "reply_active demo_start = []" "rng_seed demo_start = [1, 2, 3, 4, 5, 6]"
  by (simp_all add: demo_start_def rnng_dispatcher_start_def dispatch_prepare_init_template_def demo_sentinel
      Let_def dispatcher_calloc_def dispatcher_limit_def DISPATCH_INITIAL_SIZE_def)

definition demo_msg :: "byte list" where "demo_msg = [0x07, 0, 0, 0, 80, 0, 0, 0, 0, 0, 0, 0, 0]"

lemma demo_msg_length: "length demo_msg = 13"
  by (simp add: demo_msg_def)

lemma demo_msg_info: "dispatch_read_msg_info demo_msg = (80, False)"
  by (simp add: dispatch_read_msg_info_def demo_msg_def bytes_i32_def)

definition demo_conf1 :: conf where
  "demo_conf1 = (conf_start demo_start)\<lparr>disp := host_recv_locked demo_msg demo_start, phase := Reopening\<rparr>"

definition demo_conf2 :: conf where
  "demo_conf2 = demo_conf1\<lparr>disp := host_reopen (Some 1) (disp demo_conf1), phase := Receiving, opened := [1, 0]\<rparr>"

lemma demo_disp1: "disp demo_conf1 = dispatch_enqueue 0 demo_msg 80 False (demo_start\<lparr>d_count := d_count demo_start + 1\<rparr>)"
  by (simp add: demo_conf1_def host_recv_locked_def demo_msg_info dispatch_find_idle_daemon_def demo_start_sel)

lemma demo_reach: "dreach (conf_start demo_start) demo_conf2"
proof -
  have 1: "dstep (conf_start demo_start) demo_conf1"
    using dstep.Host_recv [of "conf_start demo_start" demo_msg]
    by (simp add: demo_conf1_def conf_start_def demo_start_sel queue_bytes_def demo_msg_def)
  have 2: "dstep demo_conf1 demo_conf2"
    using dstep.Reopen [of demo_conf1 1]
    by (simp add: demo_conf2_def) (simp add: demo_conf1_def conf_start_def demo_start_sel)
  show ?thesis by (rule dreach_step [OF dreach_step [OF dreach_refl 1] 2])
qed

lemma demo_conf2_sel:
  "phase demo_conf2 = Receiving" "held demo_conf2 = []" "opened demo_conf2 = [1, 0]"
  "stopped (disp demo_conf2) = False" "host_ctx (disp demo_conf2) = 1" "daemons (disp demo_conf2) = []"
  "inq (disp demo_conf2) = [\<lparr>q_msg = demo_msg, q_ctx = 0, q_msgid = 80, q_is_sync = False\<rparr>]"
  by (simp_all add: demo_conf2_def demo_disp1 host_reopen_def dispatch_enqueue_def Let_def demo_start_sel)
    (simp_all add: demo_conf1_def conf_start_def)


section \<open>Scheduling\<close>

text \<open>
  C2: no request ever waits for a daemon that could take it. In every reachable state of a
  dispatcher that has not been stopped, if a request is queued then every connected daemon is
  still being initialised, or busy, or has already run in the synchronised broadcast under way.
\<close>

theorem dispatcher_work_conserving:
  assumes "rnng_dispatcher_start capacity reset ser stream ctx = Some d0"
    "dreach (conf_start d0) c" "\<not> stopped (disp c)" "inq (disp c) \<noteq> []" "x \<in> set (daemons (disp c))"
  shows "d_state x = DAEMON_IDLE \<longrightarrow> syncing (disp c) \<and> d_sync_gen x = sync_generation (disp c)"
proof -
  have "conf_ok c" using dreach_inv [OF assms(2)] start_ok [OF assms(1)] by blast
  with assms(3-5) show ?thesis
    by (auto simp: conf_ok_def work_ok_def dispatch_find_idle_daemon_def find_idx_None_iff)
qed

text \<open>A run that connects a daemon while a request is queued, for the witnesses.\<close>

definition demo_ok :: connect_ok where
  "demo_ok = \<lparr>c_msg = True, c_dsend = True, c_aio = True, c_realloc = True\<rparr>"

definition demo_conf3 :: conf where
  "demo_conf3 = demo_conf2\<lparr>disp := dispatch_handle_connect demo_ok 900 5 (disp demo_conf2)\<rparr>"

lemma demo_conf2_senders:
  "senders (disp demo_conf2) = (\<lambda>_. None)" "retired (disp demo_conf2) = []"
  "outq_capacity (disp demo_conf2) = 16" "sync_generation (disp demo_conf2) = 0"
  by (simp_all add: demo_conf2_def demo_disp1 host_reopen_def dispatch_enqueue_def Let_def demo_start_sel)

lemma demo_reach3: "dreach (conf_start demo_start) demo_conf3"
proof -
  have "dstep demo_conf2 demo_conf3"
    unfolding demo_conf3_def by (rule dstep.Connect) (simp_all add: demo_conf2_sel demo_conf2_senders)
  then show ?thesis by (rule dreach_step [OF demo_reach])
qed

lemma demo_conf3_sel:
  "daemons (disp demo_conf3) = [\<lparr>d_pipe = 5, d_state = DAEMON_INIT, d_msgid = 0, d_sync_gen = - 1,
      d_ctx = 0, d_ds = 900\<rparr>]"
  "inq (disp demo_conf3) = [\<lparr>q_msg = demo_msg, q_ctx = 0, q_msgid = 80, q_is_sync = False\<rparr>]"
  "stopped (disp demo_conf3) = False"
  by (simp_all add: demo_conf3_def dispatch_handle_connect_def Let_def demo_ok_def dispatch_insert_daemon_def
      dispatch_reap_retired_def demo_conf2_sel demo_conf2_senders)

theorem dispatcher_work_conserving_witness:
  "\<not> (d_state (hd (daemons (disp demo_conf3))) = DAEMON_IDLE \<and> \<not> syncing (disp demo_conf3))"
  using dispatcher_work_conserving [OF demo_start demo_reach3, of "hd (daemons (disp demo_conf3))"]
  by (simp add: demo_conf3_sel)



text \<open>
  C5: the precondition the code states for \<open>dispatch_start_send\<close> holds in every interleaving. The
  wait on a task aio is never reached with a send in flight, each connected daemon has its own
  live sender, bound to its pipe, and only a busy daemon has a task send in flight: at most one
  per pipe.
\<close>

theorem task_sends_never_wait:
  assumes "rnng_dispatcher_start capacity reset ser stream ctx = Some d0" "dreach (conf_start d0) c"
  shows "\<not> blocked (disp c) \<and> distinct (map d_pipe (daemons (disp c)))
    \<and> distinct (map d_ds (daemons (disp c)) @ retired (disp c))
    \<and> (\<forall>x \<in> set (daemons (disp c)). slot_ok (disp c) x)"
  using dreach_inv [OF assms(2)] start_ok [OF assms(1)] by (simp add: conf_ok_def core_ok_def slots_ok_def)

theorem task_sends_never_wait_witness:
  "\<not> blocked (disp demo_conf3) \<and> slot_ok (disp demo_conf3) (hd (daemons (disp demo_conf3)))"
  using task_sends_never_wait [OF demo_start demo_reach3] by (simp add: demo_conf3_sel)

fun task_msgs :: "dcall list \<Rightarrow> byte list list" where
  "task_msgs [] = []"
| "task_msgs (TaskSend p q m # cs) = m # task_msgs cs"
| "task_msgs (c # cs) = task_msgs cs"

lemma task_msgs_append [simp]: "task_msgs (xs @ ys) = task_msgs xs @ task_msgs ys"
  by (induction xs rule: task_msgs.induct) auto

lemma task_msgs_stale [simp]: "task_msgs (stale_free m) = []"
  by (cases m) (simp_all add: stale_free_def)

text \<open>
  C18: draining hands out a prefix of the queue, in arrival order, one task send per request,
  and stops only when the queue is empty or no daemon can take more.
\<close>

theorem drain_fifo:
  "\<exists>pre. inq d = pre @ inq (dispatch_drain_locked d)
     \<and> task_msgs (calls (dispatch_drain_locked d)) = task_msgs (calls d) @ map q_msg pre
     \<and> executing (dispatch_drain_locked d) = executing d + int (length pre)
     \<and> (inq (dispatch_drain_locked d) = [] \<or> dispatch_find_idle_daemon (dispatch_drain_locked d) = None)"
proof -
  let ?P = "\<lambda>e. \<exists>pre. inq d = pre @ inq e \<and> task_msgs (calls e) = task_msgs (calls d) @ map q_msg pre
                 \<and> executing e = executing d + int (length pre)"
  have "?P (snd (drain_loop False d))"
  proof (rule drain_loop_induct [where P = ?P])
    fix e i assume e: "?P e" "inq e \<noteq> []" "dispatch_find_idle_daemon e = Some i"
    then obtain pre where pre: "inq d = pre @ inq e" "task_msgs (calls e) = task_msgs (calls d) @ map q_msg pre"
      "executing e = executing d + int (length pre)" by blast
    have i: "i < length (daemons e)" using find_idle_Some [OF e(3)] by simp
    show "?P (dispatch_dequeue i e)"
      by (rule exI [of _ "pre @ [hd (inq e)]"]) (use pre e(2) i in \<open>simp add: dequeue_send\<close>)
  qed simp
  moreover obtain b e where de: "drain_loop False d = (b, e)" by fastforce
  moreover have "inq e = [] \<or> dispatch_find_idle_daemon e = None"
    using drain_loop_done [of False d] by (simp add: de)
  ultimately show ?thesis
    by (simp add: dispatch_drain_locked_def same_coreD(16) [OF same_slotsD(1) [OF same_emit(2)]])
qed

section \<open>The broadcast barrier\<close>

text \<open>Every connected daemon has run in the broadcast under way.\<close>

definition all_synced :: "dispatcher \<Rightarrow> bool" where
  "all_synced d \<longleftrightarrow> syncing d \<and> (\<forall>x \<in> set (daemons d). d_sync_gen x = sync_generation d)"

lemma synced_no_idle: "all_synced d \<Longrightarrow> dispatch_find_idle_daemon d = None"
  by (simp add: all_synced_def dispatch_find_idle_daemon_def find_idx_None_iff)

lemma drain_none: "dispatch_find_idle_daemon d = None \<Longrightarrow> dispatch_drain_locked d = d"
  by (simp add: dispatch_drain_locked_def drain_loop.simps [of False d] wake_if_def)

lemma synced_same: "same_core d' d \<Longrightarrow> all_synced d' = all_synced d"
  by (simp add: all_synced_def same_coreD)

lemma task_msgs_harvest: "harvest rs = (act, cs, n) \<Longrightarrow> task_msgs cs = []"
  by (induction rs arbitrary: act cs n) (auto split: prod.splits if_splits)

lemma task_msgs_others [simp]:
  "task_msgs (calls (dispatch_reply_send_locked ok ctx msg d)) = task_msgs (calls d)"
  "task_msgs (calls (disconnect_reply m ok ctx st d)) = task_msgs (calls d)"
  "task_msgs (calls (dispatch_queue_signal m n pipe d)) = task_msgs (calls d)"
  "task_msgs (calls (dispatch_sig_cb sent d)) = task_msgs (calls d)"
  "task_msgs (calls (dispatch_reap_retired d)) = task_msgs (calls d)"
  "task_msgs (calls (dispatch_remove_daemon i d)) = task_msgs (calls d)"
proof -
  show r: "task_msgs (calls (dispatch_reply_send_locked ok ctx msg d)) = task_msgs (calls d)" for ok ctx msg d
    by (cases "harvest (reply_active d)")
      (auto simp: dispatch_reply_send_locked_def Let_def dest: task_msgs_harvest)
  show "task_msgs (calls (disconnect_reply m ok ctx st d)) = task_msgs (calls d)"
    by (simp add: disconnect_reply_def dispatch_send_conn_reset_def r)
  show "task_msgs (calls (dispatch_queue_signal m n pipe d)) = task_msgs (calls d)"
    by (simp add: dispatch_queue_signal_def)
  show "task_msgs (calls (dispatch_sig_cb sent d)) = task_msgs (calls d)"
    by (simp add: dispatch_sig_cb_def Let_def split: list.splits)
  have "task_msgs (calls (fold dispatch_dsend_free xs e)) = task_msgs (calls e)" for xs e
    by (induction xs arbitrary: e) (auto simp: dispatch_dsend_free_def)
  then show "task_msgs (calls (dispatch_reap_retired d)) = task_msgs (calls d)"
    by (simp add: dispatch_reap_retired_def)
  show "task_msgs (calls (dispatch_remove_daemon i d)) = task_msgs (calls d)"
    by (simp add: dispatch_remove_daemon_def Let_def)
qed

lemma synced_set_daemon:
  assumes "all_synced d" "i < length (daemons d)" "d_sync_gen x = d_sync_gen (daemons d ! i)"
    "daemons d' = (daemons d)[i := x]" "syncing d' = syncing d" "sync_generation d' = sync_generation d"
  shows "all_synced d'"
proof -
  have "d_sync_gen z = sync_generation d" if "z \<in> set ((daemons d)[i := x])" for z
    using in_set_update [OF that] assms(1-3) by (auto simp: all_synced_def)
  with assms show ?thesis by (auto simp: all_synced_def)
qed

lemma synced_init_cb:
  assumes "all_synced d"
  shows "all_synced (dispatch_init_cb sent ds d)
    \<and> task_msgs (calls (dispatch_init_cb sent ds d)) = task_msgs (calls d)"
proof -
  let ?s = "the (senders d ds)"
  let ?d1 = "set_sender ds (?s\<lparr>s_sending := False\<rparr>) (if sent then d else emit [MsgFree (s_init ?s)] d)"
  let ?e = "\<lambda>i. emit [CvWake] (set_daemon i ((daemons ?d1 ! i)\<lparr>d_state := DAEMON_IDLE\<rparr>)
      (?d1\<lparr>connections := connections ?d1 + 1, outq_count := outq_count ?d1 + 1\<rparr>))"
  have 1: "all_synced ?d1" "task_msgs (calls ?d1) = task_msgs (calls d)" using assms by (auto simp: all_synced_def)
  have 2: "all_synced (?e i)" if "dispatch_find_daemon ?d1 (s_pipe ?s) = Some i" for i
  proof (rule synced_set_daemon [OF 1(1), of i])
    show "i < length (daemons ?d1)" using find_daemon_Some [OF that] by simp
  qed simp_all
  have 3: "dispatch_drain_locked (?e i) = ?e i" if "dispatch_find_daemon ?d1 (s_pipe ?s) = Some i" for i
    using drain_none [OF synced_no_idle [OF 2 [OF that]]] .
  have 4: "task_msgs (calls (?e i)) = task_msgs (calls d)" for i using 1(2) by simp
  show ?thesis
  proof (cases "dispatch_find_daemon ?d1 (s_pipe ?s)")
    case None
    then show ?thesis using 1 by (simp add: dispatch_init_cb_def Let_def)
  next
    case (Some i)
    then have "dispatch_init_cb sent ds d = ?e i \<or> dispatch_init_cb sent ds d = ?d1"
      unfolding dispatch_init_cb_def Let_def 3 [OF Some] option.case Some by (auto simp only: if_cancel split: if_split)
    then show ?thesis using 1 2 [OF Some] 4 [of i] by (elim disjE) simp_all
  qed
qed

lemma synced_remove:
  "all_synced d \<Longrightarrow> i < length (daemons d) \<Longrightarrow> all_synced (dispatch_remove_daemon i d)"
  using set_pop_swap_subset [of i "daemons d"] by (auto simp: all_synced_def)

lemma synced_daemon_recv:
  assumes "all_synced d"
  shows "all_synced (dispatch_handle_daemon_recv ok pipe msg d)
    \<and> task_msgs (calls (dispatch_handle_daemon_recv ok pipe msg d)) = task_msgs (calls d)"
proof (cases "dispatch_find_daemon d pipe")
  case None
  with assms show ?thesis
    by (simp add: dispatch_handle_daemon_recv_def Let_def) (simp add: all_synced_def)
next
  case (Some i)
  note i = find_daemon_Some [OF Some, THEN conjunct1]
  let ?d1 = "d\<lparr>executing := executing d - 1\<rparr>"
  let ?m = "emit [CvWake] (dispatch_queue_signal (k_sigmsg ok) (k_signode ok) pipe (dispatch_remove_daemon i ?d1))"
  let ?r = "set_daemon i ((daemons d ! i)\<lparr>d_state := DAEMON_IDLE, d_msgid := 0\<rparr>) ?d1"
  have m: "all_synced ?m" "task_msgs (calls ?m) = task_msgs (calls d)"
    using synced_remove [of ?d1 i] assms i
    by (simp_all add: synced_same [OF same_slotsD(1) [OF same_emit(1)]]
        synced_same [OF same_slotsD(1) [OF same_signal]]) (simp add: all_synced_def)
  have r: "all_synced ?r"
    by (rule synced_set_daemon [OF assms i]) simp_all
  then have dr: "dispatch_drain_locked ?r = ?r" by (intro drain_none synced_no_idle)
  have "dispatch_handle_daemon_recv ok pipe msg d = emit [DaemonRecv] (emit [MsgFree msg] d) \<or>
        (\<exists>e \<in> {?m, ?r}. dispatch_handle_daemon_recv ok pipe msg d =
           emit [DaemonRecv] (dispatch_reply_send_locked (k_holder ok) (d_ctx (daemons d ! i)) msg e))"
    unfolding dispatch_handle_daemon_recv_def Let_def Some option.case dr by auto
  moreover have "task_msgs (calls ?r) = task_msgs (calls d)" by simp
  ultimately show ?thesis
    using m r assms
    by (auto simp: synced_same [OF same_slotsD(1) [OF same_emit(1)]]
        synced_same [OF same_slotsD(1) [OF same_reply]])
qed

lemma synced_host_recv:
  assumes "all_synced d"
  shows "all_synced (host_recv_locked msg d) \<and> task_msgs (calls (host_recv_locked msg d)) = task_msgs (calls d)"
proof -
  have "all_synced (d\<lparr>d_count := n\<rparr>)" for n using assms by (simp add: all_synced_def)
  then have "dispatch_find_idle_daemon (d\<lparr>d_count := n\<rparr>) = None" for n by (rule synced_no_idle)
  with assms show ?thesis
    by (auto simp: host_recv_locked_def Let_def all_synced_def dispatch_enqueue_def split: prod.splits)
qed

lemma synced_cancel:
  assumes "all_synced d"
  shows "all_synced (snd (dispatch_cancel_direct m n tid d))
    \<and> task_msgs (calls (snd (dispatch_cancel_direct m n tid d))) = task_msgs (calls d)"
  using assms synced_same [OF same_slotsD(1) [OF same_signal]]
  by (auto simp: dispatch_cancel_direct_def dispatch_cancel_inq_def Let_def all_synced_def split: option.splits)

lemma synced_connect:
  assumes "all_synced d" "length (daemons (dispatch_handle_connect ok ds pipe d)) \<le> length (daemons d)"
  shows "all_synced (dispatch_handle_connect ok ds pipe d)
    \<and> task_msgs (calls (dispatch_handle_connect ok ds pipe d)) = task_msgs (calls d)"
proof -
  let ?d = "dispatch_reap_retired d"
  have r: "daemons ?d = daemons d" "all_synced ?d"
    using assms(1) by (simp_all add: same_coreD [OF same_reap] synced_same [OF same_reap])
  have "dispatch_handle_connect ok ds pipe d = connect_fail ok pipe ?d"
  proof (rule ccontr)
    assume ne: "dispatch_handle_connect ok ds pipe d \<noteq> connect_fail ok pipe ?d"
    then obtain d2 where d2: "dispatch_insert_daemon (c_realloc ok) pipe ds ?d = Some d2"
      "daemons (dispatch_handle_connect ok ds pipe d) = daemons d2"
      by (auto simp: dispatch_handle_connect_def Let_def split: if_splits option.splits)
    then have "length (daemons d2) = Suc (length (daemons d))"
      using r by (auto simp: dispatch_insert_daemon_def Let_def split: if_splits)
    with d2 assms(2) show False by simp
  qed
  then show ?thesis
    using r by (simp add: connect_fail_def synced_same [OF same_slotsD(1) [OF same_emit(1)]])
qed

text \<open>
  C19: the broadcast barrier. Once every connected daemon has been given its task of the
  synchronised broadcast under way, no event other than a new daemon being added gives any
  daemon a task of any kind, and the barrier stays up: the same daemons are all still marked.
\<close>

theorem broadcast_barrier:
  assumes "dstep c c'" "all_synced (disp c)" "length (daemons (disp c')) \<le> length (daemons (disp c))"
  shows "all_synced (disp c') \<and> task_msgs (calls (disp c')) = task_msgs (calls (disp c))"
  using assms
proof (induction rule: dstep.induct)
  case (Disconnect pipe c r d')
  from Disconnect(1) obtain i where i: "i < length (daemons (disp c))"
    "d' = emit [CvWake] (dispatch_remove_daemon i (minus_busy i (disp c)))" by (rule disconnect_state)
  have "all_synced (minus_busy i (disp c))" using Disconnect(2) by (simp add: all_synced_def)
  moreover have "task_msgs (calls (minus_busy i (disp c))) = task_msgs (calls (disp c))"
    by (simp add: minus_busy_def)
  ultimately show ?case
    using i synced_remove by (simp add: synced_same [OF same_slotsD(1) [OF same_emit(1)]])
next
  case (Task_done c ds s sent)
  then show ?case by (simp add: task_done_def all_synced_def)
next
  case (Reply_done i c sent)
  then show ?case
    by (simp add: synced_same [OF same_slotsD(1) [OF reply_done_same]]) (simp add: reply_done_def)
next
  case (Reopen c ctx)
  then show ?case by (simp add: host_reopen_def all_synced_def)
next
  case (Reopen_fail c)
  then show ?case by (simp add: host_reopen_def all_synced_def)
next
  case (Stop c)
  then show ?case by (simp add: dispatcher_handle_stop_def all_synced_def)
qed (simp_all add: synced_connect synced_init_cb synced_host_recv synced_daemon_recv synced_cancel
      synced_same [OF same_reap] synced_same [OF same_slotsD(1) [OF same_disconnect_reply]]
      synced_same [OF same_slotsD(1) [OF same_sig_cb]])

definition demo_synced :: conf where
  "demo_synced = conf_start (demo_start\<lparr>syncing := True, daemons := [\<lparr>d_pipe = 5, d_state = DAEMON_IDLE,
     d_msgid = 0, d_sync_gen = 0, d_ctx = 0, d_ds = 900\<rparr>]\<rparr>)"

theorem broadcast_barrier_witness:
  "all_synced (host_recv_locked demo_msg (disp demo_synced))
   \<and> task_msgs (calls (host_recv_locked demo_msg (disp demo_synced))) = task_msgs (calls (disp demo_synced))"
proof -
  have s: "all_synced (disp demo_synced)" "phase demo_synced = Receiving" "queue_bytes (disp demo_synced) = 0"
    "stopped (disp demo_synced) = False" "dispatch_find_idle_daemon (disp demo_synced) = None"
    by (simp_all add: demo_synced_def conf_start_def all_synced_def demo_start_sel queue_bytes_def
        dispatch_find_idle_daemon_def)
  have st: "dstep demo_synced (demo_synced\<lparr>disp := host_recv_locked demo_msg (disp demo_synced), phase := Reopening\<rparr>)"
    using dstep.Host_recv [of demo_synced demo_msg] s by (simp add: demo_msg_length)
  have l: "length (daemons (host_recv_locked demo_msg (disp demo_synced))) \<le> length (daemons (disp demo_synced))"
    using s by (simp add: host_recv_locked_def demo_msg_info dispatch_find_idle_daemon_def dispatch_enqueue_def Let_def)
  show ?thesis using broadcast_barrier [OF st s(1)] l by simp
qed

section \<open>Losing a daemon, cancelling, waiting\<close>

lemma reply_send_calls:
  "k \<Longrightarrow> \<exists>cs. calls (dispatch_reply_send_locked k ctx msg d) = calls d @ cs @ [ReplySend ctx msg]"
  by (cases "harvest (reply_active d)") (auto simp: dispatch_reply_send_locked_def Let_def)

lemma calls_fold_dsend_extends: "\<exists>cs. calls (fold dispatch_dsend_free xs d) = calls d @ cs"
proof (induction xs arbitrary: d)
  case (Cons x xs)
  from Cons [of "dispatch_dsend_free x d"] show ?case by (auto simp: dispatch_dsend_free_def)
qed simp

lemma calls_reap_extends: "\<exists>cs. calls (dispatch_reap_retired d) = calls d @ cs"
  using calls_fold_dsend_extends [of _ "d\<lparr>retired := x\<rparr>" for x]
  by (simp add: dispatch_reap_retired_def)

text \<open>
  When the pipe of a busy daemon goes while the dispatcher runs and memory is available, the
  request it was working on is answered: the connection-reset message is sent on the request's
  own context, the slot is gone and the counts of busy and of connected daemons are one lower.
\<close>

theorem disconnect_answers_request:
  assumes "slots_ok d" "i < length (daemons d)" "d_state (daemons d ! i) = DAEMON_BUSY" "\<not> stopped d"
  defines "d' \<equiv> dispatch_handle_disconnect True True (d_pipe (daemons d ! i)) d"
  shows "(\<exists>cs. calls d' = calls d @ cs \<and> ReplySend (d_ctx (daemons d ! i)) (conn_reset_buf d) \<in> set cs)
    \<and> d_pipe (daemons d ! i) \<notin> d_pipe ` set (daemons d')
    \<and> executing d' = executing d - 1 \<and> outq_count d' = outq_count d - 1"
proof -
  let ?x = "daemons d ! i"
  have dist: "distinct (map d_pipe (daemons d))" using assms(1) by (simp add: slots_ok_def)
  obtain j where j: "dispatch_find_daemon d (d_pipe ?x) = Some j"
    using assms(2) find_daemon_None [of d "d_pipe ?x"] by (cases "dispatch_find_daemon d (d_pipe ?x)") auto
  have "j = i"
    using find_daemon_Some [OF j] assms(2) dist nth_eq_iff_index_eq [of "map d_pipe (daemons d)" j i] by simp
  note j = j [unfolded this]
  let ?d1 = "emit [CvWake] (dispatch_remove_daemon i (d\<lparr>executing := executing d - 1\<rparr>))"
  let ?d2 = "dispatch_reply_send_locked True (d_ctx ?x) (conn_reset_buf ?d1) ?d1"
  have b: "conn_reset_buf ?d1 = conn_reset_buf d" "calls ?d1 = calls d @ [CvWake]"
    by (simp_all add: dispatch_remove_daemon_def Let_def)
  have d': "d' = dispatch_reap_retired ?d2"
    using j assms(3,4)
    by (simp add: d'_def dispatch_handle_disconnect_def disconnect_locked_def Let_def disconnect_reply_def
        dispatch_send_conn_reset_def)
  obtain cs where cs: "calls ?d2 = calls d @ CvWake # cs @ [ReplySend (d_ctx ?x) (conn_reset_buf d)]"
    using reply_send_calls [of True "d_ctx ?x" "conn_reset_buf ?d1" ?d1] unfolding b by auto
  obtain cs' where cs': "calls d' = calls ?d2 @ cs'"
    using calls_reap_extends unfolding d' by blast
  have core: "same_core d' ?d1"
    unfolding d' by (rule same_trans(1) [OF same_reap same_slotsD(1) [OF same_reply]])
  have "mset (map d_pipe (pop_swap i (daemons d))) + {# d_pipe ?x #} = mset (map d_pipe (daemons d))"
    using arg_cong [OF mset_pop_swap [OF assms(2)], of "image_mset d_pipe"] by simp
  then have "distinct (d_pipe ?x # map d_pipe (pop_swap i (daemons d)))"
    using dist by (metis add.commute add_mset_add_single mset.simps(2) mset_eq_imp_distinct_iff)
  then show ?thesis
    using same_coreD [OF core] assms(3) cs cs' by auto
qed

theorem disconnect_answers_request_witness:
  "executing (dispatch_handle_disconnect True True 5 (demo_start\<lparr>executing := 1, outq_count := 1,
      senders := [900 \<mapsto> \<lparr>s_pipe = 5, s_sending = False, s_init = [], s_busy = False, s_msg = None\<rparr>],
      daemons := [\<lparr>d_pipe = 5, d_state = DAEMON_BUSY, d_msgid = 80, d_sync_gen = 0, d_ctx = 3, d_ds = 900\<rparr>]\<rparr>)) = 0"
  using disconnect_answers_request [of "demo_start\<lparr>executing := 1, outq_count := 1,
      senders := [900 \<mapsto> \<lparr>s_pipe = 5, s_sending = False, s_init = [], s_busy = False, s_msg = None\<rparr>],
      daemons := [\<lparr>d_pipe = 5, d_state = DAEMON_BUSY, d_msgid = 80, d_sync_gen = 0, d_ctx = 3, d_ds = 900\<rparr>]\<rparr>" 0]
  by (simp add: slots_ok_def slot_ok_def demo_start_sel)
    (simp add: demo_start_def rnng_dispatcher_start_def dispatch_prepare_init_template_def demo_sentinel
      Let_def dispatcher_calloc_def)

text \<open>The removal of the first element satisfying a predicate.\<close>

fun drop_first :: "('a \<Rightarrow> bool) \<Rightarrow> 'a list \<Rightarrow> 'a list" where
  "drop_first P [] = []"
| "drop_first P (x # xs) = (if P x then xs else x # drop_first P xs)"

lemma drop_first_find:
  "drop_first P xs = (case find_idx P xs of None \<Rightarrow> xs | Some k \<Rightarrow> take k xs @ drop (Suc k) xs)"
  by (induction xs) (auto split: option.splits)

text \<open>
  Cancelling by message id reports success exactly when the id belongs to a busy daemon or to
  a queued request. A busy daemon is signalled and keeps its slot and its request; otherwise the
  first queued request with the id leaves the queue, the others keep their order, and its
  context is closed and its message freed. An unknown id changes nothing.
\<close>

definition works_on :: "i32 \<Rightarrow> daemon \<Rightarrow> bool" where
  "works_on tid x \<longleftrightarrow> d_state x = DAEMON_BUSY \<and> d_msgid x = tid"

theorem cancel_by_id:
  "(let (found, d') = dispatch_cancel_direct m n tid d;
        running = (\<exists>x \<in> set (daemons d). works_on tid x);
        queued = (\<exists>q \<in> set (inq d). q_msgid q = tid)
    in found = (running \<or> queued) \<and> daemons d' = daemons d \<and>
       (if running then inq d' = inq d
        else inq d' = drop_first (\<lambda>q. q_msgid q = tid) (inq d) \<and>
             (if queued
              then \<exists>q \<in> set (inq d). q_msgid q = tid \<and>
                     (\<exists>w. calls d' = calls d @ [CtxClose (q_ctx q), MsgFree (q_msg q)] @ w)
              else d' = d)))"
proof -
  let ?b = "find_idx (\<lambda>x. d_state x = DAEMON_BUSY \<and> d_msgid x = tid) (daemons d)"
  let ?q = "find_idx (\<lambda>q. q_msgid q = tid) (inq d)"
  show ?thesis
  proof (cases ?b)
    case (Some i)
    then have "\<exists>x \<in> set (daemons d). works_on tid x"
      using find_idx_Some [OF Some] nth_mem by (fastforce simp: works_on_def)
    then show ?thesis
      using Some same_coreD [OF same_slotsD(1) [OF same_signal]]
      by (simp add: dispatch_cancel_direct_def)
  next
    case None
    then have b: "\<not> (\<exists>x \<in> set (daemons d). works_on tid x)"
      by (auto simp: find_idx_None_iff works_on_def)
    show ?thesis
    proof (cases ?q)
      case None
      then have "\<not> (\<exists>q \<in> set (inq d). q_msgid q = tid)" by (auto simp: find_idx_None_iff)
      with \<open>?b = None\<close> b None show ?thesis
        by (simp add: dispatch_cancel_direct_def dispatch_cancel_inq_def drop_first_find)
    next
      case (Some k)
      then have k: "inq d ! k \<in> set (inq d)" "q_msgid (inq d ! k) = tid"
        using find_idx_Some [OF Some] by auto
      with \<open>?b = None\<close> b Some show ?thesis
        by (auto simp: dispatch_cancel_direct_def dispatch_cancel_inq_def drop_first_find Let_def)
    qed
  qed
qed

text \<open>
  Backpressure. A gate over any sequence of states it polls returns exactly at the first
  state where the queued bytes are below the limit, or there is no limit, or the dispatcher has
  been stopped: never while the queue is at or over its limit in a running dispatcher. The
  non-blocking gate gives the same answer on a running dispatcher.
\<close>

theorem gate_holds_back:
  "(rnng_dispatcher_gate ds = (if \<exists>d \<in> set ds. rnng_dispatcher_try_gate d \<or> stopped d then Some True else None))
   \<and> rnng_dispatcher_try_gate e = (rnng_dispatcher_gate [e\<lparr>stopped := False\<rparr>] = Some True)"
proof
  show "rnng_dispatcher_gate ds = (if \<exists>d \<in> set ds. rnng_dispatcher_try_gate d \<or> stopped d then Some True else None)"
    by (induction ds) (auto simp: rnng_dispatcher_try_gate_def)
  show "rnng_dispatcher_try_gate e = (rnng_dispatcher_gate [e\<lparr>stopped := False\<rparr>] = Some True)"
    by (auto simp: rnng_dispatcher_try_gate_def)
qed

end
