(* ===== verification/Queues.thy ===== *)
theory Queues
  imports Prelude
begin

text \<open>
  The interface of the singly linked FIFO queues of the code, and what any client may conclude
  from it. A state \<open>s\<close> represents a list of element addresses; the provider shows what enqueueing
  at the tail and dequeueing at the head do to the list.
\<close>

locale fifo =
  fixes rep :: "'s \<Rightarrow> 'a list \<Rightarrow> bool"
    and enq :: "'a \<Rightarrow> 's \<Rightarrow> 's"
    and deq :: "'s \<Rightarrow> ('a \<times> 's) option"
  assumes enq_rep: "rep s xs \<Longrightarrow> x \<notin> set xs \<Longrightarrow> rep (enq x s) (xs @ [x])"
    and deq_nil: "rep s [] \<Longrightarrow> deq s = None"
    and deq_cons: "rep s (x # xs) \<Longrightarrow> \<exists>s'. deq s = Some (x, s') \<and> rep s' xs"
begin

fun take_out :: "nat \<Rightarrow> 's \<Rightarrow> 'a list \<times> 's" where
  "take_out 0 s = ([], s)"
| "take_out (Suc n) s =
     (case deq s of None \<Rightarrow> ([], s)
      | Some (x, s') \<Rightarrow> (let (xs, s'') = take_out n s' in (x # xs, s'')))"

lemma enq_all:
  assumes "rep s xs" "distinct (xs @ ys)"
  shows "rep (fold enq ys s) (xs @ ys)"
  using assms
proof (induction ys arbitrary: s xs)
  case (Cons y ys)
  have "rep (enq y s) (xs @ [y])" using enq_rep Cons.prems by simp
  then show ?case using Cons.IH [of "enq y s" "xs @ [y]"] Cons.prems(2) by simp
qed simp

lemma take_out_rep:
  "rep s xs \<Longrightarrow> \<exists>s'. take_out n s = (take n xs, s') \<and> rep s' (drop n xs)"
proof (induction n arbitrary: s xs)
  case (Suc n)
  show ?case
  proof (cases xs)
    case Nil
    with Suc deq_nil show ?thesis by auto
  next
    case (Cons x ys)
    with Suc.prems deq_cons obtain s' where s': "deq s = Some (x, s')" "rep s' ys" by blast
    with Suc.IH [OF s'(2)] Cons show ?thesis by auto
  qed
qed simp

text \<open>First in, first out: what was put in comes out in the same order, behind what was there.\<close>

lemma fifo_order:
  assumes "rep s xs" "distinct (xs @ ys)"
  shows "fst (take_out (length xs + length ys) (fold enq ys s)) = xs @ ys"
proof -
  from take_out_rep [OF enq_all [OF assms], of "length xs + length ys"]
  obtain s' where "take_out (length xs + length ys) (fold enq ys s) = (take (length xs + length ys) (xs @ ys), s')"
    by blast
  then show ?thesis by simp
qed

end

text \<open>A queue from whose middle an element can be unlinked.\<close>

locale fifo_unlink = fifo rep enq deq
  for rep :: "'s \<Rightarrow> 'a list \<Rightarrow> bool" and enq deq +
  fixes unlink :: "('a \<Rightarrow> bool) \<Rightarrow> 's \<Rightarrow> 'a option \<times> 's"
  assumes unlink_none: "rep s xs \<Longrightarrow> find_idx P xs = None \<Longrightarrow> unlink P s = (None, s)"
    and unlink_some: "rep s xs \<Longrightarrow> find_idx P xs = Some k \<Longrightarrow>
      \<exists>s'. unlink P s = (Some (xs ! k), s') \<and> rep s' (take k xs @ drop (Suc k) xs)"
begin

text \<open>An element enqueued after an unlinking is found behind the survivors, in order.\<close>

lemma unlink_then_enq:
  assumes "rep s xs" "distinct xs" "y \<notin> set xs" "find_idx P xs = Some k"
  shows "rep (enq y (snd (unlink P s))) (take k xs @ drop (Suc k) xs @ [y])"
proof -
  from unlink_some [OF assms(1,4)] obtain s' where
    "unlink P s = (Some (xs ! k), s')" "rep s' (take k xs @ drop (Suc k) xs)" by blast
  moreover have "y \<notin> set (take k xs @ drop (Suc k) xs)"
    using assms(3) by (auto dest: in_set_takeD in_set_dropD)
  ultimately show ?thesis using enq_rep by fastforce
qed

end

end
