(* ===== verification/InQueue.thy ===== *)
theory InQueue
  imports Queues Dispatcher
begin

text \<open>
  The input queue of the dispatcher and its signal queue as the code has them: chains of
  pointers with a head and a tail. In the input queue the link is stored in the first bytes of
  the queued message's own header (\<open>dispatch_node_read\<close>, \<open>dispatch_node_set_next\<close>); in the
  signal queue it is a field of a separately allocated node. Both are interpretations of \<open>fifo\<close>,
  and the operations on the chains refine the list operations of \<open>Dispatcher\<close>.
\<close>

section \<open>State and operations\<close>

text \<open>
  \<open>next\<close> is the link field of each message header (\<open>None\<close> is \<open>NULL\<close>); \<open>node\<close> its other
  fields. Addresses are naturals.
\<close>

record chain =
  head :: "nat option"
  tail :: "nat option"
  nxt :: "nat \<Rightarrow> nat option"

definition chain_enqueue :: "nat \<Rightarrow> chain \<Rightarrow> chain" where
  "chain_enqueue m s =
     (let s1 = s\<lparr>nxt := (nxt s)(m := None)\<rparr>;
          s2 = (case tail s1 of
                  Some t \<Rightarrow> s1\<lparr>nxt := (nxt s1)(t := Some m)\<rparr>
                | None \<Rightarrow> s1\<lparr>head := Some m\<rparr>)
      in s2\<lparr>tail := Some m\<rparr>)"

definition chain_dequeue :: "chain \<Rightarrow> (nat \<times> chain) option" where
  "chain_dequeue s =
     (case head s of
        None \<Rightarrow> None
      | Some m \<Rightarrow>
          (let s1 = s\<lparr>head := nxt s m\<rparr> in
           Some (m, if head s1 = None then s1\<lparr>tail := None\<rparr> else s1)))"

text \<open>
  The walk of \<open>dispatch_cancel_inq\<close>: \<open>prev\<close> and \<open>cur\<close> go down the chain until a node matches;
  \<open>None\<close> would be a walk that never ends.
\<close>

partial_function (option) chain_walk ::
  "(nat \<Rightarrow> bool) \<Rightarrow> nat option \<Rightarrow> nat option \<Rightarrow> chain \<Rightarrow> (nat option \<times> chain) option" where
  "chain_walk P prev cur s =
     (case cur of
        None \<Rightarrow> Some (None, s)
      | Some m \<Rightarrow>
          if P m then
            (let s1 = (case prev of Some p \<Rightarrow> s\<lparr>nxt := (nxt s)(p := nxt s m)\<rparr> | None \<Rightarrow> s\<lparr>head := nxt s m\<rparr>);
                 s2 = (if tail s1 = Some m then s1\<lparr>tail := prev\<rparr> else s1)
             in Some (Some m, s2))
          else chain_walk P (Some m) (nxt s m) s)"

definition chain_unlink :: "(nat \<Rightarrow> bool) \<Rightarrow> chain \<Rightarrow> nat option \<times> chain" where
  "chain_unlink P s = the (chain_walk P None (head s) s)"

section \<open>What a chain represents\<close>

fun path :: "(nat \<Rightarrow> nat option) \<Rightarrow> nat option \<Rightarrow> nat list \<Rightarrow> bool" where
  "path nx p [] = (p = None)"
| "path nx p (x # xs) = (p = Some x \<and> path nx (nx x) xs)"

definition chain_rep :: "chain \<Rightarrow> nat list \<Rightarrow> bool" where
  "chain_rep s xs \<longleftrightarrow> path (nxt s) (head s) xs \<and> distinct xs
     \<and> tail s = (if xs = [] then None else Some (last xs))"

lemma path_frame: "m \<notin> set xs \<Longrightarrow> path (nx(m := v)) p xs = path nx p xs"
  by (induction xs arbitrary: p) auto

lemma path_append: "path nx p (xs @ [t]) \<Longrightarrow> t \<notin> set xs \<Longrightarrow> m \<notin> set (xs @ [t]) \<Longrightarrow>
   path (nx(m := None, t := Some m)) p (xs @ [t, m])"
  by (induction xs arbitrary: p) auto

lemma path_det: "path nx p xs \<Longrightarrow> path nx p ys \<Longrightarrow> xs = ys"
proof (induction xs arbitrary: p ys)
  case Nil
  then show ?case by (cases ys) auto
next
  case (Cons x xs)
  then show ?case by (cases ys) auto
qed

lemma path_skip:
  "path nx p (xs @ q # m # ys) \<Longrightarrow> distinct (xs @ q # m # ys) \<Longrightarrow>
   path (nx(q := nx m)) p (xs @ q # ys)"
  by (induction xs arbitrary: p) (auto simp: path_frame)

lemma enqueue_rep: "chain_rep s xs \<Longrightarrow> m \<notin> set xs \<Longrightarrow> chain_rep (chain_enqueue m s) (xs @ [m])"
proof (cases xs rule: rev_cases)
  case Nil
  assume "chain_rep s xs" "m \<notin> set xs"
  with Nil show ?thesis by (simp add: chain_rep_def chain_enqueue_def Let_def)
next
  case (snoc ys t)
  assume "chain_rep s xs" "m \<notin> set xs"
  with snoc path_append [of "nxt s" "head s" ys t m] show ?thesis
    by (simp add: chain_rep_def chain_enqueue_def Let_def)
qed

lemma dequeue_rep: "chain_rep s (x # xs) \<Longrightarrow> \<exists>s'. chain_dequeue s = Some (x, s') \<and> chain_rep s' xs"
  by (cases xs) (auto simp: chain_rep_def chain_dequeue_def Let_def)

lemmas walk_simps = chain_walk.simps [of _ _ None] chain_walk.simps [of _ _ "Some _"]

lemma walk_rep:
  assumes "chain_rep s (pre @ xs)" "\<forall>y \<in> set pre. \<not> P y"
  shows "\<exists>s'. chain_walk P (if pre = [] then None else Some (last pre)) (if xs = [] then None else Some (hd xs)) s
      = Some (map_option ((!) xs) (find_idx P xs), s')
    \<and> (case find_idx P xs of None \<Rightarrow> s' = s | Some k \<Rightarrow> chain_rep s' (pre @ take k xs @ drop (Suc k) xs))"
  using assms
proof (induction xs arbitrary: pre)
  case Nil
  then show ?case by (simp add: walk_simps)
next
  case (Cons x xs)
  have px: "path (nxt s) (head s) (pre @ x # xs)" "distinct (pre @ x # xs)" using Cons.prems(1)
    by (auto simp: chain_rep_def)
  have suf: "path nx p (as @ b # bs) \<Longrightarrow> path nx (nx b) bs" for nx p as b bs
    by (induction as arbitrary: p) auto
  have nx: "nxt s x = (if xs = [] then None else Some (hd xs))" using suf [OF px(1)] by (cases xs) auto
  show ?case
  proof (cases "P x")
    case False
    with Cons.IH [of "pre @ [x]"] Cons.prems nx show ?thesis
      by (auto simp: walk_simps split: option.splits)
  next
    case True
    show ?thesis
    proof (cases pre rule: rev_cases)
      case Nil
      with True px nx suf [OF px(1)] Cons.prems(1) show ?thesis
        by (cases xs) (auto simp: chain_rep_def Let_def walk_simps)
    next
      case (snoc ps q)
      with path_skip [of "nxt s" "head s" ps q x xs] True px nx Cons.prems(1) show ?thesis
        by (cases xs) (auto simp: chain_rep_def Let_def walk_simps)
    qed
  qed
qed

lemma unlink_rep:
  assumes "chain_rep s xs"
  shows "find_idx P xs = None \<Longrightarrow> chain_unlink P s = (None, s)"
    and "find_idx P xs = Some k \<Longrightarrow>
      \<exists>s'. chain_unlink P s = (Some (xs ! k), s') \<and> chain_rep s' (take k xs @ drop (Suc k) xs)"
proof -
  have h: "head s = (if xs = [] then None else Some (hd xs))"
    using assms(1) by (cases xs) (auto simp: chain_rep_def)
  from walk_rep [of s "[]" xs P] assms
  show "find_idx P xs = None \<Longrightarrow> chain_unlink P s = (None, s)"
    "find_idx P xs = Some k \<Longrightarrow>
      \<exists>s'. chain_unlink P s = (Some (xs ! k), s') \<and> chain_rep s' (take k xs @ drop (Suc k) xs)"
    by (auto simp: chain_unlink_def h)
qed

section \<open>The interpretation\<close>

text \<open>The message chain and the signal chain have the same operations; the first can unlink.\<close>

interpretation inq: fifo_unlink chain_rep chain_enqueue chain_dequeue chain_unlink
proof
  show "chain_rep s [] \<Longrightarrow> chain_dequeue s = None" for s by (simp add: chain_rep_def chain_dequeue_def)
qed (use enqueue_rep dequeue_rep unlink_rep in blast)+

text \<open>The chain against the list queue of \<open>Dispatcher\<close>: the messages at the chain's addresses.\<close>

definition refines :: "(nat \<Rightarrow> qnode) \<Rightarrow> chain \<Rightarrow> dispatcher \<Rightarrow> bool" where
  "refines node s d \<longleftrightarrow> (\<exists>as. chain_rep s as \<and> inq d = map node as)"

lemma find_idx_map: "find_idx P (map f xs) = find_idx (\<lambda>x. P (f x)) xs"
  by (induction xs) auto

text \<open>
  The intrusive chains of the code are the queues of the model. From the empty chain, any
  distinct messages enqueued come out in the order they went in, wherever the head and tail
  pointers stood; cancelling walks the chain to the first matching node (the walk ends), takes
  exactly it out, and repairs head and tail so that a message enqueued afterwards still goes
  behind the survivors.
\<close>

theorem chain_is_fifo:
  assumes "chain_rep s xs" "distinct (xs @ y # ys)"
  shows "fst (inq.take_out (length xs + length (y # ys)) (fold chain_enqueue (y # ys) s)) = xs @ y # ys
    \<and> (case find_idx P xs of
         None \<Rightarrow> chain_unlink P s = (None, s)
       | Some k \<Rightarrow> fst (chain_unlink P s) = Some (xs ! k) \<and>
           chain_rep (chain_enqueue y (snd (chain_unlink P s))) (take k xs @ drop (Suc k) xs @ [y]))"
proof
  show "fst (inq.take_out (length xs + length (y # ys)) (fold chain_enqueue (y # ys) s)) = xs @ y # ys"
    by (rule inq.fifo_order [OF assms])
  show "case find_idx P xs of
         None \<Rightarrow> chain_unlink P s = (None, s)
       | Some k \<Rightarrow> fst (chain_unlink P s) = Some (xs ! k) \<and>
           chain_rep (chain_enqueue y (snd (chain_unlink P s))) (take k xs @ drop (Suc k) xs @ [y])"
    using inq.unlink_none [OF assms(1)] inq.unlink_some [OF assms(1)] inq.unlink_then_enq [OF assms(1), of y] assms(2)
    by (fastforce split: option.splits)
qed

definition empty_chain :: chain where "empty_chain = \<lparr>head = None, tail = None, nxt = (\<lambda>_. None)\<rparr>"

theorem chain_is_fifo_witness:
  "fst (inq.take_out 4 (fold chain_enqueue [40, 50] (fold chain_enqueue [20, 30] empty_chain))) = [20, 30, 40, 50]
   \<and> chain_rep (chain_enqueue 40 (snd (chain_unlink (\<lambda>m. m = 30) (fold chain_enqueue [20, 30] empty_chain)))) [20, 40]"
proof -
  have "chain_rep empty_chain []" by (simp add: chain_rep_def empty_chain_def)
  then have r: "chain_rep (fold chain_enqueue [20, 30] empty_chain) [20, 30]"
    using inq.enq_all [of empty_chain "[]" "[20, 30]"] by simp
  have d: "distinct ([20, 30] @ 40 # [50 :: nat])" by simp
  show ?thesis
    using chain_is_fifo [OF r d, of "\<lambda>m. m = 30"] by (simp add: numeral_eq_Suc)
qed

text \<open>
  C24: the pointer code refines the list operations the dispatcher's proofs are about: when a
  chain holds the messages of \<open>inq\<close>, then enqueueing on the chain is \<open>dispatch_enqueue\<close>, taking
  its head is the head \<open>dispatch_drain_locked\<close> assigns, and the walk by message id is
  \<open>dispatch_cancel_inq\<close>, in result and in the queue left behind.
\<close>

theorem chain_refines_inq:
  assumes "chain_rep s as" "inq d = map node as" "m \<notin> set as"
    "node m = \<lparr>q_msg = msg, q_ctx = ctx, q_msgid = msgid, q_is_sync = sy\<rparr>"
  shows "refines node (chain_enqueue m s) (dispatch_enqueue ctx msg msgid sy d)
    \<and> (inq d \<noteq> [] \<longrightarrow> (\<exists>h s'. chain_dequeue s = Some (h, s') \<and> node h = hd (inq d)
         \<and> refines node s' (dispatch_dequeue i d)))
    \<and> (fst (dispatch_cancel_inq tid d) \<longleftrightarrow> fst (chain_unlink (\<lambda>a. q_msgid (node a) = tid) s) \<noteq> None)
    \<and> refines node (snd (chain_unlink (\<lambda>a. q_msgid (node a) = tid) s)) (snd (dispatch_cancel_inq tid d))"
proof (intro conjI impI)
  show "refines node (chain_enqueue m s) (dispatch_enqueue ctx msg msgid sy d)"
    using inq.enq_rep [OF assms(1,3)] assms(2,4)
    by (auto simp: refines_def dispatch_enqueue_def Let_def intro!: exI [of _ "as @ [m]"])
  show "\<exists>h s'. chain_dequeue s = Some (h, s') \<and> node h = hd (inq d) \<and> refines node s' (dispatch_dequeue i d)"
    if ne: "inq d \<noteq> []"
  proof -
    from ne assms(2) obtain h bs where "as = h # bs" by (cases as) auto
    with inq.deq_cons [of s h bs] assms(1,2) show ?thesis by (auto simp: refines_def)
  qed
  let ?P = "\<lambda>a. q_msgid (node a) = tid"
  have f: "find_idx (\<lambda>q. q_msgid q = tid) (inq d) = find_idx ?P as"
    by (simp add: assms(2) find_idx_map)
  show "fst (dispatch_cancel_inq tid d) \<longleftrightarrow> fst (chain_unlink ?P s) \<noteq> None"
    using inq.unlink_none [OF assms(1), of ?P] inq.unlink_some [OF assms(1), of ?P]
    by (fastforce simp: dispatch_cancel_inq_def f Let_def split: option.splits)
  show "refines node (snd (chain_unlink ?P s)) (snd (dispatch_cancel_inq tid d))"
  proof (cases "find_idx ?P as")
    case None
    then have "dispatch_cancel_inq tid d = (False, d)" by (simp add: dispatch_cancel_inq_def f)
    with inq.unlink_none [OF assms(1) None] assms(1,2) show ?thesis by (auto simp: refines_def)
  next
    case (Some k)
    from inq.unlink_some [OF assms(1) Some] obtain s' where
      "chain_unlink ?P s = (Some (as ! k), s')" "chain_rep s' (take k as @ drop (Suc k) as)" by blast
    moreover have "inq (snd (dispatch_cancel_inq tid d)) = take k (inq d) @ drop (Suc k) (inq d)"
      by (simp add: dispatch_cancel_inq_def f Some Let_def wake_if_def emit_def)
    ultimately show ?thesis
      by (auto simp: refines_def assms(2) take_map drop_map intro!: exI [of _ "take k as @ drop (Suc k) as"])
  qed
qed

theorem chain_refines_inq_witness:
  "refines (\<lambda>a. \<lparr>q_msg = [of_nat a], q_ctx = a, q_msgid = of_nat a, q_is_sync = False\<rparr>)
     (chain_enqueue 7 empty_chain) (dispatch_enqueue 7 [7] 7 False dispatcher_calloc)"
  using chain_refines_inq [of empty_chain "[]" dispatcher_calloc
      "\<lambda>a. \<lparr>q_msg = [of_nat a], q_ctx = a, q_msgid = of_nat a, q_is_sync = False\<rparr>" 7 "[7]" 7 7 False]
  by (simp add: chain_rep_def empty_chain_def dispatcher_calloc_def)

end
