(* ===== verification/Registry.thy ===== *)
theory Registry
  imports Prelude
begin

text \<open>
  The linked registries of the code: the list that keeps R objects from the garbage collector
  (\<open>nano_PreserveObject\<close>, \<open>nano_ReleaseObject\<close> of \<^verbatim>\<open>sync.c\<close>), the intrusive doubly linked lists of
  connections and pending requests (\<open>DL_PREPEND\<close>, \<open>DL_REMOVE\<close> of \<^verbatim>\<open>server.c\<close>). Both answer
  one contract, the locale \<open>registry\<close>: add at the front, remove from anywhere.
\<close>

section \<open>The contract\<close>

locale registry =
  fixes rep :: "'s \<Rightarrow> 'a list \<Rightarrow> bool"
    and add :: "'a \<Rightarrow> 's \<Rightarrow> 's"
    and rem :: "'a \<Rightarrow> 's \<Rightarrow> 's"
  assumes add_rep: "rep s xs \<Longrightarrow> x \<notin> set xs \<Longrightarrow> rep (add x s) (x # xs)"
    and rem_rep: "rep s xs \<Longrightarrow> x \<in> set xs \<Longrightarrow> rep (rem x s) (remove1 x xs)"
    and rep_distinct: "rep s xs \<Longrightarrow> distinct xs"
begin

lemma add_all: "rep s xs \<Longrightarrow> distinct (ys @ xs) \<Longrightarrow> rep (fold add (rev ys) s) (ys @ xs)"
proof (induction ys)
  case (Cons y ys)
  then have "rep (fold add (rev ys) s) (ys @ xs)" by simp
  from add_rep [OF this, of y] Cons.prems(2) show ?case by simp
qed simp

lemma rem_all:
  "rep s xs \<Longrightarrow> distinct ys \<Longrightarrow> set ys \<subseteq> set xs \<Longrightarrow> \<exists>zs. rep (fold rem ys s) zs \<and> set zs = set xs - set ys"
proof (induction ys arbitrary: s xs)
  case (Cons y ys)
  have r: "rep (rem y s) (remove1 y xs)" using rem_rep Cons.prems by simp
  have d: "set (remove1 y xs) = set xs - {y}" using rep_distinct [OF Cons.prems(1)] by simp
  then have "set ys \<subseteq> set (remove1 y xs)" using Cons.prems(2,3) by auto
  from Cons.IH [OF r _ this] Cons.prems(2) d show ?case by auto
qed auto

text \<open>Whatever the order of removal, exactly the elements added and not removed are left.\<close>

lemma add_then_rem:
  assumes "rep s []" "distinct ys" "distinct zs" "set zs \<subseteq> set ys"
  shows "\<exists>xs. rep (fold rem zs (fold add (rev ys) s)) xs \<and> set xs = set ys - set zs"
  using rem_all [OF add_all [OF assms(1), of ys]] assms(2-) by auto

end

text \<open>A registry whose removal of an absent element changes nothing.\<close>

locale safe_registry = registry rep add rem
  for rep :: "'s \<Rightarrow> 'a list \<Rightarrow> bool" and add rem +
  assumes rem_absent: "rep s xs \<Longrightarrow> x \<notin> set xs \<Longrightarrow> rep (rem x s) xs"
begin

lemma rem_twice: "rep s xs \<Longrightarrow> x \<in> set xs \<Longrightarrow> rep (rem x (rem x s)) (remove1 x xs)"
  using rem_rep [of s xs x] rem_absent [of "rem x s" "remove1 x xs" x] rep_distinct [of s xs] by simp

end

section \<open>The list of preserved objects\<close>

text \<open>
  R cons cells: \<open>car\<close> is the link back, \<open>cdr\<close> the link forward (\<open>None\<close> is \<open>R_NilValue\<close>), \<open>tag\<close> the
  object kept alive. Cell \<open>nano_precious\<close> is the fixed head.
\<close>

record cells =
  car :: "nat \<Rightarrow> nat option"
  cdr :: "nat \<Rightarrow> nat option"
  tag :: "nat \<Rightarrow> nat option"

definition nano_precious :: nat where "nano_precious = 0"

text \<open>\<open>node\<close> is the cell \<open>Rf_cons\<close> returns.\<close>

definition nano_PreserveObject :: "nat \<Rightarrow> nat \<Rightarrow> cells \<Rightarrow> cells" where
  "nano_PreserveObject node x s =
     (let tail = cdr s nano_precious;
          s1 = s\<lparr>car := (car s)(node := Some nano_precious), cdr := (cdr s)(node := tail)\<rparr>;
          s2 = s1\<lparr>cdr := (cdr s1)(nano_precious := Some node)\<rparr>;
          s3 = (case tail of None \<Rightarrow> s2 | Some t \<Rightarrow> s2\<lparr>car := (car s2)(t := Some node)\<rparr>)
      in s3\<lparr>tag := (tag s3)(node := Some x)\<rparr>)"

definition nano_ReleaseObject :: "nat \<Rightarrow> cells \<Rightarrow> cells" where
  "nano_ReleaseObject node s =
     (let s1 = s\<lparr>tag := (tag s)(node := None)\<rparr>; head = the (car s1 node); tail = cdr s1 node;
          s2 = s1\<lparr>cdr := (cdr s1)(head := tail)\<rparr>
      in (case tail of None \<Rightarrow> s2 | Some t \<Rightarrow> s2\<lparr>car := (car s2)(t := Some head)\<rparr>))"

section \<open>Doubly linked segments\<close>

text \<open>
  \<open>seg prv nx q p xs q' p'\<close>: following \<open>nx\<close> from \<open>p\<close> runs through \<open>xs\<close> and ends at \<open>p'\<close>; the first
  node's back link is \<open>q\<close>, and \<open>q'\<close> is the last node (\<open>q\<close> when there is none).
\<close>

fun seg :: "(nat \<Rightarrow> nat option) \<Rightarrow> (nat \<Rightarrow> nat option) \<Rightarrow> nat option \<Rightarrow> nat option \<Rightarrow> nat list
    \<Rightarrow> nat option \<Rightarrow> nat option \<Rightarrow> bool" where
  "seg prv nx q p [] q' p' = (q = q' \<and> p = p')"
| "seg prv nx q p (x # xs) q' p' = (p = Some x \<and> prv x = q \<and> seg prv nx (Some x) (nx x) xs q' p')"

lemma seg_append:
  "seg prv nx q p (xs @ ys) q' p' \<longleftrightarrow> (\<exists>q1 p1. seg prv nx q p xs q1 p1 \<and> seg prv nx q1 p1 ys q' p')"
  by (induction xs arbitrary: q p) auto

lemma seg_frame:
  "z \<notin> set xs \<Longrightarrow> seg prv (nx(z := v)) q p xs q' p' = seg prv nx q p xs q' p'"
  "z \<notin> set xs \<Longrightarrow> seg (prv(z := v)) nx q p xs q' p' = seg prv nx q p xs q' p'"
  by (induction xs arbitrary: q p) auto

lemma seg_first:
  assumes "seg prv nx q p xs q' p'" "distinct xs" "xs \<noteq> []"
  shows "seg (prv(hd xs := q2)) nx q2 p xs q' p'" and "p = Some (hd xs)" and "prv (hd xs) = q"
  using assms by (cases xs; simp add: seg_frame)+

lemma seg_last:
  assumes "seg prv nx q p xs q' p'" "distinct xs" "xs \<noteq> []"
  shows "seg prv (nx(last xs := p2)) q p xs q' p2" and "q' = Some (last xs)" and "nx (last xs) = p'"
proof -
  obtain ys z where xs: "xs = ys @ [z]" using assms(3) by (metis rev_exhaust)
  with assms show "seg prv (nx(last xs := p2)) q p xs q' p2" "q' = Some (last xs)" "nx (last xs) = p'"
    by (auto simp: seg_append seg_frame)
qed

text \<open>Taking \<open>y\<close> out: its neighbours are linked to each other, at the ends to \<open>q\<close> and to the list variable.\<close>

definition relink_back :: "nat option \<Rightarrow> nat option \<Rightarrow> (nat \<Rightarrow> nat option) \<Rightarrow> nat \<Rightarrow> nat option" where
  "relink_back n q prv = (case n of None \<Rightarrow> prv | Some t \<Rightarrow> prv(t := q))"

lemma seg_unlink:
  assumes "seg prv nx q p (xs @ y # ys) q' None" "distinct (xs @ y # ys)"
  shows "\<exists>r. seg (relink_back (nx y) (prv y) prv) (if xs = [] then nx else nx(last xs := nx y)) q
             (if xs = [] then nx y else p) (xs @ ys) r None"
    and "prv y = (if xs = [] then q else Some (last xs))" and "xs = [] \<Longrightarrow> p = Some y"
    and "nx y = (if ys = [] then None else Some (hd ys))"
proof -
  from assms(1) obtain q1 where a: "seg prv nx q p xs q1 (Some y)" "prv y = q1" "seg prv nx (Some y) (nx y) ys q' None"
    by (auto simp: seg_append)
  show py: "prv y = (if xs = [] then q else Some (last xs))"
    using a seg_last(2) [OF a(1)] assms(2) by (cases "xs = []") auto
  show "xs = [] \<Longrightarrow> p = Some y" using a(1) by simp
  show ny: "nx y = (if ys = [] then None else Some (hd ys))"
    using seg_first(2) [OF a(3)] assms(2) a(3) by (cases "ys = []") auto
  let ?prv = "relink_back (nx y) (prv y) prv"
  have bk: "\<exists>r. seg ?prv nx (prv y) (nx y) ys r None"
  proof (cases "ys = []")
    case True
    with ny show ?thesis by (simp add: relink_back_def)
  next
    case False
    with seg_first(1) [OF a(3)] assms(2) ny show ?thesis by (auto simp: relink_back_def)
  qed
  have front: "seg ?prv nx q p xs q1 (Some y)"
    using a(1) assms(2) ny by (cases "ys = []"; cases ys) (auto simp: relink_back_def seg_frame)
  show "\<exists>r. seg ?prv (if xs = [] then nx else nx(last xs := nx y)) q (if xs = [] then nx y else p) (xs @ ys) r None"
  proof (cases "xs = []")
    case True
    with bk py show ?thesis by simp
  next
    case False
    have "seg ?prv (nx(last xs := nx y)) q p xs q1 (nx y)"
      using seg_last(1) [OF front _ False] assms(2) by simp
    moreover have "last xs \<notin> set ys" using False assms(2) by (meson disjoint_iff distinct_append last_in_set list.set_intros(2))
    then have "\<exists>r. seg ?prv (nx(last xs := nx y)) q1 (nx y) ys r None"
      using bk a(2) by (simp add: seg_frame)
    ultimately show ?thesis using False by (auto simp: seg_append)
  qed
qed

lemma remove1_split: "distinct (xs @ y # ys) \<Longrightarrow> remove1 y (xs @ y # ys) = xs @ ys"
  by (induction xs) auto

section \<open>The list of preserved objects: correctness\<close>

definition precious_rep :: "(nat \<Rightarrow> nat) \<Rightarrow> cells \<Rightarrow> nat list \<Rightarrow> bool" where
  "precious_rep obj s xs \<longleftrightarrow> distinct (nano_precious # xs)
     \<and> (\<exists>q. seg (car s) (cdr s) (Some nano_precious) (cdr s nano_precious) xs q None)
     \<and> (\<forall>x. tag s x = (if x \<in> set xs then Some (obj x) else None))"

lemma preserve_rep:
  assumes "precious_rep obj s xs" "node \<noteq> nano_precious" "node \<notin> set xs"
  shows "precious_rep obj (nano_PreserveObject node (obj node) s) (node # xs)"
proof -
  let ?P = "nano_precious" let ?s = "nano_PreserveObject node (obj node) s"
  have d: "distinct (?P # xs)" and t: "\<forall>x. tag s x = (if x \<in> set xs then Some (obj x) else None)"
    using assms(1) by (simp_all add: precious_rep_def)
  obtain q where q: "seg (car s) (cdr s) (Some ?P) (cdr s ?P) xs q None"
    using assms(1) by (auto simp: precious_rep_def)
  have f: "car ?s = relink_back (cdr s ?P) (Some node) ((car s)(node := Some ?P))"
    "cdr ?s = (cdr s)(node := cdr s ?P, ?P := Some node)" "tag ?s = (tag s)(node := Some (obj node))"
    using assms(2) by (auto simp: nano_PreserveObject_def Let_def relink_back_def split: option.splits)
  have "\<exists>q'. seg (car ?s) (cdr ?s) (Some node) (cdr s ?P) xs q' None \<and> car ?s node = Some ?P"
  proof (cases xs)
    case Nil
    with q show ?thesis by (simp add: f(1) relink_back_def)
  next
    case (Cons t ts)
    have c: "cdr s ?P = Some t" "t \<noteq> node" using q Cons assms(3) by auto
    have "seg ((car s)(t := Some node)) (cdr s) (Some node) (cdr s ?P) xs q None"
      using seg_first(1) [OF q] d Cons by simp
    then have "seg ((car s)(t := Some node, node := Some ?P)) (cdr ?s) (Some node) (cdr s ?P) xs q None"
      using d assms(3) by (simp add: f(2) seg_frame)
    then have "seg ((car s)(node := Some ?P, t := Some node)) (cdr ?s) (Some node) (cdr s ?P) xs q None"
      using c(2) by (metis fun_upd_twist)
    then show ?thesis using c by (auto simp: f(1) relink_back_def)
  qed
  then show ?thesis
    using d t assms(2,3) by (auto simp: precious_rep_def f(2,3))
qed

lemma release_rep:
  assumes "precious_rep obj s xs" "node \<in> set xs"
  shows "precious_rep obj (nano_ReleaseObject node s) (remove1 node xs)"
proof -
  let ?P = "nano_precious" let ?s = "nano_ReleaseObject node s"
  from assms(2) obtain as bs where xs: "xs = as @ node # bs" by (meson split_list)
  have d: "distinct (?P # as @ node # bs)" and t: "\<forall>x. tag s x = (if x \<in> set xs then Some (obj x) else None)"
    using assms(1) xs by (simp_all add: precious_rep_def)
  obtain q where q: "seg (car s) (cdr s) (Some ?P) (cdr s ?P) (as @ node # bs) q None"
    using assms(1) xs by (auto simp: precious_rep_def)
  have dd: "distinct (as @ node # bs)" using d by simp
  note u = seg_unlink [OF q dd]
  have h: "car s node = Some (last (?P # as))" using u(2) by simp
  have r: "remove1 node xs = as @ bs" unfolding xs by (rule remove1_split [OF dd])
  have f: "car ?s = relink_back (cdr s node) (car s node) (car s)"
    "cdr ?s = (cdr s)(last (?P # as) := cdr s node)" "tag ?s = (tag s)(node := None)"
    using h by (simp_all add: nano_ReleaseObject_def Let_def relink_back_def split: option.splits)
  have "\<exists>q. seg (car ?s) (cdr ?s) (Some ?P) (cdr ?s ?P) (as @ bs) q None"
  proof (cases "as = []")
    case True
    with u(1) d show ?thesis by (simp add: f seg_frame)
  next
    case False
    then have "last as \<noteq> ?P" using d by (metis distinct.simps(2) in_set_conv_decomp last_in_set list.set_intros(1) set_append Un_iff)
    with u(1) False show ?thesis by (simp add: f)
  qed
  with d t show ?thesis unfolding r precious_rep_def by (auto simp: f(3) xs)
qed

section \<open>The intrusive lists of connections and requests\<close>

text \<open>\<open>lhead\<close> is the list variable, \<open>lnext\<close> and \<open>lprev\<close> the fields of the nodes.\<close>

record dlist =
  lhead :: "nat option"
  lnext :: "nat \<Rightarrow> nat option"
  lprev :: "nat \<Rightarrow> nat option"

definition DL_PREPEND :: "nat \<Rightarrow> dlist \<Rightarrow> dlist" where
  "DL_PREPEND node s =
     (let s1 = s\<lparr>lnext := (lnext s)(node := lhead s)\<rparr>;
          s2 = (case lhead s1 of None \<Rightarrow> s1 | Some h \<Rightarrow> s1\<lparr>lprev := (lprev s1)(h := Some node)\<rparr>)
      in s2\<lparr>lhead := Some node\<rparr>)"

definition DL_REMOVE :: "nat \<Rightarrow> dlist \<Rightarrow> dlist" where
  "DL_REMOVE node s =
     (let s1 = (case lprev s node of
                  Some p \<Rightarrow> s\<lparr>lnext := (lnext s)(p := lnext s node)\<rparr>
                | None \<Rightarrow> if lhead s = Some node then s\<lparr>lhead := lnext s node\<rparr> else s);
          s2 = (case lnext s1 node of
                  Some n \<Rightarrow> s1\<lparr>lprev := (lprev s1)(n := lprev s1 node)\<rparr>
                | None \<Rightarrow> s1)
      in s2\<lparr>lnext := (lnext s2)(node := None), lprev := (lprev s2)(node := None)\<rparr>)"

text \<open>Nodes outside the list have both fields \<open>NULL\<close>, as \<open>calloc\<close> and \<open>DL_REMOVE\<close> leave them.\<close>

definition dlist_rep :: "dlist \<Rightarrow> nat list \<Rightarrow> bool" where
  "dlist_rep s xs \<longleftrightarrow> distinct xs \<and> (\<exists>q. seg (lprev s) (lnext s) None (lhead s) xs q None)
     \<and> (\<forall>x. x \<notin> set xs \<longrightarrow> lnext s x = None \<and> lprev s x = None)"

lemma prepend_rep:
  assumes "dlist_rep s xs" "x \<notin> set xs"
  shows "dlist_rep (DL_PREPEND x s) (x # xs)"
proof -
  let ?s = "DL_PREPEND x s"
  obtain q where q: "seg (lprev s) (lnext s) None (lhead s) xs q None" and d: "distinct xs"
    and out: "\<forall>x. x \<notin> set xs \<longrightarrow> lnext s x = None \<and> lprev s x = None"
    using assms(1) by (auto simp: dlist_rep_def)
  have f: "lhead ?s = Some x" "lnext ?s = (lnext s)(x := lhead s)"
    "lprev ?s = relink_back (lhead s) (Some x) (lprev s)"
    by (auto simp: DL_PREPEND_def Let_def relink_back_def split: option.splits)
  show ?thesis
  proof (cases xs)
    case Nil
    with q out show ?thesis by (simp add: dlist_rep_def f relink_back_def)
  next
    case (Cons t ts)
    have h: "lhead s = Some t" using q Cons by simp
    have "seg ((lprev s)(t := Some x)) (lnext s) (Some x) (lhead s) xs q None"
      using seg_first(1) [OF q d] Cons by simp
    then have "seg (lprev ?s) (lnext ?s) (Some x) (lhead s) xs q None"
      using assms(2) by (simp add: f h relink_back_def seg_frame)
    moreover have "lprev ?s x = None" using out assms(2) Cons by (simp add: f h relink_back_def)
    ultimately show ?thesis
      using d out assms(2) h Cons by (auto simp: dlist_rep_def f(1,2)) (auto simp: f relink_back_def)
  qed
qed

lemma remove_rep:
  assumes "dlist_rep s xs" "x \<in> set xs"
  shows "dlist_rep (DL_REMOVE x s) (remove1 x xs)"
proof -
  let ?s = "DL_REMOVE x s"
  from assms(2) obtain as bs where xs: "xs = as @ x # bs" by (meson split_list)
  obtain q where q: "seg (lprev s) (lnext s) None (lhead s) (as @ x # bs) q None"
    and d: "distinct (as @ x # bs)" and out: "\<forall>z. z \<notin> set xs \<longrightarrow> lnext s z = None \<and> lprev s z = None"
    using assms(1) by (auto simp: dlist_rep_def xs)
  note u = seg_unlink [OF q d]
  have r: "remove1 x xs = as @ bs" unfolding xs by (rule remove1_split [OF d])
  have ne: "as \<noteq> [] \<Longrightarrow> last as \<noteq> x" using d by auto
  have nn: "lnext s x \<noteq> Some x" using u(4) d by (cases bs) auto
  have f: "lhead ?s = (if as = [] then lnext s x else lhead s)"
    "lnext ?s = (if as = [] then lnext s else (lnext s)(last as := lnext s x))(x := None)"
    "lprev ?s = (relink_back (lnext s x) (lprev s x) (lprev s))(x := None)"
    using u(2,3) ne nn by (auto simp: DL_REMOVE_def Let_def relink_back_def split: option.splits)
  have "\<exists>q. seg (lprev ?s) (lnext ?s) None (lhead ?s) (as @ bs) q None"
    using u(1) d by (simp add: f seg_frame split: if_splits)
  moreover have "lnext ?s z = None \<and> lprev ?s z = None" if "z \<notin> set (as @ bs)" for z
  proof (cases "z = x")
    case True
    then show ?thesis by (simp add: f)
  next
    case False
    then have "z \<notin> set xs" using that xs by simp
    then have z: "lnext s z = None" "lprev s z = None" using out by auto
    have "as \<noteq> [] \<Longrightarrow> z \<noteq> last as" "bs \<noteq> [] \<Longrightarrow> z \<noteq> hd bs" using that by auto
    then show ?thesis using z False u(4) by (simp add: f relink_back_def)
  qed
  ultimately show ?thesis unfolding r using d by (simp add: dlist_rep_def)
qed

lemma remove_absent: "dlist_rep s xs \<Longrightarrow> x \<notin> set xs \<Longrightarrow> DL_REMOVE x s = s"
proof -
  assume a: "dlist_rep s xs" "x \<notin> set xs"
  then have o: "lnext s x = None" "lprev s x = None" by (auto simp: dlist_rep_def)
  have "lhead s \<noteq> Some x"
  proof (cases xs)
    case Nil
    with a show ?thesis by (auto simp: dlist_rep_def)
  next
    case (Cons t ts)
    with a show ?thesis by (auto simp: dlist_rep_def)
  qed
  with o show ?thesis by (simp add: DL_REMOVE_def Let_def fun_upd_idem)
qed

interpretation dl: safe_registry dlist_rep DL_PREPEND DL_REMOVE
proof
  show "dlist_rep s xs \<Longrightarrow> distinct xs" for s xs by (simp add: dlist_rep_def)
  show "dlist_rep s xs \<Longrightarrow> x \<notin> set xs \<Longrightarrow> dlist_rep (DL_REMOVE x s) xs" for s xs x
    using remove_absent by simp
qed (use prepend_rep remove_rep in blast)+

section \<open>The contract holds for both\<close>

text \<open>
  The head of the list of preserved objects is cell 0; the cells \<open>Rf_cons\<close> returns later are the
  others, so cell \<open>Suc n\<close> stands for its \<open>n\<close>.
\<close>

lemma map_Suc_remove1: "map Suc (remove1 x xs) = remove1 (Suc x) (map Suc xs)"
  by (induction xs) auto

definition precious_list :: "(nat \<Rightarrow> nat) \<Rightarrow> cells \<Rightarrow> nat list \<Rightarrow> bool" where
  "precious_list obj s ns \<longleftrightarrow> precious_rep obj s (map Suc ns)"

interpretation precious: registry "precious_list obj"
  "\<lambda>n. nano_PreserveObject (Suc n) (obj (Suc n))" "\<lambda>n. nano_ReleaseObject (Suc n)" for obj
proof
  fix s xs and x :: nat
  show "distinct xs" if "precious_list obj s xs"
    using that by (simp add: precious_list_def precious_rep_def distinct_map)
  show "precious_list obj (nano_PreserveObject (Suc x) (obj (Suc x)) s) (x # xs)"
    if "precious_list obj s xs" "x \<notin> set xs"
    using preserve_rep [of obj s "map Suc xs" "Suc x"] that
    by (auto simp: precious_list_def nano_precious_def)
  show "precious_list obj (nano_ReleaseObject (Suc x) s) (remove1 x xs)"
    if "precious_list obj s xs" "x \<in> set xs"
    using release_rep [of obj s "map Suc xs" "Suc x"] that
    by (auto simp: precious_list_def map_Suc_remove1)
qed

text \<open>
  R objects are kept alive exactly as long as they are registered. Starting from the empty
  list, preserve any distinct cells and release any of them, each once and in any order (the
  order in which promises happen to resolve): a cell still holds its object if and only if it
  was not released, so no release ever drops another caller's object or leaves one behind.
\<close>

theorem preserved_until_released:
  assumes "precious_list obj s []" "distinct ns" "distinct ms" "set ms \<subseteq> set ns"
  shows "tag (fold (\<lambda>n. nano_ReleaseObject (Suc n)) ms
          (fold (\<lambda>n. nano_PreserveObject (Suc n) (obj (Suc n))) (rev ns) s)) (Suc n)
       = (if n \<in> set ns - set ms then Some (obj (Suc n)) else None)"
proof -
  from precious.add_then_rem [OF assms] obtain xs where
    "precious_list obj (fold (\<lambda>n. nano_ReleaseObject (Suc n)) ms
          (fold (\<lambda>n. nano_PreserveObject (Suc n) (obj (Suc n))) (rev ns) s)) xs" "set xs = set ns - set ms"
    by blast
  then show ?thesis by (auto simp: precious_list_def precious_rep_def)
qed

theorem preserved_until_released_witness:
  "tag (fold (\<lambda>n. nano_ReleaseObject (Suc n)) [7, 9]
      (fold (\<lambda>n. nano_PreserveObject (Suc n) (Suc n)) (rev [9, 8, 7])
        \<lparr>car = (\<lambda>_. None), cdr = (\<lambda>_. None), tag = (\<lambda>_. None)\<rparr>)) 9 = Some 9"
proof -
  have e: "precious_list (\<lambda>x. x) \<lparr>car = (\<lambda>_. None), cdr = (\<lambda>_. None), tag = (\<lambda>_. None)\<rparr> []"
    by (simp add: precious_list_def precious_rep_def)
  show ?thesis
    using preserved_until_released [OF e, of "[9, 8, 7]" "[7, 9]" 8] by simp
qed

text \<open>
  The connection and request lists of the server never lose or duplicate a node. After
  prepending distinct nodes and removing any of them in any order, following the links from the
  head visits exactly the nodes not removed, each once; removing a node that is no longer in
  the list changes nothing, which is what makes the two paths that both remove a connection
  (its own close and the server's shutdown) safe in either order.
\<close>

theorem dlist_prepend_remove:
  assumes "dlist_rep s []" "distinct ns" "distinct ms" "set ms \<subseteq> set ns" "x \<in> set ms"
  defines "s' \<equiv> fold DL_REMOVE ms (fold DL_PREPEND (rev ns) s)"
  shows "(\<exists>xs. dlist_rep s' xs \<and> set xs = set ns - set ms) \<and> DL_REMOVE x s' = s'"
proof -
  from dl.add_then_rem [OF assms(1-4)] obtain xs where xs: "dlist_rep s' xs" "set xs = set ns - set ms"
    unfolding s'_def by blast
  then have "x \<notin> set xs" using assms(5) by simp
  with xs remove_absent show ?thesis by blast
qed

theorem dlist_prepend_remove_witness:
  "DL_REMOVE 2 (fold DL_REMOVE [2, 3] (fold DL_PREPEND (rev [3, 2, 1])
      \<lparr>lhead = None, lnext = (\<lambda>_. None), lprev = (\<lambda>_. None)\<rparr>))
   = fold DL_REMOVE [2, 3] (fold DL_PREPEND (rev [3, 2, 1])
      \<lparr>lhead = None, lnext = (\<lambda>_. None), lprev = (\<lambda>_. None)\<rparr>)"
  using dlist_prepend_remove [of "\<lparr>lhead = None, lnext = (\<lambda>_. None), lprev = (\<lambda>_. None)\<rparr>"
      "[3, 2, 1]" "[2, 3]" 2]
  by (simp add: dlist_rep_def)

end
