(* ===== verification/SendList.thy ===== *)
theory SendList
  imports Prelude
begin

text \<open>
  \<open>nano_list_do\<close> of \<^verbatim>\<open>aio.c\<close>: who frees a send aio. The R finalizer and the NNG completion
  callback each come once, in either order and on different threads. Whoever comes second is
  responsible, but the callback must not free the aio it runs on: it puts it on a list that
  the next finalizer, or the shutdown, empties. The mutex makes each operation one step.
\<close>

datatype nano_list_op = INIT | FINALIZE nat | COMPLETE nat | FREE | SHUTDOWN

text \<open>
  \<open>marked p\<close> is \<open>saio->mode == 0x1\<close>; \<open>freed\<close> records each \<open>nng_aio_free\<close> with the \<open>free\<close> of
  the structure that goes with it.
\<close>

record send_list =
  marked :: "nat \<Rightarrow> bool"
  free_list :: "nat list"
  free_mtx :: bool
  freed :: "nat list"

definition list_free :: "send_list \<Rightarrow> send_list" where
  "list_free s = s\<lparr>freed := freed s @ free_list s, free_list := []\<rparr>"

definition nano_list_do :: "nano_list_op \<Rightarrow> send_list \<Rightarrow> send_list" where
  "nano_list_do listop s =
     (case listop of
        INIT \<Rightarrow> s\<lparr>free_mtx := True\<rparr>
      | FINALIZE p \<Rightarrow>
          (let s1 = list_free s in
           if marked s1 p then s1\<lparr>freed := freed s1 @ [p]\<rparr>
           else s1\<lparr>marked := (marked s1)(p := True)\<rparr>)
      | COMPLETE p \<Rightarrow>
          (if marked s p then s\<lparr>free_list := p # free_list s\<rparr>
           else s\<lparr>marked := (marked s)(p := True)\<rparr>)
      | SHUTDOWN \<Rightarrow> if free_mtx s then (list_free s)\<lparr>free_mtx := False\<rparr> else s
      | FREE \<Rightarrow> list_free s)"

definition list_start :: send_list where
  "list_start = nano_list_do INIT \<lparr>marked = (\<lambda>_. False), free_list = [], free_mtx = False, freed = []\<rparr>"

section \<open>The protocol\<close>

text \<open>The aios whose two parties have both come.\<close>

definition both :: "nano_list_op list \<Rightarrow> nat set" where
  "both evs = {p. FINALIZE p \<in> set evs \<and> COMPLETE p \<in> set evs}"

definition party :: "nano_list_op \<Rightarrow> bool" where
  "party e \<longleftrightarrow> (\<exists>p. e = FINALIZE p \<or> e = COMPLETE p)"

definition list_inv :: "nano_list_op list \<Rightarrow> send_list \<Rightarrow> bool" where
  "list_inv evs s \<longleftrightarrow> distinct (freed s @ free_list s) \<and> set (freed s @ free_list s) = both evs
     \<and> (\<forall>p. marked s p \<longleftrightarrow> FINALIZE p \<in> set evs \<or> COMPLETE p \<in> set evs) \<and> free_mtx s"

lemma list_inv_free: "list_inv evs s \<Longrightarrow> list_inv evs (list_free s)"
  by (auto simp: list_inv_def list_free_def)

lemma list_inv_start: "list_inv [] list_start"
  by (simp add: list_inv_def list_start_def nano_list_do_def both_def)

lemma list_inv_step:
  assumes "list_inv evs s" "party e" "e \<notin> set evs"
  shows "list_inv (evs @ [e]) (nano_list_do e s)"
proof -
  from assms(2) obtain p where "e = FINALIZE p \<or> e = COMPLETE p" by (auto simp: party_def)
  then show ?thesis
  proof
    assume e: "e = FINALIZE p"
    have b: "both (evs @ [e]) = (if COMPLETE p \<in> set evs then insert p (both evs) else both evs)"
      by (auto simp: both_def e)
    have n: "p \<notin> both evs" using assms(3) by (simp add: both_def e)
    have i: "list_inv evs (list_free s)" using assms(1) by (rule list_inv_free)
    show ?thesis
      using i n b assms(3) e by (auto simp: list_inv_def nano_list_do_def Let_def e)
  next
    assume e: "e = COMPLETE p"
    have b: "both (evs @ [e]) = (if FINALIZE p \<in> set evs then insert p (both evs) else both evs)"
      by (auto simp: both_def e)
    have n: "p \<notin> both evs" using assms(3) by (simp add: both_def e)
    show ?thesis
      using assms(1,3) n b e by (auto simp: list_inv_def nano_list_do_def e)
  qed
qed

lemma list_inv_run:
  "distinct evs \<Longrightarrow> \<forall>e \<in> set evs. party e \<Longrightarrow> list_inv evs (fold nano_list_do evs list_start)"
proof (induction evs rule: rev_induct)
  case Nil
  then show ?case by (simp add: list_inv_start)
next
  case (snoc e evs)
  then show ?case using list_inv_step by simp
qed

text \<open>
  C27: in every interleaving of finalizers and completions of any number of sends, each party once
  per send, no aio is freed twice, none is freed before both its finalizer and its completion
  have run (so never under a callback still to come), and once the list is shut down exactly
  the aios both parties have left are freed: none leaks.
\<close>

theorem send_aio_freed_once:
  assumes "distinct evs" "\<forall>e \<in> set evs. party e"
  defines "s \<equiv> fold nano_list_do evs list_start"
  shows "distinct (freed s) \<and> set (freed s) \<subseteq> both evs
    \<and> distinct (freed (nano_list_do SHUTDOWN s)) \<and> set (freed (nano_list_do SHUTDOWN s)) = both evs"
  using list_inv_run [OF assms(1,2)]
  by (auto simp: s_def list_inv_def nano_list_do_def list_free_def)

theorem send_aio_freed_once_witness:
  "set (freed (nano_list_do SHUTDOWN (fold nano_list_do
      [COMPLETE 1, FINALIZE 2, FINALIZE 1, COMPLETE 2, COMPLETE 3] list_start))) = {1, 2}"
proof -
  have b: "both [COMPLETE 1, FINALIZE 2, FINALIZE 1, COMPLETE 2, COMPLETE 3] = {1, 2}"
    by (auto simp: both_def)
  show ?thesis
    using send_aio_freed_once [of "[COMPLETE 1, FINALIZE 2, FINALIZE 1, COMPLETE 2, COMPLETE 3]"]
    unfolding b by (simp add: party_def)
qed

end
