(* ===== verification/Effects.thy ===== *)
theory Effects
  imports Prelude
begin

text \<open>
  Traces of effects. A C function that allocates, calls NNG and may fail half way is modelled by
  the list of what it does, in order, together with its result. \<open>Acq\<close> is a successful allocation,
  \<open>Rel\<close> a free, \<open>Move\<close> a hand-over to another owner (a message given to an aio, a buffer installed
  in a message); frees of \<open>NULL\<close> do nothing and leave no trace. \<open>settle\<close> follows the objects the
  function owns; it fails on a double free and on the free of something never allocated.
\<close>

datatype ('o, 'e) effect = Acq 'o | Rel 'o | Move 'o | Do 'e

fun settle :: "('o, 'e) effect list \<Rightarrow> 'o list \<Rightarrow> 'o list option" where
  "settle [] live = Some live"
| "settle (Acq x # es) live = settle es (x # live)"
| "settle (Rel x # es) live = (if x \<in> set live then settle es (remove1 x live) else None)"
| "settle (Move x # es) live = (if x \<in> set live then settle es (remove1 x live) else None)"
| "settle (Do e # es) live = settle es live"

lemma settle_append [simp]: "settle (es @ fs) live = Option.bind (settle es live) (settle fs)"
  by (induction es live rule: settle.induct) auto

text \<open>The trace leaves exactly the objects \<open>xs\<close> to its owner: no leak, no double free.\<close>

definition owns :: "('o, 'e) effect list \<Rightarrow> 'o list \<Rightarrow> bool" where
  "owns es xs \<longleftrightarrow> (case settle es [] of None \<Rightarrow> False | Some live \<Rightarrow> mset live = mset xs)"

text \<open>What is asked of NNG and R, in order.\<close>

fun calls_of :: "('o, 'e) effect list \<Rightarrow> 'e list" where
  "calls_of [] = []"
| "calls_of (Do e # es) = e # calls_of es"
| "calls_of (_ # es) = calls_of es"

lemma calls_of_append [simp]: "calls_of (es @ fs) = calls_of es @ calls_of fs"
  by (induction es rule: calls_of.induct) auto

text \<open>
  The result of an entry point: an R object; a failure with a code, as an error value or an R error,
  whichever the function makes of it; or an R error with a message.
\<close>

datatype 'a entry = Made 'a | Failed int | Raise string

text \<open>The error codes that the code looks at or returns itself.\<close>

definition NNG_ENOMEM :: int where "NNG_ENOMEM = 2"
definition NNG_EINVAL :: int where "NNG_EINVAL = 3"
definition NNG_EBUSY :: int where "NNG_EBUSY = 4"
definition NNG_ECLOSED :: int where "NNG_ECLOSED = 7"
definition NNG_EAGAIN :: int where "NNG_EAGAIN = 8"
definition NNG_ENOENT :: int where "NNG_ENOENT = 12"
definition NNG_EMSGSIZE :: int where "NNG_EMSGSIZE = 17"
definition NNG_ECANCELED :: int where "NNG_ECANCELED = 20"
definition NNG_EBADTYPE :: int where "NNG_EBADTYPE = 30"

end
