(* ===== verification/Aio.thy ===== *)
theory Aio
  imports Codec
begin

text \<open>
  Asynchronous results (\<^verbatim>\<open>aio.c\<close>, and \<open>request_complete\<close> of \<^verbatim>\<open>sync.c\<close>): what each NNG completion
  callback records, and how R reads it: \<open>rnng_aio_get_msg\<close>, \<open>rnng_aio_result\<close>, waiting,
  collecting, \<open>unresolved\<close> and racing. An R aio is the environment together with the
  \<open>nano_aio\<close> structure and the condition variable it may signal.
\<close>

section \<open>State\<close>

datatype nano_aio_typ =
    SENDAIO | RECVAIO | REQAIO | IOV_SENDAIO | IOV_RECVAIO | HTTP_AIO | RECVAIOS | REQAIOS | IOV_RECVAIOS

text \<open>
  \<open>a_result\<close> is 0 until the callback has run, then positive for an error and negative for
  success. \<open>a_data\<close> is the received message or the receive buffer (\<open>None\<close> is \<open>NULL\<close>), \<open>a_cb\<close> the
  preserved node of a promise. \<open>a_busy\<close> and \<open>a_count\<close> are what \<open>nng_aio_busy\<close> and
  \<open>nng_aio_count\<close> answer.
\<close>

record nano_aio =
  a_type :: nano_aio_typ
  a_mode :: byte
  a_result :: int
  a_data :: "byte list option"
  a_cb :: "nat option"
  a_busy :: bool
  a_count :: nat

record nano_cv =
  condition :: int
  flag :: int

text \<open>What R sees: a decoded object, an error value, the integer 0, or the unresolved logical.\<close>

datatype aval = Val decoded | ErrVal int | NanoSuccess | NanoUnresolved

text \<open>The binding of \<open>nano_AioSymbol\<close>: the live external pointer, or what replaced it.\<close>

datatype aio_slot = AioPtr | AioPipe int | AioSuccess | AioNull

record aio_obj =
  e_value :: "aval option"
  e_aio :: aio_slot
  o_aio :: nano_aio
  o_cv :: "nano_cv option"
  o_posted :: "nat list"
  o_msg_frees :: nat

section \<open>Completion callbacks\<close>

text \<open>
  Under the mutex of the condition variable when there is one: record the result, read the
  promise, count the signal; then post the promise to the event loop.
\<close>

definition complete_with :: "int \<Rightarrow> aio_obj \<Rightarrow> aio_obj" where
  "complete_with res x =
     x\<lparr>o_aio := (o_aio x)\<lparr>a_result := res, a_busy := False\<rparr>,
       o_cv := map_option (\<lambda>cv. cv\<lparr>condition := condition cv + 1\<rparr>) (o_cv x),
       o_posted := o_posted x @ (case a_cb (o_aio x) of None \<Rightarrow> [] | Some node \<Rightarrow> [node])\<rparr>"

text \<open>A receive: NNG's result, and on success the message with the pipe it came by.\<close>

definition raio_complete :: "int \<Rightarrow> int \<Rightarrow> byte list \<Rightarrow> aio_obj \<Rightarrow> aio_obj" where
  "raio_complete res pipe msg x =
     (if res = 0
      then complete_with (- pipe) (x\<lparr>o_aio := (o_aio x)\<lparr>a_data := Some msg\<rparr>\<rparr>)
      else complete_with res x)"

text \<open>The same without a condition variable; the flag is whether R is interrupted.\<close>

definition raio_complete_interrupt :: "int \<Rightarrow> int \<Rightarrow> byte list \<Rightarrow> aio_obj \<Rightarrow> aio_obj \<times> bool" where
  "raio_complete_interrupt res pipe msg x =
     (let r = (if res = 0 then - pipe else res);
          x1 = (if res = 0 then x\<lparr>o_aio := (o_aio x)\<lparr>a_data := Some msg\<rparr>\<rparr> else x);
          x2 = x1\<lparr>o_aio := (o_aio x1)\<lparr>a_result := r, a_busy := False\<rparr>,
                  o_posted := o_posted x1 @ (case a_cb (o_aio x1) of None \<Rightarrow> [] | Some node \<Rightarrow> [node])\<rparr>
      in (x2, r \<le> 0))"

text \<open>A stream receive into a buffer: \<open>res - !res\<close>.\<close>

definition iraio_complete :: "int \<Rightarrow> nat \<Rightarrow> byte list \<Rightarrow> aio_obj \<Rightarrow> aio_obj" where
  "iraio_complete res n buf x =
     complete_with (res - (if res = 0 then 1 else 0))
       (x\<lparr>o_aio := (o_aio x)\<lparr>a_count := n, a_data := Some buf\<rparr>\<rparr>)"

text \<open>Sends: an unsent message is freed; \<open>nano_list_do (COMPLETE)\<close> is in \<open>SendList\<close>.\<close>

definition saio_complete :: "int \<Rightarrow> aio_obj \<Rightarrow> aio_obj" where
  "saio_complete res x =
     x\<lparr>o_aio := (o_aio x)\<lparr>a_result := res - (if res = 0 then 1 else 0), a_busy := False\<rparr>,
       o_msg_frees := o_msg_frees x + (if res \<noteq> 0 then 1 else 0)\<rparr>"

definition isaio_complete :: "int \<Rightarrow> aio_obj \<Rightarrow> aio_obj" where
  "isaio_complete res x =
     x\<lparr>o_aio := (o_aio x)\<lparr>a_result := res - (if res = 0 then 1 else 0), a_busy := False\<rparr>\<rparr>"

section \<open>Reading the result\<close>

definition mk_error_aio :: "int \<Rightarrow> aio_obj \<Rightarrow> aval \<times> aio_obj" where
  "mk_error_aio xc x = (ErrVal xc, x\<lparr>e_value := Some (ErrVal xc), e_aio := AioSuccess\<rparr>)"

definition create_aio_result :: "aio_obj \<Rightarrow> aval \<times> aio_obj" where
  "create_aio_result x =
     (if a_result (o_aio x) > 0 then mk_error_aio (a_result (o_aio x)) x
      else (NanoSuccess, x\<lparr>e_value := Some NanoSuccess, e_aio := AioNull\<rparr>))"

text \<open>
  \<open>decode buf mode\<close> is \<open>nano_decode\<close>. The received bytes are consumed: the buffer or message is
  freed and the pointer cleared.
\<close>

definition create_aio_msg :: "(byte list \<Rightarrow> byte \<Rightarrow> decoded) \<Rightarrow> int \<Rightarrow> aio_obj \<Rightarrow> aval \<times> aio_obj" where
  "create_aio_msg decode res x =
     (let a = o_aio x;
          buf = (if a_type a = IOV_RECVAIO \<or> a_type a = IOV_RECVAIOS
                 then take (a_count a) (the (a_data a)) else the (a_data a));
          out = Val (decode buf (a_mode a))
      in (out, x\<lparr>e_value := Some out, e_aio := AioPipe (- res),
                 o_aio := a\<lparr>a_data := None\<rparr>, o_msg_frees := o_msg_frees x + 1\<rparr>))"

definition nano_aio_result :: "aio_obj \<Rightarrow> aval \<times> aio_obj" where
  "nano_aio_result x = (case e_value x of Some v \<Rightarrow> (v, x) | None \<Rightarrow> create_aio_result x)"

definition recv_type :: "nano_aio_typ \<Rightarrow> bool" where
  "recv_type t = (t \<in> {RECVAIO, REQAIO, IOV_RECVAIO, RECVAIOS, REQAIOS, IOV_RECVAIOS})"

definition nano_aio_get_msg :: "(byte list \<Rightarrow> byte \<Rightarrow> decoded) \<Rightarrow> aio_obj \<Rightarrow> aval \<times> aio_obj" where
  "nano_aio_get_msg decode x =
     (case e_value x of
        Some v \<Rightarrow> (v, x)
      | None \<Rightarrow>
          (let res = (if recv_type (a_type (o_aio x)) then a_result (o_aio x) else 0) in
           if res > 0 then mk_error_aio res x else create_aio_msg decode res x))"

definition rnng_aio_result :: "aio_obj \<Rightarrow> aval \<times> aio_obj" where
  "rnng_aio_result x =
     (case e_value x of
        Some v \<Rightarrow> (v, x)
      | None \<Rightarrow> if a_busy (o_aio x) then (NanoUnresolved, x) else create_aio_result x)"

text \<open>Without a condition variable NNG says whether the aio is done; with one, the result does.\<close>

definition rnng_aio_get_msg :: "(byte list \<Rightarrow> byte \<Rightarrow> decoded) \<Rightarrow> aio_obj \<Rightarrow> aval \<times> aio_obj" where
  "rnng_aio_get_msg decode x =
     (case e_value x of
        Some v \<Rightarrow> (v, x)
      | None \<Rightarrow>
          (let a = o_aio x in
           if a_type a \<in> {RECVAIO, REQAIO, IOV_RECVAIO} then
             (if a_busy a then (NanoUnresolved, x)
              else if a_result a > 0 then mk_error_aio (a_result a) x
              else create_aio_msg decode (a_result a) x)
           else if a_type a \<in> {RECVAIOS, REQAIOS, IOV_RECVAIOS} then
             (if a_result a = 0 then (NanoUnresolved, x)
              else if a_result a > 0 then mk_error_aio (a_result a) x
              else create_aio_msg decode (a_result a) x)
           else create_aio_msg decode 0 x))"

text \<open>The finalizer of a receive frees what has not been consumed.\<close>

definition raio_finalizer :: "aio_obj \<Rightarrow> aio_obj" where
  "raio_finalizer x =
     (case a_data (o_aio x) of
        None \<Rightarrow> x
      | Some _ \<Rightarrow> x\<lparr>o_aio := (o_aio x)\<lparr>a_data := None\<rparr>, o_msg_frees := o_msg_frees x + 1\<rparr>)"

section \<open>Operations on R objects\<close>

text \<open>An R argument: an aio, a list of arguments, a logical (is it the unresolved one?), another type.\<close>

datatype robj = REnv aio_obj | RList "robj list" | RLgl bool | ROther

text \<open>
  \<open>wait\<close> is \<open>nng_aio_wait\<close> with the callback it waits for; \<open>http\<close> is \<open>nano_aio_http_status\<close> of
  \<^verbatim>\<open>ncurl.c\<close>, applied to the environment.
\<close>

definition aio_call1 ::
  "(byte list \<Rightarrow> byte \<Rightarrow> decoded) \<Rightarrow> (aio_obj \<Rightarrow> aval \<times> aio_obj) \<Rightarrow> (aio_obj \<Rightarrow> aio_obj) \<Rightarrow> aio_obj \<Rightarrow> aio_obj" where
  "aio_call1 decode http wait x =
     (if e_aio x \<noteq> AioPtr then x
      else
        (let x1 = wait x in
         if recv_type (a_type (o_aio x1)) then snd (nano_aio_get_msg decode x1)
         else if a_type (o_aio x1) = HTTP_AIO then snd (http x1)
         else snd (nano_aio_result x1)))"

fun rnng_aio_call ::
  "(byte list \<Rightarrow> byte \<Rightarrow> decoded) \<Rightarrow> (aio_obj \<Rightarrow> aval \<times> aio_obj) \<Rightarrow> (aio_obj \<Rightarrow> aio_obj) \<Rightarrow> robj \<Rightarrow> robj" where
  "rnng_aio_call decode http wait (REnv x) = REnv (aio_call1 decode http wait x)"
| "rnng_aio_call decode http wait (RList xs) = RList (map (rnng_aio_call decode http wait) xs)"
| "rnng_aio_call decode http wait x = x"

text \<open>
  Collecting: \<open>func\<close> waits for each element and returns it; the values in order, or the error as
  soon as one is not an environment with a value. Elements already waited for stay changed.
\<close>

definition value_of :: "robj \<Rightarrow> aval option" where
  "value_of y = (case y of REnv x \<Rightarrow> e_value x | _ \<Rightarrow> None)"

datatype collected = Collected1 aval | CollectedList "aval list"

definition collect_error :: r_error where
  "collect_error = RError ''object is not an Aio or list of Aios''"

fun collect_list :: "(robj \<Rightarrow> robj) \<Rightarrow> robj list \<Rightarrow> aval list option \<times> robj list" where
  "collect_list func [] = (Some [], [])"
| "collect_list func (x # xs) =
     (let env = func x in
      case value_of env of
        None \<Rightarrow> (None, env # xs)
      | Some v \<Rightarrow> (let (vs, xs') = collect_list func xs in (map_option ((#) v) vs, env # xs')))"

definition rnng_aio_collect_impl :: "(robj \<Rightarrow> robj) \<Rightarrow> robj \<Rightarrow> (r_error + collected) \<times> robj" where
  "rnng_aio_collect_impl func x =
     (case x of
        REnv _ \<Rightarrow>
          (let env = func x in
           (case value_of env of Some v \<Rightarrow> Inr (Collected1 v) | None \<Rightarrow> Inl collect_error, env))
      | RList xs \<Rightarrow>
          (let (vs, xs') = collect_list func xs in
           (case vs of Some vs \<Rightarrow> Inr (CollectedList vs) | None \<Rightarrow> Inl collect_error, RList xs'))
      | _ \<Rightarrow> (Inl collect_error, x))"

definition rnng_aio_collect ::
  "(byte list \<Rightarrow> byte \<Rightarrow> decoded) \<Rightarrow> (aio_obj \<Rightarrow> aval \<times> aio_obj) \<Rightarrow> (aio_obj \<Rightarrow> aio_obj) \<Rightarrow> robj \<Rightarrow>
     (r_error + collected) \<times> robj" where
  "rnng_aio_collect decode http wait = rnng_aio_collect_impl (rnng_aio_call decode http wait)"

text \<open>Asking whether something is unresolved reads it, so a finished aio is resolved on the way.\<close>

definition rnng_unresolved_impl ::
  "(byte list \<Rightarrow> byte \<Rightarrow> decoded) \<Rightarrow> (aio_obj \<Rightarrow> aval \<times> aio_obj) \<Rightarrow> robj \<Rightarrow> bool \<times> robj" where
  "rnng_unresolved_impl decode http x =
     (case x of
        REnv y \<Rightarrow>
          (if e_aio y \<noteq> AioPtr then (False, x)
           else
             (let (v, y') = (if a_type (o_aio y) \<in> {SENDAIO, IOV_SENDAIO} then rnng_aio_result y
                             else if a_type (o_aio y) = HTTP_AIO then http y
                             else rnng_aio_get_msg decode y)
              in (v = NanoUnresolved, REnv y')))
      | RLgl u \<Rightarrow> (u, x)
      | _ \<Rightarrow> (False, x))"

fun unresolved_list :: "(robj \<Rightarrow> bool \<times> robj) \<Rightarrow> robj list \<Rightarrow> bool \<times> robj list" where
  "unresolved_list f [] = (False, [])"
| "unresolved_list f (x # xs) =
     (let (u, x') = f x in
      if u then (True, x' # xs)
      else (let (u', xs') = unresolved_list f xs in (u', x' # xs')))"

definition rnng_unresolved ::
  "(byte list \<Rightarrow> byte \<Rightarrow> decoded) \<Rightarrow> (aio_obj \<Rightarrow> aval \<times> aio_obj) \<Rightarrow> robj \<Rightarrow> bool \<times> robj" where
  "rnng_unresolved decode http x =
     (case x of
        RList xs \<Rightarrow> (let (u, xs') = unresolved_list (rnng_unresolved_impl decode http) xs in (u, RList xs'))
      | _ \<Rightarrow> rnng_unresolved_impl decode http x)"

definition rnng_unresolved2_impl :: "robj \<Rightarrow> bool" where
  "rnng_unresolved2_impl x =
     (case x of REnv o' \<Rightarrow> if e_aio o' \<noteq> AioPtr then False else a_busy (o_aio o') | _ \<Rightarrow> False)"

definition rnng_unresolved2 :: "robj \<Rightarrow> nat" where
  "rnng_unresolved2 x =
     (case x of
        REnv _ \<Rightarrow> if rnng_unresolved2_impl x then 1 else 0
      | RList xs \<Rightarrow> length (filter rnng_unresolved2_impl xs)
      | _ \<Rightarrow> 0)"

section \<open>Racing\<close>

text \<open>
  The scan: the first resolved aio (1-based) ends it, elements that are not aios are skipped;
  otherwise 0, with the number of aios still to come.
\<close>

fun race_scan :: "nat \<Rightarrow> nat \<Rightarrow> robj list \<Rightarrow> nat \<times> nat" where
  "race_scan i n [] = (0, n)"
| "race_scan i n (x # xs) =
     (case x of
        REnv o' \<Rightarrow>
          if e_aio o' \<noteq> AioPtr \<or> a_result (o_aio o') \<noteq> 0 then (i + 1, n)
          else race_scan (i + 1) (n + 1) xs
      | _ \<Rightarrow> race_scan (i + 1) n xs)"

text \<open>
  The loop of \<open>rnng_race_aio\<close>: each element of the sequence is what the thread finds after a
  wait, the list and the flag of the condition variable. \<open>None\<close> is still waiting.
\<close>

fun race_loop :: "(robj list \<times> int) list \<Rightarrow> int \<Rightarrow> robj list \<Rightarrow> nat option" where
  "race_loop obs flg xs =
     (if flg < 0 then Some 0
      else
        (let idx = fst (race_scan 0 0 xs) in
         if idx \<noteq> 0 then Some idx
         else (case obs of [] \<Rightarrow> None | (xs', flg') # obs' \<Rightarrow> race_loop obs' flg' xs')))"

definition rnng_race_aio :: "(robj list \<times> int) list \<Rightarrow> robj \<Rightarrow> nano_cv option \<Rightarrow> nat option" where
  "rnng_race_aio obs x cvar =
     (case x of
        RList xs \<Rightarrow>
          (if xs = [] then Some 0
           else
             (let (idx, unresolved) = race_scan 0 0 xs in
              if idx \<noteq> 0 then Some idx
              else if unresolved = 0 then Some 0
              else (case cvar of None \<Rightarrow> Some 0 | Some cv \<Rightarrow> race_loop obs (flag cv) xs)))
      | _ \<Rightarrow> Some 0)"

end
