(* ===== verification/AioProps.thy ===== *)
theory AioProps
  imports Aio
begin

text \<open>
  The life of a receive aio: NNG completes it once, R reads it, waits for it, asks whether it is
  unresolved, any number of times and in any order, and finally collects it. The invariant
  \<open>recv_inv\<close> says what each field holds before and after the completion; the properties are
  read off it.
\<close>

section \<open>The life of a receive\<close>

definition iov :: "nano_aio_typ \<Rightarrow> bool" where
  "iov t \<longleftrightarrow> t = IOV_RECVAIO \<or> t = IOV_RECVAIOS"

definition signalled :: "nano_aio_typ \<Rightarrow> bool" where
  "signalled t \<longleftrightarrow> t = RECVAIOS \<or> t = REQAIOS \<or> t = IOV_RECVAIOS"

definition receives :: "nano_aio_typ \<Rightarrow> bool" where
  "receives t \<longleftrightarrow> t \<in> {RECVAIO, RECVAIOS, REQAIO, REQAIOS, IOV_RECVAIO, IOV_RECVAIOS}"

text \<open>
  The callback \<open>rnng_recv_aio\<close> registers for the type, with NNG's result, pipe and bytes. That of
  a request does the same to the aio (\<open>request_complete_finish\<close> in \<open>RequestProps\<close>).
\<close>

definition finish :: "int \<Rightarrow> int \<Rightarrow> byte list \<Rightarrow> aio_obj \<Rightarrow> aio_obj" where
  "finish res pipe m x =
     (if iov (a_type (o_aio x)) then iraio_complete res (length m) m x else raio_complete res pipe m x)"

datatype recv_ev = Done int int "byte list" | ReadData | CallAio | AskUnresolved

text \<open>A call waits, so it reads only a finished aio.\<close>

definition recv_step ::
  "(byte list \<Rightarrow> byte \<Rightarrow> decoded) \<Rightarrow> (aio_obj \<Rightarrow> aval \<times> aio_obj) \<Rightarrow> recv_ev \<Rightarrow> aio_obj \<Rightarrow> aio_obj" where
  "recv_step decode http ev x =
     (case ev of
        Done res pipe m \<Rightarrow> finish res pipe m x
      | ReadData \<Rightarrow> snd (rnng_aio_get_msg decode x)
      | CallAio \<Rightarrow> if a_busy (o_aio x) then x else aio_call1 decode http (\<lambda>y. y) x
      | AskUnresolved \<Rightarrow>
          (case rnng_unresolved_impl decode http (REnv x) of (_, REnv y) \<Rightarrow> y | _ \<Rightarrow> x))"

definition recv_fresh :: "nano_aio_typ \<Rightarrow> byte \<Rightarrow> byte list \<Rightarrow> nano_cv option \<Rightarrow> aio_obj" where
  "recv_fresh t md buf cv =
     \<lparr>e_value = None, e_aio = AioPtr,
      o_aio = \<lparr>a_type = t, a_mode = md, a_result = 0, a_data = (if iov t then Some buf else None),
               a_cb = None, a_busy = True, a_count = 0\<rparr>,
      o_cv = cv, o_posted = [], o_msg_frees = 0\<rparr>"

text \<open>The result field a completion leaves.\<close>

definition code :: "nano_aio_typ \<Rightarrow> int \<Rightarrow> int \<Rightarrow> int" where
  "code t res pipe = (if res \<noteq> 0 then res else if iov t then -1 else - pipe)"

text \<open>The value a completed receive resolves to.\<close>

definition outcome :: "(byte list \<Rightarrow> byte \<Rightarrow> decoded) \<Rightarrow> byte \<Rightarrow> int \<Rightarrow> byte list \<Rightarrow> aval" where
  "outcome decode md res m = (if res \<noteq> 0 then ErrVal res else Val (decode m md))"

fun recv_inv ::
  "(byte list \<Rightarrow> byte \<Rightarrow> decoded) \<Rightarrow> nano_aio_typ \<Rightarrow> byte \<Rightarrow> (int \<times> int \<times> byte list) option \<Rightarrow> aio_obj \<Rightarrow> bool" where
  "recv_inv decode t md None x \<longleftrightarrow>
     a_type (o_aio x) = t \<and> a_mode (o_aio x) = md \<and> e_value x = None \<and> e_aio x = AioPtr
     \<and> a_result (o_aio x) = 0 \<and> a_busy (o_aio x) \<and> (a_data (o_aio x) \<noteq> None) = iov t \<and> o_msg_frees x = 0"
| "recv_inv decode t md (Some (res, pipe, m)) x \<longleftrightarrow>
     a_type (o_aio x) = t \<and> a_mode (o_aio x) = md \<and> \<not> a_busy (o_aio x)
     \<and> a_result (o_aio x) = code t res pipe \<and> a_count (o_aio x) = (if iov t then length m else a_count (o_aio x))
     \<and> (if e_value x = None then e_aio x = AioPtr \<and> o_msg_frees x = 0
          \<and> a_data (o_aio x) = (if res = 0 \<or> iov t then Some m else None)
        else e_value x = Some (outcome decode md res m) \<and> e_aio x \<noteq> AioPtr
          \<and> (if res = 0 then a_data (o_aio x) = None \<and> o_msg_frees x = 1
             else (a_data (o_aio x) \<noteq> None) = iov t \<and> o_msg_frees x = 0))"

lemma recv_inv_fresh: "recv_inv decode t md None (recv_fresh t md buf cv)"
  by (simp add: recv_fresh_def)

lemma recv_inv_finish:
  assumes "receives t" "recv_inv decode t md None x"
  shows "recv_inv decode t md (Some (res, pipe, m)) (finish res pipe m x)"
  using assms by (auto simp: finish_def raio_complete_def iraio_complete_def complete_with_def
      code_def receives_def iov_def split: if_splits)

lemmas read_defs = create_aio_msg_def mk_error_aio_def Let_def

text \<open>Reading without asking whether the aio is done, as a call does after waiting.\<close>

lemma recv_inv_get_msg:
  assumes "receives t" "0 \<le> res" "0 \<le> pipe" "recv_inv decode t md (Some (res, pipe, m)) x"
  shows "recv_inv decode t md (Some (res, pipe, m)) (snd (nano_aio_get_msg decode x))"
    "fst (nano_aio_get_msg decode x) = outcome decode md res m"
    "e_value (snd (nano_aio_get_msg decode x)) = Some (outcome decode md res m)"
  using assms
  by (auto simp: nano_aio_get_msg_def read_defs recv_type_def receives_def iov_def code_def outcome_def
      split: if_splits option.splits)

text \<open>A completed receive the reader cannot see: it waits for a result that is not 0.\<close>

definition hidden :: "nano_aio_typ \<Rightarrow> int \<Rightarrow> int \<Rightarrow> bool" where
  "hidden t res pipe \<longleftrightarrow> (t = RECVAIOS \<or> t = REQAIOS) \<and> res = 0 \<and> pipe = 0"

lemma read_done:
  assumes "receives t" "0 \<le> res" "0 \<le> pipe" "recv_inv decode t md (Some (res, pipe, m)) x"
  shows "rnng_aio_get_msg decode x =
    (if e_value x = None \<and> hidden t res pipe then (NanoUnresolved, x) else nano_aio_get_msg decode x)"
  using assms
  by (auto simp: rnng_aio_get_msg_def nano_aio_get_msg_def Let_def recv_type_def receives_def iov_def
      code_def hidden_def split: if_splits option.splits)

lemma read_pending:
  "receives t \<Longrightarrow> recv_inv decode t md None x \<Longrightarrow> rnng_aio_get_msg decode x = (NanoUnresolved, x)"
  by (auto simp: rnng_aio_get_msg_def receives_def Let_def)

lemma recv_inv_read:
  assumes "receives t" "0 \<le> res" "0 \<le> pipe" "recv_inv decode t md (Some (res, pipe, m)) x"
  shows "recv_inv decode t md (Some (res, pipe, m)) (snd (rnng_aio_get_msg decode x))"
  using recv_inv_get_msg (1) [OF assms] assms(4) read_done [OF assms] by (auto simp del: recv_inv.simps)

section \<open>Every step keeps the invariant\<close>

fun done_ev :: "recv_ev \<Rightarrow> (int \<times> int \<times> byte list) option" where
  "done_ev (Done res pipe m) = Some (res, pipe, m)"
| "done_ev _ = None"

definition completions :: "recv_ev list \<Rightarrow> (int \<times> int \<times> byte list) list" where
  "completions evs = List.map_filter done_ev evs"

definition last_done :: "recv_ev list \<Rightarrow> (int \<times> int \<times> byte list) option" where
  "last_done evs = (if completions evs = [] then None else Some (last (completions evs)))"

text \<open>NNG runs the callback of an operation once, with a code and a pipe id that are not negative.\<close>

definition nng_once :: "recv_ev list \<Rightarrow> bool" where
  "nng_once evs \<longleftrightarrow> length (completions evs) \<le> 1
     \<and> list_all (\<lambda>(res, pipe, m). 0 \<le> res \<and> 0 \<le> pipe) (completions evs)"

lemma completions_snoc: "completions (evs @ [e]) = completions evs @ (case done_ev e of None \<Rightarrow> [] | Some d \<Rightarrow> [d])"
  by (simp add: completions_def List.map_filter_def split: option.splits)

lemma nng_once_snoc: "nng_once (evs @ [e]) \<Longrightarrow> nng_once evs"
  by (auto simp: nng_once_def completions_snoc)

lemma last_done_bounds:
  assumes "last_done evs = Some (res, pipe, m)" "nng_once evs"
  shows "0 \<le> res \<and> 0 \<le> pipe"
proof -
  have "(res, pipe, m) \<in> set (completions evs)"
    using assms(1) by (metis last_done_def last_in_set option.discI option.inject)
  then show ?thesis using assms(2) by (auto simp: nng_once_def list_all_iff)
qed

lemma recv_inv_quiet:
  assumes "receives t" "recv_inv decode t md d x" "done_ev e = None"
    and "\<And>res pipe m. d = Some (res, pipe, m) \<Longrightarrow> 0 \<le> res \<and> 0 \<le> pipe"
  shows "recv_inv decode t md d (recv_step decode http e x)"
proof (cases d)
  case None
  then have "\<not> a_type (o_aio x) \<in> {SENDAIO, IOV_SENDAIO}" "a_type (o_aio x) \<noteq> HTTP_AIO" "a_busy (o_aio x)"
    using assms(1,2) by (auto simp: receives_def)
  moreover have "rnng_aio_get_msg decode x = (NanoUnresolved, x)"
    using None assms(1,2) read_pending by blast
  ultimately show ?thesis using assms(2,3)
    by (cases e) (auto simp: recv_step_def rnng_unresolved_impl_def Let_def simp del: recv_inv.simps)
next
  case (Some a)
  then obtain res pipe m where d: "d = Some (res, pipe, m)" by (cases a) auto
  have p: "0 \<le> res" "0 \<le> pipe" using assms(4) d by auto
  have i: "recv_inv decode t md (Some (res, pipe, m)) x" using assms(2) unfolding d .
  have t: "\<not> a_type (o_aio x) \<in> {SENDAIO, IOV_SENDAIO}" "a_type (o_aio x) \<noteq> HTTP_AIO" "recv_type (a_type (o_aio x))"
    using assms(1) i by (auto simp: receives_def recv_type_def)
  note r = recv_inv_read [OF assms(1) p i] recv_inv_get_msg (1) [OF assms(1) p i]
  show ?thesis
    using assms(3) r t i unfolding d
    by (cases e) (auto simp: recv_step_def rnng_unresolved_impl_def aio_call1_def Let_def split: prod.splits
        simp del: recv_inv.simps)
qed

lemma recv_inv_run:
  "receives t \<Longrightarrow> nng_once evs \<Longrightarrow>
   recv_inv decode t md (last_done evs) (fold (recv_step decode http) evs (recv_fresh t md buf cv))"
proof (induction evs rule: rev_induct)
  case Nil
  show ?case using recv_inv_fresh by (simp add: last_done_def completions_def List.map_filter_def)
next
  case (snoc e evs)
  define x where "x = fold (recv_step decode http) evs (recv_fresh t md buf cv)"
  have o1: "nng_once evs" using snoc.prems(2) by (rule nng_once_snoc)
  then have i: "recv_inv decode t md (last_done evs) x" using snoc by (simp add: x_def)
  show ?case
  proof (cases "done_ev e")
    case None
    then have l: "last_done (evs @ [e]) = last_done evs" by (simp add: last_done_def completions_snoc)
    have "0 \<le> res \<and> 0 \<le> pipe" if "last_done evs = Some (res, pipe, m)" for res pipe m
      using that o1 by (rule last_done_bounds)
    then show ?thesis using recv_inv_quiet [OF snoc.prems(1) i None] l by (simp add: x_def)
  next
    case (Some d)
    then obtain res pipe m where e: "e = Done res pipe m" by (cases e) auto
    have "last_done evs = None"
      using snoc.prems(2) Some by (auto simp: nng_once_def completions_snoc last_done_def)
    then have "recv_inv decode t md None x" using i by simp
    from recv_inv_finish [OF snoc.prems(1) this, of res pipe m]
    have "recv_inv decode t md (Some (res, pipe, m)) (recv_step decode http e x)"
      by (simp only: recv_step_def e recv_ev.case)
    moreover have "last_done (evs @ [e]) = Some (res, pipe, m)"
      using Some e by (simp add: last_done_def completions_snoc)
    ultimately show ?thesis by (simp add: x_def del: recv_inv.simps)
  qed
qed

section \<open>Properties of a receive\<close>

definition recv_run ::
  "(byte list \<Rightarrow> byte \<Rightarrow> decoded) \<Rightarrow> (aio_obj \<Rightarrow> aval \<times> aio_obj) \<Rightarrow> nano_aio_typ \<Rightarrow> byte \<Rightarrow> byte list \<Rightarrow>
     nano_cv option \<Rightarrow> recv_ev list \<Rightarrow> aio_obj" where
  "recv_run decode http t md buf cv evs = fold (recv_step decode http) evs (recv_fresh t md buf cv)"

text \<open>
  C8: a receive has one result. Whatever NNG and R do in whatever order, the value of a receive
  aio, once it has one, is the decoded message or the error of its single completion, and by the
  time the aio is finalized the received message (or the stream buffer) has been freed exactly
  once: by the first read that decodes it, or by the finalizer when nothing read it.
\<close>

theorem receive_consumed_once:
  fixes decode :: "byte list \<Rightarrow> byte \<Rightarrow> decoded" and http :: "aio_obj \<Rightarrow> aval \<times> aio_obj"
    and md :: byte and cv :: "nano_cv option" and buf :: "byte list"
  assumes "receives t" "nng_once evs"
  defines "x \<equiv> recv_run decode http t md buf cv evs"
  shows "e_value x \<in> {None} \<union> (\<lambda>(res, pipe, m). Some (outcome decode md res m)) ` set (completions evs)
    \<and> o_msg_frees (raio_finalizer x) =
        (if iov t \<or> list_ex (\<lambda>(res, pipe, m). res = 0) (completions evs) then 1 else 0)"
proof (cases "last_done evs")
  case None
  then show ?thesis
    using recv_inv_run [OF assms(1,2), of decode md http buf cv]
    by (auto simp: x_def recv_run_def raio_finalizer_def last_done_def split: if_splits option.splits)
next
  case (Some d)
  obtain res pipe m where d: "d = (res, pipe, m)" by (cases d) auto
  have c: "completions evs = [(res, pipe, m)]"
    using Some assms(2) d by (cases "completions evs") (auto simp: last_done_def nng_once_def)
  have "recv_inv decode t md (Some (res, pipe, m)) x"
    using recv_inv_run [OF assms(1,2), of decode md http buf cv] unfolding Some d x_def recv_run_def .
  then show ?thesis
    by (auto simp: c raio_finalizer_def split: option.splits if_splits)
qed

theorem receive_consumed_once_witness:
  "(let dec = (\<lambda>bs md. (RawSXP bs, False));
        x = recv_run dec (\<lambda>y. (NanoSuccess, y)) RECVAIO 8 [] None
              [ReadData, Done 0 7 [1, 2], AskUnresolved, ReadData, CallAio]
    in e_value x = Some (Val (RawSXP [1, 2], False)) \<and> o_msg_frees (raio_finalizer x) = 1)"
proof -
  have r: "receives RECVAIO" by (simp add: receives_def)
  have n: "nng_once [ReadData, Done 0 7 [1, 2], AskUnresolved, ReadData, CallAio]"
    by (simp add: nng_once_def completions_def List.map_filter_def)
  have v: "e_value (recv_run (\<lambda>bs md. (RawSXP bs, False)) (\<lambda>y. (NanoSuccess, y)) RECVAIO 8 [] None
     [ReadData, Done 0 7 [1, 2], AskUnresolved, ReadData, CallAio]) = Some (Val (RawSXP [1, 2], False))"
    by code_simp
  show ?thesis
    using receive_consumed_once [OF r n, of "\<lambda>bs md. (RawSXP bs, False)" "\<lambda>y. (NanoSuccess, y)" 8 "[]" None] v
    by (simp add: Let_def iov_def completions_def List.map_filter_def)
qed

text \<open>
  What a reader of \<open>$data\<close> sees. Before the completion it is unresolved; after it, it is the
  outcome of the completion, with one exception: a signalled message receive whose message came
  without a pipe (every WebSocket stream message) keeps the result code 0 and stays unresolved
  until something waits for it.
\<close>

theorem receive_visible_when_done:
  fixes decode :: "byte list \<Rightarrow> byte \<Rightarrow> decoded" and http :: "aio_obj \<Rightarrow> aval \<times> aio_obj"
    and md :: byte and cv :: "nano_cv option" and buf :: "byte list"
  assumes "receives t" "nng_once evs"
  defines "x \<equiv> recv_run decode http t md buf cv evs"
  shows "fst (rnng_aio_get_msg decode x) =
    (case last_done evs of
       None \<Rightarrow> NanoUnresolved
     | Some (res, pipe, m) \<Rightarrow>
         (if (t = RECVAIOS \<or> t = REQAIOS) \<and> res = 0 \<and> pipe = 0 \<and> e_value x = None then NanoUnresolved
          else outcome decode md res m))"
proof (cases "last_done evs")
  case None
  then show ?thesis
    using recv_inv_run [OF assms(1,2), of decode md http buf cv] read_pending [OF assms(1)]
    by (simp add: x_def recv_run_def del: recv_inv.simps)
next
  case (Some d)
  obtain res pipe m where d: "d = (res, pipe, m)" by (cases d) auto
  have i: "recv_inv decode t md (Some (res, pipe, m)) x"
    using recv_inv_run [OF assms(1,2), of decode md http buf cv] unfolding Some d x_def recv_run_def .
  have p: "0 \<le> res" "0 \<le> pipe" using last_done_bounds [OF _ assms(2)] Some d by auto
  show ?thesis
    using read_done [OF assms(1) p i] recv_inv_get_msg (2) [OF assms(1) p i]
    by (auto simp: Some d hidden_def simp del: recv_inv.simps)
qed

theorem receive_visible_when_done_witness:
  "fst (rnng_aio_get_msg (\<lambda>bs md. (RawSXP bs, False))
     (recv_run (\<lambda>bs md. (RawSXP bs, False)) (\<lambda>y. (NanoSuccess, y)) RECVAIOS 8 []
        (Some \<lparr>condition = 0, flag = 0\<rparr>) [Done 0 3 [5], AskUnresolved])) = Val (RawSXP [5], False)"
proof -
  have r: "receives RECVAIOS" by (simp add: receives_def)
  have n: "nng_once [Done 0 3 [5], AskUnresolved]" "last_done [Done 0 3 [5], AskUnresolved] = Some (0, 3, [5])"
    by (simp_all add: nng_once_def last_done_def completions_def List.map_filter_def)
  show ?thesis
    using receive_visible_when_done [OF r n(1)] by (simp add: n(2) outcome_def)
qed

text \<open>
  The exception as a fact of its own. A signalled receive on a WebSocket stream has its
  message, yet reading it and asking whether it is unresolved, however often, finds nothing and
  a race passes over it; waiting for it does deliver it.
\<close>

theorem stream_message_hidden:
  fixes decode :: "byte list \<Rightarrow> byte \<Rightarrow> decoded" and http :: "aio_obj \<Rightarrow> aval \<times> aio_obj"
    and md :: byte and cv :: "nano_cv" and m :: "byte list"
  assumes "set evs \<subseteq> {ReadData, AskUnresolved}"
  defines "x \<equiv> recv_run decode http RECVAIOS md [] (Some cv) (Done 0 0 m # evs)"
  shows "fst (rnng_aio_get_msg decode x) = NanoUnresolved
    \<and> fst (rnng_unresolved decode http (REnv x))
    \<and> race_scan 0 0 [REnv x] = (0, 1)
    \<and> e_value (aio_call1 decode http (\<lambda>y. y) x) = Some (Val (decode m md))"
proof -
  have f: "recv_step decode http e y = y"
    if "e \<in> {ReadData, AskUnresolved}" "rnng_aio_get_msg decode y = (NanoUnresolved, y)"
      "a_type (o_aio y) = RECVAIOS" for e y
    using that by (auto simp: recv_step_def rnng_unresolved_impl_def)
  define y where "y = finish 0 0 m (recv_fresh RECVAIOS md [] (Some cv))"
  have y: "rnng_aio_get_msg decode y = (NanoUnresolved, y)" "a_type (o_aio y) = RECVAIOS"
    "e_aio y = AioPtr" "a_result (o_aio y) = 0" "e_value y = None" "a_data (o_aio y) = Some m"
    "a_mode (o_aio y) = md"
    by (simp_all add: y_def finish_def recv_fresh_def iov_def raio_complete_def complete_with_def
        rnng_aio_get_msg_def)
  have "fold (recv_step decode http) evs y = y"
    using assms(1) by (induction evs) (auto simp: f y)
  then have "x = y" by (simp add: x_def recv_run_def recv_step_def y_def)
  then show ?thesis
    by (simp add: y rnng_unresolved_def rnng_unresolved_impl_def aio_call1_def recv_type_def
        nano_aio_get_msg_def create_aio_msg_def Let_def)
qed

theorem stream_message_hidden_witness:
  "fst (rnng_aio_get_msg (\<lambda>bs md. (RawSXP bs, False))
     (recv_run (\<lambda>bs md. (RawSXP bs, False)) (\<lambda>y. (NanoSuccess, y)) RECVAIOS 8 []
        (Some \<lparr>condition = 0, flag = 0\<rparr>) [Done 0 0 [5], ReadData, AskUnresolved])) = NanoUnresolved"
  using stream_message_hidden [of "[ReadData, AskUnresolved]"] by simp

section \<open>Races and collections\<close>

text \<open>What a scan counts as resolved.\<close>

definition resolved :: "robj \<Rightarrow> bool" where
  "resolved x = (case x of REnv y \<Rightarrow> e_aio y \<noteq> AioPtr \<or> a_result (o_aio y) \<noteq> 0 | _ \<Rightarrow> False)"

definition is_env :: "robj \<Rightarrow> bool" where
  "is_env x = (case x of REnv _ \<Rightarrow> True | _ \<Rightarrow> False)"

lemma resolved_simps [simp]:
  "resolved (REnv y) \<longleftrightarrow> e_aio y \<noteq> AioPtr \<or> a_result (o_aio y) \<noteq> 0"
  "\<not> resolved (RList xs)" "\<not> resolved (RLgl u)" "\<not> resolved ROther"
  "is_env (REnv y)" "\<not> is_env (RList xs)" "\<not> is_env (RLgl u)" "\<not> is_env ROther"
  by (simp_all add: resolved_def is_env_def)

lemma race_scan_find:
  "race_scan i n xs =
     (case find_idx resolved xs of
        Some k \<Rightarrow> (i + k + 1, n + length (filter is_env (take k xs)))
      | None \<Rightarrow> (0, n + length (filter is_env xs)))"
proof (induction xs arbitrary: i n)
  case (Cons x xs)
  show ?case by (cases x) (auto simp: Cons split: option.splits)
qed simp

definition race_pos :: "robj list \<Rightarrow> nat" where
  "race_pos xs = (case find_idx resolved xs of Some k \<Rightarrow> k + 1 | None \<Rightarrow> 0)"

lemma race_scan_pos: "fst (race_scan 0 0 xs) = race_pos xs"
  by (simp add: race_scan_find race_pos_def split: option.splits)

lemma race_pos_0: "race_pos xs = 0 \<longleftrightarrow> \<not> list_ex resolved xs"
proof -
  have "race_pos xs = 0 \<longleftrightarrow> find_idx resolved xs = None" by (simp add: race_pos_def split: option.splits)
  then show ?thesis by (simp add: find_idx_None_iff list_ex_iff)
qed

lemma race_pos_unresolved: "\<not> list_ex resolved xs \<Longrightarrow> race_pos xs = 0"
  by (simp add: race_pos_0)

lemma race_loop_find:
  "race_loop obs flg xs =
     (case find (\<lambda>(ys, f). f < 0 \<or> list_ex resolved ys) ((xs, flg) # obs) of
        None \<Rightarrow> None
      | Some (ys, f) \<Rightarrow> Some (if f < 0 then 0 else race_pos ys))"
proof (induction obs arbitrary: flg xs)
  case Nil
  show ?case by (auto simp: race_scan_pos race_pos_unresolved race_pos_0 Let_def)
next
  case (Cons o' obs)
  then show ?case by (cases o') (auto simp: race_scan_pos race_pos_unresolved race_pos_0 Let_def)
qed

text \<open>
  A race returns at the first look at which an aio of the list is resolved, with the position
  of the first such aio, and it returns 0 only when the flag of the condition variable was
  negative at that look; it goes on waiting exactly as long as neither is the case. (The very
  first look does not consult the flag.)
\<close>

theorem race_first_resolved:
  assumes "list_ex is_env xs"
  shows "rnng_race_aio obs (RList xs) (Some cv) =
    (if list_ex resolved xs then Some (race_pos xs)
     else (case find (\<lambda>(ys, f). f < 0 \<or> list_ex resolved ys) ((xs, flag cv) # obs) of
             None \<Rightarrow> None
           | Some (ys, f) \<Rightarrow> Some (if f < 0 then 0 else race_pos ys)))"
proof (cases "list_ex resolved xs")
  case True
  then have "race_pos xs \<noteq> 0" "xs \<noteq> []" by (auto simp: race_pos_0)
  moreover obtain n where "race_scan 0 0 xs = (race_pos xs, n)" using race_scan_pos [of xs] by (cases "race_scan 0 0 xs") auto
  ultimately show ?thesis using True by (simp add: rnng_race_aio_def)
next
  case False
  then have n: "find_idx resolved xs = None" by (simp add: find_idx_None_iff list_ex_iff)
  have "length (filter is_env xs) \<noteq> 0" "xs \<noteq> []" using assms by (auto simp: list_ex_iff filter_empty_conv)
  then show ?thesis using False
    by (simp add: rnng_race_aio_def race_scan_find [of 0 0 xs] n race_loop_find del: race_loop.simps)
qed

definition race_example :: "int \<Rightarrow> robj list" where
  "race_example r =
     [ROther, REnv (recv_fresh RECVAIOS 8 [] None),
      REnv (recv_fresh RECVAIOS 8 [] None\<lparr>o_aio := (o_aio (recv_fresh RECVAIOS 8 [] None))\<lparr>a_result := r\<rparr>\<rparr>)]"

theorem race_first_resolved_witness:
  "rnng_race_aio [(race_example 0, 0), (race_example (-5), 0)] (RList (race_example 0))
     (Some \<lparr>condition = 0, flag = 0\<rparr>) = Some 3"
proof -
  have e: "list_ex is_env (race_example 0)" by (simp add: race_example_def)
  show ?thesis
    unfolding race_first_resolved [OF e] by code_simp
qed

text \<open>What has to be true of an element for collecting to find the outcome \<open>(t, md, res, pipe, m)\<close>.\<close>

fun collectible ::
  "(byte list \<Rightarrow> byte \<Rightarrow> decoded) \<Rightarrow> (aio_obj \<Rightarrow> aio_obj) \<Rightarrow> robj \<Rightarrow>
     nano_aio_typ \<times> byte \<times> int \<times> int \<times> byte list \<Rightarrow> bool" where
  "collectible decode wait (REnv y) (t, md, res, pipe, m) \<longleftrightarrow>
     receives t \<and> 0 \<le> res \<and> 0 \<le> pipe
     \<and> recv_inv decode t md (Some (res, pipe, m)) (if e_aio y = AioPtr then wait y else y)"
| "collectible decode wait _ _ \<longleftrightarrow> False"

lemma call1_collectible:
  assumes "collectible decode wait x d" "\<And>y. \<not> a_busy (o_aio y) \<Longrightarrow> wait y = y"
  shows "value_of (rnng_aio_call decode http wait x) = Some (case d of (t, md, res, pipe, m) \<Rightarrow> outcome decode md res m)
    \<and> collectible decode wait (rnng_aio_call decode http wait x) d
    \<and> rnng_aio_call decode http wait (rnng_aio_call decode http wait x) = rnng_aio_call decode http wait x"
proof (cases x)
  case (REnv y)
  obtain t md res pipe m where d: "d = (t, md, res, pipe, m)" by (cases d) auto
  define z where "z = (if e_aio y = AioPtr then wait y else y)"
  have i: "receives t" "0 \<le> res" "0 \<le> pipe" "recv_inv decode t md (Some (res, pipe, m)) z"
    using assms(1) unfolding REnv d z_def collectible.simps by blast+
  note g = recv_inv_get_msg [OF i]
  have rt: "recv_type (a_type (o_aio z))" using i(1,4) by (auto simp: receives_def recv_type_def)
  define r where "r = (if e_aio y = AioPtr then snd (nano_aio_get_msg decode z) else y)"
  have c: "rnng_aio_call decode http wait x = REnv r"
    using rt by (cases "e_aio y = AioPtr") (simp_all add: REnv aio_call1_def Let_def r_def z_def)
  have ri: "recv_inv decode t md (Some (res, pipe, m)) r"
    using g(1) i(4) by (cases "e_aio y = AioPtr") (simp_all add: r_def z_def del: recv_inv.simps)
  have v: "e_value r = Some (outcome decode md res m)"
    using g(3) i(4) by (auto simp: r_def z_def split: if_splits)
  then have p: "e_aio r \<noteq> AioPtr" using ri by simp
  then have c2: "rnng_aio_call decode http wait (REnv r) = REnv r" by (simp add: aio_call1_def)
  have "collectible decode wait (REnv r) d"
    using ri p i(1-3) by (simp add: d del: recv_inv.simps)
  then show ?thesis using v c2 unfolding c by (simp add: d value_of_def del: recv_inv.simps rnng_aio_call.simps)
qed (use assms(1) in simp_all)

lemma collect_list_values:
  assumes "\<And>y. \<not> a_busy (o_aio y) \<Longrightarrow> wait y = y"
  shows "list_all2 (collectible decode wait) xs ds \<Longrightarrow>
    collect_list (rnng_aio_call decode http wait) xs =
      (Some (map (\<lambda>(t, md, res, pipe, m). outcome decode md res m) ds), map (rnng_aio_call decode http wait) xs)"
proof (induction rule: list_all2_induct)
  case (Cons x xs d ds)
  then show ?case using call1_collectible [OF Cons(1) assms] by (simp add: Let_def)
qed simp

text \<open>
  Collecting a list of receive aios gives their outcomes in the order of the list, whatever
  the order in which they complete and whether or not they have been read before, and collecting
  the same list again gives the same values.
\<close>

theorem collect_in_order:
  assumes "\<And>y. \<not> a_busy (o_aio y) \<Longrightarrow> wait y = y"
    and "list_all2 (collectible decode wait) xs ds"
  shows "(let (r, x') = rnng_aio_collect decode http wait (RList xs) in
    r = Inr (CollectedList (map (\<lambda>(t, md, res, pipe, m). outcome decode md res m) ds))
    \<and> fst (rnng_aio_collect decode http wait x') = r)"
proof -
  have "list_all2 (collectible decode wait) (map (rnng_aio_call decode http wait) xs) ds"
    using assms(2) call1_collectible [OF _ assms(1)] by (induction rule: list_all2_induct) auto
  then show ?thesis
    using collect_list_values [OF assms(1)] assms(2)
    by (simp add: rnng_aio_collect_def rnng_aio_collect_impl_def Let_def)
qed

definition collect_example :: "robj list" where
  "collect_example = map REnv
     [finish 0 4 [1] (recv_fresh RECVAIO 8 [] None),
      recv_run (\<lambda>bs md. (RawSXP bs, False)) (\<lambda>y. (NanoSuccess, y)) IOV_RECVAIO 8 [] None [Done 0 0 [2, 3], ReadData],
      finish 5 0 [] (recv_fresh RECVAIO 8 [] None)]"

theorem collect_in_order_witness:
  "fst (rnng_aio_collect (\<lambda>bs md. (RawSXP bs, False)) (\<lambda>y. (NanoSuccess, y)) (\<lambda>y. y) (RList collect_example))
    = Inr (CollectedList [Val (RawSXP [1], False), Val (RawSXP [2, 3], False), ErrVal 5])"
proof -
  have c: "list_all2 (collectible (\<lambda>bs md. (RawSXP bs, False)) (\<lambda>y. y)) collect_example
    [(RECVAIO, 8, 0, 4, [1]), (IOV_RECVAIO, 8, 0, 0, [2, 3]), (RECVAIO, 8, 5, 0, [])]"
    by code_simp
  show ?thesis
    using collect_in_order [OF _ c, of "\<lambda>y. (NanoSuccess, y)"]
    by (simp add: Let_def outcome_def split: prod.splits)
qed

end
