(* ===== verification/AioOps.thy ===== *)
theory AioOps
  imports Effects Aio Serial
begin

text \<open>
  How aios are created (\<open>rnng_send_aio\<close>, \<open>rnng_recv_aio\<close>, \<open>rnng_device_aio\<close> of \<^verbatim>\<open>aio.c\<close>) and
  stopped. Every allocation and every NNG call that can fail has its answer in \<open>answers\<close>; the
  functions return what they do in order and what they give back.
\<close>

section \<open>State\<close>

text \<open>The parts of \<open>nano_stream\<close> that sends and receives consult.\<close>

record nano_stream =
  bufsize :: nat
  textframes :: nat
  msgmode :: bool

text \<open>What the external pointer \<open>con\<close> is tagged as; \<open>BadCon\<close> is anything else, or a null pointer.\<close>

datatype connection = SocketCon | ContextCon | StreamCon nano_stream | BadCon

datatype aio_part = Buf | Aio | NngAio | Msg | Data

datatype aio_call =
    MsgBody "byte list" | MsgPipe i32 | Iov "byte list" u64 | Overrun
  | Timeout int | SockSend | CtxSend | StreamSend | SockRecv | CtxRecv | StreamRecv | DeviceStart
  | SendMsg bool bool | RecvMsg bool bool | AioWait
  | Finalizer string

text \<open>Zero is success.\<close>

record answers =
  an_buf :: bool
  an_calloc :: bool
  an_malloc :: bool
  an_msg :: int
  an_aio :: int
  an_iov :: int

datatype callback = SaioComplete | IsaioComplete | RaioComplete | RaioCompleteInterrupt | IraioComplete

record new_aio =
  n_type :: nano_aio_typ
  n_mode :: byte
  n_cb :: callback
  n_signals :: bool

type_synonym aio_effects = "(aio_part, aio_call) effect list"

definition NNG_DURATION_DEFAULT :: int where "NNG_DURATION_DEFAULT = - 2"

definition duration :: "int option \<Rightarrow> int" where
  "duration timeout = (case timeout of None \<Rightarrow> NNG_DURATION_DEFAULT | Some t \<Rightarrow> t)"

text \<open>\<open>mk_error_data\<close>: negative codes are errors of sends, and name the field accordingly.\<close>

definition mk_error_data :: "int \<Rightarrow> string \<times> string \<times> int" where
  "mk_error_data xc = (if xc < 0 then ''sendAio'' else ''recvAio'', if xc < 0 then ''result'' else ''data'', \<bar>xc\<bar>)"

section \<open>Buffers\<close>

definition buf_held :: "nano_buf \<Rightarrow> aio_effects" where
  "buf_held buf = (if nb_len buf \<noteq> 0 then [Acq Buf] else [])"

definition NANO_FREE :: "nano_buf \<Rightarrow> aio_effects" where
  "NANO_FREE buf = (if nb_len buf \<noteq> 0 then [Rel Buf] else [])"

text \<open>\<open>buf.cur - nst->textframes\<close> in \<open>size_t\<close>, and a copy of that many bytes from the buffer.\<close>

definition frame_len :: "nano_buf \<Rightarrow> nano_stream \<Rightarrow> u64" where
  "frame_len buf nst = of_nat (nb_cur buf) - of_nat (textframes nst)"

definition copy_body :: "u64 \<Rightarrow> nano_buf \<Rightarrow> aio_effects" where
  "copy_body xlen buf =
     (if unat xlen \<le> length (nb_buf buf) then [Do (MsgBody (take (unat xlen) (nb_buf buf)))] else [Do Overrun])"

section \<open>Sending\<close>

definition send_message ::
  "(nng_chunk \<Rightarrow> byte list \<Rightarrow> nng_chunk) \<Rightarrow> answers \<Rightarrow> bool \<Rightarrow> nat \<Rightarrow> nano_buf \<Rightarrow> int \<Rightarrow> i32 \<Rightarrow>
     aio_effects \<times> new_aio entry" where
  "send_message nng_msg_append an sock headroom buf dur pipe =
     (let pipeid = (if sock then pipe else 0) in
      if \<not> an_calloc an then (buf_held buf @ NANO_FREE buf, Failed (- 2))
      else if an_msg an \<noteq> 0 then
        (buf_held buf @ [Acq Aio] @ NANO_FREE buf @ [Rel Aio], Failed (- an_msg an))
      else if an_aio an \<noteq> 0 then
        (buf_held buf @ [Acq Aio, Acq Msg, Rel Msg] @ NANO_FREE buf @ [Rel Aio], Failed (- an_aio an))
      else
        (let empty = \<lparr>ch_cap = 0, ch_len = 0, ch_buf = [], ch_ptr = 0\<rparr>;
             (msg, buf') = nano_msg_set_body nng_msg_append empty buf headroom
         in (buf_held buf @ [Acq Aio, Acq Msg, Acq NngAio]
               @ (if nb_len buf \<noteq> nb_len buf' then [Move Buf] else [])
               @ [Do (MsgBody (chunk_body msg))]
               @ (if pipeid \<noteq> 0 then [Do (MsgPipe pipeid)] else [])
               @ [Move Msg, Do (Timeout dur), Do (if sock then SockSend else CtxSend)]
               @ NANO_FREE buf' @ [Do (Finalizer ''saio_finalizer'')],
             Made \<lparr>n_type = SENDAIO, n_mode = 0, n_cb = SaioComplete, n_signals = False\<rparr>)))"

definition send_stream :: "answers \<Rightarrow> nano_stream \<Rightarrow> nano_buf \<Rightarrow> int \<Rightarrow> aio_effects \<times> new_aio entry" where
  "send_stream an nst buf dur =
     (if \<not> an_calloc an then (buf_held buf @ NANO_FREE buf, Failed (- 2))
      else if msgmode nst then
        (let xlen = frame_len buf nst in
         if an_msg an \<noteq> 0 then
           (buf_held buf @ [Acq Aio] @ NANO_FREE buf @ [Rel Aio], Failed (- an_msg an))
         else if an_aio an \<noteq> 0 then
           (buf_held buf @ [Acq Aio, Acq Msg] @ copy_body xlen buf @ [Rel Msg] @ NANO_FREE buf @ [Rel Aio],
            Failed (- an_aio an))
         else
           (buf_held buf @ [Acq Aio, Acq Msg] @ copy_body xlen buf
              @ [Acq NngAio, Move Msg, Do (Timeout dur), Do StreamSend] @ NANO_FREE buf
              @ [Do (Finalizer ''saio_finalizer'')],
            Made \<lparr>n_type = SENDAIO, n_mode = 0, n_cb = SaioComplete, n_signals = False\<rparr>))
      else if \<not> an_malloc an then
        (buf_held buf @ [Acq Aio] @ NANO_FREE buf @ [Rel Aio], Failed (- 2))
      else if an_aio an \<noteq> 0 then
        (buf_held buf @ [Acq Aio, Acq Data, Rel Data] @ NANO_FREE buf @ [Rel Aio], Failed (- an_aio an))
      else if an_iov an \<noteq> 0 then
        (buf_held buf @ [Acq Aio, Acq Data, Acq NngAio, Rel NngAio, Rel Data] @ NANO_FREE buf @ [Rel Aio],
         Failed (- an_iov an))
      else
        (buf_held buf @ [Acq Aio, Acq Data, Acq NngAio, Do (Iov (encoded buf) (frame_len buf nst)),
           Do (Timeout dur), Do StreamSend] @ NANO_FREE buf @ [Do (Finalizer ''saio_finalizer'')],
         Made \<lparr>n_type = IOV_SENDAIO, n_mode = 0, n_cb = IsaioComplete, n_signals = False\<rparr>))"

text \<open>\<open>ser\<close> is \<open>nano_serialize\<close> of the data; \<open>an_buf\<close> answers the allocation of an encoding.\<close>

definition rnng_send_aio ::
  "(nng_chunk \<Rightarrow> byte list \<Rightarrow> nng_chunk) \<Rightarrow> (r_error + nano_buf) \<Rightarrow> answers \<Rightarrow> connection \<Rightarrow> sexp \<Rightarrow>
     mode_arg \<Rightarrow> int option \<Rightarrow> i32 \<Rightarrow> aio_effects \<times> new_aio entry" where
  "rnng_send_aio nng_msg_append ser an con data md timeout pipe =
     (let dur = duration timeout in
      case nano_encode_mode md of
        Inl (RError e) \<Rightarrow> ([], Raise e)
      | Inr raw \<Rightarrow>
          (if con = SocketCon \<or> con = ContextCon then
             (case (if raw \<noteq> 0 then nano_encode (an_buf an) data else ser) of
                Inl (RError e) \<Rightarrow> ([], Raise e)
              | Inr buf \<Rightarrow>
                  send_message nng_msg_append an (con = SocketCon) (if raw \<noteq> 0 then 0 else NANO_HEADROOM) buf dur pipe)
           else (case con of
               StreamCon nst \<Rightarrow>
                 (case nano_encode (an_buf an) data of
                    Inl (RError e) \<Rightarrow> ([], Raise e)
                  | Inr buf \<Rightarrow> send_stream an nst buf dur)
             | _ \<Rightarrow> ([], Raise ''`con` is not a valid Socket, Context, or Stream''))))"

text \<open>A device is a send aio without data; both sockets must be sockets.\<close>

definition rnng_device_aio :: "answers \<Rightarrow> connection \<Rightarrow> connection \<Rightarrow> aio_effects \<times> new_aio entry" where
  "rnng_device_aio an s1 s2 =
     (if s1 \<noteq> SocketCon then ([], Raise ''`s1` is not a valid Socket'')
      else if s2 \<noteq> SocketCon then ([], Raise ''`s2` is not a valid Socket'')
      else if \<not> an_calloc an then ([], Failed (- 2))
      else if an_aio an \<noteq> 0 then ([Acq Aio, Rel Aio], Failed (- an_aio an))
      else ([Acq Aio, Acq NngAio, Do DeviceStart, Do (Finalizer ''saio_finalizer'')],
            Made \<lparr>n_type = IOV_SENDAIO, n_mode = 0, n_cb = IsaioComplete, n_signals = False\<rparr>))"

section \<open>Receiving\<close>

text \<open>The argument \<open>cvar\<close>: a condition variable, a symbol (interrupt R), or neither.\<close>

datatype cv_arg = CvPtr | CvSymbol | CvNone

definition rnng_recv_aio ::
  "answers \<Rightarrow> connection \<Rightarrow> mode_arg \<Rightarrow> int option \<Rightarrow> cv_arg \<Rightarrow> aio_effects \<times> new_aio entry" where
  "rnng_recv_aio an con md timeout cvar =
     (let dur = duration timeout; signal = (cvar = CvPtr); interrupt = (cvar = CvSymbol) in
      if con = SocketCon \<or> con = ContextCon then
        (case nano_matcharg md of
           Inl (RError e) \<Rightarrow> ([], Raise e)
         | Inr mod' \<Rightarrow>
             (if \<not> an_calloc an then ([], Failed 2)
              else if an_aio an \<noteq> 0 then ([Acq Aio, Rel Aio], Failed (an_aio an))
              else ([Acq Aio, Acq NngAio, Do (Timeout dur), Do (if con = SocketCon then SockRecv else CtxRecv),
                     Do (Finalizer ''raio_finalizer'')],
                    Made \<lparr>n_type = (if signal then RECVAIOS else RECVAIO), n_mode = mod',
                          n_cb = (if interrupt then RaioCompleteInterrupt else RaioComplete),
                          n_signals = signal\<rparr>)))
      else (case con of
          StreamCon nst \<Rightarrow>
            (case nano_matcharg md of
               Inl (RError e) \<Rightarrow> ([], Raise e)
             | Inr mod0 \<Rightarrow>
                 (let mod' = (if mod0 = 1 then 2 else mod0) in
                  if \<not> an_calloc an then ([], Failed 2)
                  else if msgmode nst then
                    (if an_aio an \<noteq> 0 then ([Acq Aio, Rel Aio], Failed (an_aio an))
                     else ([Acq Aio, Acq NngAio, Do (Timeout dur), Do StreamRecv,
                            Do (Finalizer ''raio_finalizer'')],
                           Made \<lparr>n_type = (if signal then RECVAIOS else RECVAIO), n_mode = mod',
                                 n_cb = RaioComplete, n_signals = signal\<rparr>))
                  else if \<not> an_malloc an then ([Acq Aio, Rel Aio], Failed 2)
                  else if an_aio an \<noteq> 0 then ([Acq Aio, Acq Data, Rel Data, Rel Aio], Failed (an_aio an))
                  else if an_iov an \<noteq> 0 then
                    ([Acq Aio, Acq Data, Acq NngAio, Rel NngAio, Rel Data, Rel Aio], Failed (an_iov an))
                  else ([Acq Aio, Acq Data, Acq NngAio, Do (Iov [] (of_nat (bufsize nst))), Do (Timeout dur),
                         Do StreamRecv, Do (Finalizer ''iaio_finalizer'')],
                        Made \<lparr>n_type = (if signal then IOV_RECVAIOS else IOV_RECVAIO), n_mode = mod',
                              n_cb = IraioComplete, n_signals = signal\<rparr>)))
        | _ \<Rightarrow> ([], Raise ''`con` is not a valid Socket, Context or Stream'')))"

section \<open>Stopping\<close>

text \<open>\<open>stop\<close> is \<open>nng_aio_stop\<close>: it cancels what is pending and returns when the callback has run.\<close>

fun rnng_aio_stop :: "(aio_obj \<Rightarrow> aio_obj) \<Rightarrow> robj \<Rightarrow> robj" where
  "rnng_aio_stop stop (REnv x) = REnv (if e_aio x \<noteq> AioPtr then x else stop x)"
| "rnng_aio_stop stop (RList xs) = RList (map (rnng_aio_stop stop) xs)"
| "rnng_aio_stop stop x = x"

end
