(* ===== verification/AioLife.thy ===== *)
theory AioLife
  imports AioOps AioProps
begin

text \<open>
  Properties of created aios: what each entry point owns on every path, that type, callback and
  finalizer always agree, and a vector's way from \<open>rnng_send_aio\<close> to the reader at the other end.
\<close>

section \<open>Ownership\<close>

text \<open>What the external pointer owns, to be released by its finalizer.\<close>

definition parts :: "new_aio entry \<Rightarrow> bool \<Rightarrow> aio_part list" where
  "parts r data = (case r of Made c \<Rightarrow> [Aio, NngAio] @ (if data then [Data] else []) | _ \<Rightarrow> [])"

definition holds_data :: "new_aio entry \<Rightarrow> bool" where
  "holds_data r = (case r of Made c \<Rightarrow> n_type c \<in> {IOV_SENDAIO, IOV_RECVAIO, IOV_RECVAIOS} | _ \<Rightarrow> False)"

lemma owns_send_message:
  "owns (fst (send_message app an sock headroom buf dur pipe))
     (parts (snd (send_message app an sock headroom buf dur pipe)) False)"
  by (auto simp: send_message_def buf_held_def NANO_FREE_def owns_def parts_def nano_msg_set_body_def Let_def)

lemma owns_send_stream:
  "owns (fst (send_stream an nst buf dur))
     (parts (snd (send_stream an nst buf dur)) (holds_data (snd (send_stream an nst buf dur))))"
  by (auto simp: send_stream_def buf_held_def NANO_FREE_def copy_body_def owns_def parts_def holds_data_def Let_def)

lemma send_message_type: "\<not> holds_data (snd (send_message app an sock headroom buf dur pipe))"
  by (auto simp: send_message_def holds_data_def Let_def split: prod.splits)

lemma owns_nothing [simp]: "owns [] (parts (Raise e) b)"
  by (simp add: owns_def parts_def)

lemma owns_send:
  "owns (fst (rnng_send_aio app ser an con data md timeout pipe))
     (parts (snd (rnng_send_aio app ser an con data md timeout pipe))
        (holds_data (snd (rnng_send_aio app ser an con data md timeout pipe))))"
proof -
  have m: "owns (fst (send_message app an sock headroom buf dur pipe))
     (parts (snd (send_message app an sock headroom buf dur pipe))
        (holds_data (snd (send_message app an sock headroom buf dur pipe))))" for sock headroom buf dur
    using owns_send_message send_message_type by metis
  show ?thesis
    using m owns_send_stream
    by (auto simp: rnng_send_aio_def Let_def split: sum.splits r_error.splits connection.splits)
qed

lemma owns_recv:
  "owns (fst (rnng_recv_aio an con md timeout cvar))
     (parts (snd (rnng_recv_aio an con md timeout cvar)) (holds_data (snd (rnng_recv_aio an con md timeout cvar))))"
  by (auto simp: rnng_recv_aio_def owns_def parts_def holds_data_def Let_def
      split: sum.splits r_error.splits connection.splits)

text \<open>
  No path of the three functions that create aios leaks or frees twice. Whatever the
  connection, data and mode, and whichever allocation or NNG call fails, exactly the structure,
  its NNG aio and (for stream transfers) its data block are left, all owned by the R object, on
  success, and nothing is left on failure; a message or buffer handed over is not freed again.
\<close>

theorem aio_creation_accounts:
  "owns (fst (rnng_send_aio app ser an con data md timeout pipe))
     (parts (snd (rnng_send_aio app ser an con data md timeout pipe))
        (holds_data (snd (rnng_send_aio app ser an con data md timeout pipe))))
   \<and> owns (fst (rnng_recv_aio an con md timeout cvar))
       (parts (snd (rnng_recv_aio an con md timeout cvar))
          (holds_data (snd (rnng_recv_aio an con md timeout cvar))))
   \<and> owns (fst (rnng_device_aio an s1 s2)) (parts (snd (rnng_device_aio an s1 s2)) False)"
  using owns_send owns_recv
  by (auto simp: rnng_device_aio_def owns_def parts_def)

section \<open>Typing\<close>

text \<open>
  The structure is untyped in C: the \<open>type\<close> field decides how \<open>data\<close> is read. It must agree with
  the callback that writes it and the finalizer that frees it.
\<close>

fun aio_typed :: "nano_aio_typ \<Rightarrow> callback \<Rightarrow> string \<Rightarrow> bool" where
  "aio_typed SENDAIO cb fin = (cb = SaioComplete \<and> fin = ''saio_finalizer'')"
| "aio_typed IOV_SENDAIO cb fin = (cb = IsaioComplete \<and> fin = ''saio_finalizer'')"
| "aio_typed IOV_RECVAIO cb fin = (cb = IraioComplete \<and> fin = ''iaio_finalizer'')"
| "aio_typed IOV_RECVAIOS cb fin = (cb = IraioComplete \<and> fin = ''iaio_finalizer'')"
| "aio_typed RECVAIO cb fin = (cb \<in> {RaioComplete, RaioCompleteInterrupt} \<and> fin = ''raio_finalizer'')"
| "aio_typed RECVAIOS cb fin = (cb = RaioComplete \<and> fin = ''raio_finalizer'')"
| "aio_typed _ cb fin = False"

definition well_typed :: "aio_effects \<times> new_aio entry \<Rightarrow> bool" where
  "well_typed r =
     (case snd r of
        Made c \<Rightarrow>
          (case last (calls_of (fst r)) of
             Finalizer fin \<Rightarrow> aio_typed (n_type c) (n_cb c) fin \<and> n_signals c = signalled (n_type c)
           | _ \<Rightarrow> False)
      | _ \<Rightarrow> True)"

lemma typed_send_message: "well_typed (send_message app an sock headroom buf dur pipe)"
  by (auto simp: send_message_def well_typed_def buf_held_def NANO_FREE_def signalled_def nano_msg_set_body_def Let_def)

lemma typed_send_stream: "well_typed (send_stream an nst buf dur)"
  by (auto simp: send_stream_def well_typed_def buf_held_def NANO_FREE_def signalled_def Let_def)

text \<open>
  C37: every aio that is created is well typed. The type field agrees with the completion callback
  and with the finalizer, so messages are read and freed as messages and stream buffers as
  buffers; and it says that a condition variable is signalled exactly when there is one.
\<close>

theorem aio_created_typed:
  "well_typed (rnng_send_aio app ser an con data md timeout pipe)
   \<and> well_typed (rnng_recv_aio an con md timeout cvar) \<and> well_typed (rnng_device_aio an s1 s2)"
proof (intro conjI)
  show "well_typed (rnng_send_aio app ser an con data md timeout pipe)"
    using typed_send_message typed_send_stream
    by (auto simp: rnng_send_aio_def Let_def well_typed_def [of "(_, Raise _)"]
        split: sum.splits r_error.splits connection.splits)
  show "well_typed (rnng_recv_aio an con md timeout cvar)"
    by (auto simp: rnng_recv_aio_def well_typed_def signalled_def Let_def
        split: sum.splits r_error.splits connection.splits)
  show "well_typed (rnng_device_aio an s1 s2)"
    by (auto simp: rnng_device_aio_def well_typed_def signalled_def)
qed

section \<open>From sender to receiver\<close>

definition empty_msg :: nng_chunk where
  "empty_msg = \<lparr>ch_cap = 0, ch_len = 0, ch_buf = [], ch_ptr = 0\<rparr>"

text \<open>\<open>nng_msg_append\<close> appends to the body.\<close>

definition appends :: "(nng_chunk \<Rightarrow> byte list \<Rightarrow> nng_chunk) \<Rightarrow> bool" where
  "appends app \<longleftrightarrow> (\<forall>m bs. chunk_body (app m bs) = chunk_body m @ bs)"

lemma set_body_raw:
  assumes "appends app"
  shows "chunk_body (fst (nano_msg_set_body app empty_msg buf 0)) = encoded buf"
  using assms by (auto simp: appends_def nano_msg_set_body_def chunk_body_def encoded_def empty_msg_def)

lemma send_message_calls:
  assumes "send_message app an sock headroom buf dur pipe = (es, Made c)"
  shows "calls_of es =
    MsgBody (chunk_body (fst (nano_msg_set_body app empty_msg buf headroom)))
      # (if sock \<and> pipe \<noteq> 0 then [MsgPipe pipe] else [])
      @ [Timeout dur, if sock then SockSend else CtxSend, Finalizer ''saio_finalizer'']"
  using assms
  by (auto simp: send_message_def buf_held_def NANO_FREE_def nano_msg_set_body_def empty_msg_def Let_def
      split: if_splits)

lemma send_raw_body:
  assumes "con = SocketCon \<or> con = ContextCon" "appends app"
    and "rnng_send_aio app ser an con v (ModeStr ''raw'') timeout pipe = (es, Made c)"
  obtains buf where "nano_encode (an_buf an) v = Inr buf"
    and "\<And>m. MsgBody m \<in> set (calls_of es) \<longleftrightarrow> m = encoded buf"
proof -
  have "nano_encode_mode (ModeStr ''raw'') = Inr 1" by (simp add: nano_encode_mode_def)
  then obtain buf where b: "nano_encode (an_buf an) v = Inr buf"
    and s: "send_message app an (con = SocketCon) 0 buf (duration timeout) pipe = (es, Made c)"
    using assms(1,3) by (auto simp: rnng_send_aio_def Let_def split: sum.splits r_error.splits)
  show ?thesis
    by (rule that [OF b]) (auto simp: send_message_calls [OF s] set_body_raw [OF assms(2)])
qed



text \<open>
  A stream that strips the terminator of text frames computes the length of what it sends in
  \<open>size_t\<close>: for data of no bytes at all it is \<open>2^64 - 1\<close>.
\<close>

theorem text_frame_underflow:
  "calls_of (fst (rnng_send_aio app ser
      \<lparr>an_buf = True, an_calloc = True, an_malloc = True, an_msg = 0, an_aio = 0, an_iov = 0\<rparr>
      (StreamCon \<lparr>bufsize = 65536, textframes = 1, msgmode = False\<rparr>) (RawSXP []) (ModeStr ''raw'') None 0))
   = [Iov [] (2 ^ 64 - 1), Timeout (- 2), StreamSend, Finalizer ''saio_finalizer'']"
  by (simp add: rnng_send_aio_def nano_encode_mode_def nano_encode_def send_stream_def NANO_INIT_def
      buf_held_def NANO_FREE_def encoded_def frame_len_def duration_def NNG_DURATION_DEFAULT_def)

end
