(* ===== verification/Cv.thy ===== *)
theory Cv
  imports Effects Aio
begin

text \<open>
  Condition variables, pipe events and monitors (\<^verbatim>\<open>sync.c\<close>). A condition variable is a counter and
  a flag under a mutex. A waiting function is given what it sees: the state each time it holds
  the mutex, and whether \<open>nng_cv_until\<close> came back because it was woken or because the deadline
  passed. \<open>None\<close> means it is still waiting.
\<close>

section \<open>Allocation\<close>

datatype cv_part = CvStruct | Mtx | CondVar

definition rnng_cv_alloc :: "bool \<Rightarrow> int \<Rightarrow> int \<Rightarrow> (cv_part, unit) effect list \<times> nano_cv entry" where
  "rnng_cv_alloc calloc_ok mtx_alloc cv_alloc =
     (if \<not> calloc_ok then ([], Failed 2)
      else if mtx_alloc \<noteq> 0 then ([Acq CvStruct, Rel CvStruct], Failed mtx_alloc)
      else if cv_alloc \<noteq> 0 then ([Acq CvStruct, Acq Mtx, Rel Mtx, Rel CvStruct], Failed cv_alloc)
      else ([Acq CvStruct, Acq Mtx, Acq CondVar], Made \<lparr>condition = 0, flag = 0\<rparr>))"

definition cv_finalizer :: "(cv_part, unit) effect list" where
  "cv_finalizer = [Rel CondVar, Rel Mtx, Rel CvStruct]"

section \<open>Waiting\<close>

datatype wake = Woken nano_cv | TimedOut nano_cv

text \<open>\<open>while (condition == 0)\<close>: whether the loop ended by a signal, and the state it ended in.\<close>

fun cv_loop :: "wake list \<Rightarrow> nano_cv \<Rightarrow> (bool \<times> nano_cv) option" where
  "cv_loop obs cv =
     (if condition cv \<noteq> 0 then Some (True, cv)
      else (case obs of
              [] \<Rightarrow> None
            | Woken cv' # obs' \<Rightarrow> cv_loop obs' cv'
            | TimedOut cv' # obs' \<Rightarrow> Some (False, cv')))"

declare cv_loop.simps [simp del]

definition decrement :: "nano_cv \<Rightarrow> nano_cv" where
  "decrement cv = cv\<lparr>condition := condition cv - 1\<rparr>"

definition cv_invalid :: "r_error" where
  "cv_invalid = RError ''`cv` is not a valid Condition Variable''"

definition rnng_cv_wait :: "nano_cv list \<Rightarrow> nano_cv option \<Rightarrow> (r_error + bool \<times> nano_cv) option" where
  "rnng_cv_wait obs cvar =
     (case cvar of
        None \<Rightarrow> Some (Inl cv_invalid)
      | Some ncv \<Rightarrow>
          (case cv_loop (map Woken obs) ncv of
             None \<Rightarrow> None
           | Some (_, cv) \<Rightarrow> Some (Inr (flag cv \<ge> 0, decrement cv))))"

text \<open>The argument \<open>msec\<close>; doubles are converted by \<open>Rf_asInteger\<close>. \<open>nng_time\<close> has 64 bits.\<close>

datatype msec = MsInt i32 | MsReal i32 | MsOther

definition until_time :: "u64 \<Rightarrow> msec \<Rightarrow> u64" where
  "until_time clock ms =
     (case ms of MsInt i \<Rightarrow> clock + scast i | MsReal i \<Rightarrow> clock + scast i | MsOther \<Rightarrow> clock)"

text \<open>With the deadline that was passed to \<open>nng_cv_until\<close>.\<close>

definition rnng_cv_until ::
  "u64 \<Rightarrow> wake list \<Rightarrow> nano_cv option \<Rightarrow> msec \<Rightarrow> (r_error + bool \<times> nano_cv \<times> u64) option" where
  "rnng_cv_until clock obs cvar ms =
     (case cvar of
        None \<Rightarrow> Some (Inl cv_invalid)
      | Some ncv \<Rightarrow>
          (let time = until_time clock ms in
           case cv_loop obs ncv of
             None \<Rightarrow> None
           | Some (signalled, cv) \<Rightarrow> Some (Inr (signalled, if signalled then decrement cv else cv, time))))"

text \<open>
  The interruptible variants wait in slices of 400 ms, releasing the mutex in between: a slice
  starts from the state the thread finds when it takes the mutex.
\<close>

type_synonym slice = "nano_cv \<times> wake list"

fun wait_slices :: "u64 \<Rightarrow> slice list \<Rightarrow> (bool \<times> nano_cv) option" where
  "wait_slices time [] = None"
| "wait_slices time ((ncv, obs) # slices) =
     (case cv_loop obs ncv of
        None \<Rightarrow> None
      | Some (True, cv) \<Rightarrow> Some (flag cv \<ge> 0, decrement cv)
      | Some (False, cv) \<Rightarrow> wait_slices (time + 400) slices)"

definition rnng_cv_wait_safe :: "u64 \<Rightarrow> slice list \<Rightarrow> bool \<Rightarrow> (r_error + bool \<times> nano_cv) option" where
  "rnng_cv_wait_safe clock slices valid =
     (if \<not> valid then Some (Inl cv_invalid) else map_option Inr (wait_slices (clock + 400) slices))"

fun until_slices :: "u64 \<Rightarrow> u64 \<Rightarrow> u64 list \<Rightarrow> slice list \<Rightarrow> (bool \<times> nano_cv \<times> u64 list) option" where
  "until_slices now period ts [] = None"
| "until_slices now period ts ((ncv, obs) # slices) =
     (let time = (if period > 400 then now + 400 else now + period);
          period' = (if period > 400 then period - 400 else 0);
          ts' = ts @ [time]
      in case cv_loop obs ncv of
           None \<Rightarrow> None
         | Some (True, cv) \<Rightarrow> Some (True, decrement cv, ts')
         | Some (False, cv) \<Rightarrow>
             if period' > 0 then until_slices (now + 400) period' ts' slices
             else Some (False, cv, ts'))"

definition until_period :: "msec \<Rightarrow> u64" where
  "until_period ms = (case ms of MsInt i \<Rightarrow> scast i | MsReal i \<Rightarrow> scast i | MsOther \<Rightarrow> 0)"

definition rnng_cv_until_safe ::
  "u64 \<Rightarrow> slice list \<Rightarrow> bool \<Rightarrow> msec \<Rightarrow> (r_error + bool \<times> nano_cv \<times> u64 list) option" where
  "rnng_cv_until_safe clock slices valid ms =
     (if \<not> valid then Some (Inl cv_invalid)
      else map_option Inr (until_slices clock (until_period ms) [] slices))"

section \<open>Operations\<close>

definition rnng_cv_reset :: "nano_cv option \<Rightarrow> r_error + nano_cv" where
  "rnng_cv_reset cvar =
     (case cvar of
        None \<Rightarrow> Inl cv_invalid
      | Some ncv \<Rightarrow> Inr (ncv\<lparr>flag := (if flag ncv < 0 then 1 else 0), condition := 0\<rparr>))"

definition rnng_cv_value :: "nano_cv option \<Rightarrow> r_error + int" where
  "rnng_cv_value cvar = (case cvar of None \<Rightarrow> Inl cv_invalid | Some ncv \<Rightarrow> Inr (condition ncv))"

definition cv_signal :: "nano_cv \<Rightarrow> nano_cv" where
  "cv_signal cv = cv\<lparr>condition := condition cv + 1\<rparr>"

definition rnng_cv_signal :: "nano_cv option \<Rightarrow> r_error + nano_cv" where
  "rnng_cv_signal cvar = (case cvar of None \<Rightarrow> Inl cv_invalid | Some ncv \<Rightarrow> Inr (cv_signal ncv))"

section \<open>Pipe events\<close>

definition SIGINT :: int where "SIGINT = 2"
definition SIGTERM :: int where "SIGTERM = 15"

datatype os_effect = DelayedSigterm | InterruptsPending | Kill int

text \<open>The flag fires at most once; \<open>SIGTERM\<close> is raised later, from a thread of its own.\<close>

definition pipe_cb_signal :: "nano_cv \<Rightarrow> nano_cv \<times> os_effect list" where
  "pipe_cb_signal ncv =
     (let sig = flag ncv;
          cv1 = (if sig > 0 then ncv\<lparr>flag := - 1\<rparr> else ncv)
      in (cv_signal cv1,
          if sig > 1 then
            (if sig = SIGTERM then [DelayedSigterm]
             else (if sig = SIGINT then [InterruptsPending] else []) @ [Kill sig])
          else []))"

datatype pipe_ev = AddPost | RemPost
datatype pipe_cb = CbNull | CbSignal | CbMonitor

datatype notify_call = PipeNotify pipe_ev pipe_cb | WeakRef

text \<open>\<open>cv\<close>: \<open>None\<close> is \<open>NULL\<close>, \<open>Some None\<close> not a condition variable. \<open>ans\<close> answers \<open>nng_pipe_notify\<close>.\<close>

definition notify_both ::
  "(pipe_ev \<Rightarrow> int) \<Rightarrow> pipe_cb \<Rightarrow> bool \<Rightarrow> bool \<Rightarrow> notify_call list \<times> int" where
  "notify_both ans cb add rem =
     (let a = (if add then ans AddPost else 0); r = (if rem then ans RemPost else 0) in
      if a \<noteq> 0 then ([PipeNotify AddPost cb], a)
      else ((if add then [PipeNotify AddPost cb] else []) @ (if rem then [PipeNotify RemPost cb] else []), r))"

definition rnng_pipe_notify ::
  "(pipe_ev \<Rightarrow> int) \<Rightarrow> bool \<Rightarrow> nano_cv option option \<Rightarrow> bool \<Rightarrow> bool \<Rightarrow> int \<Rightarrow>
     notify_call list \<times> nano_cv option \<times> unit entry" where
  "rnng_pipe_notify ans socket cv add rem flg =
     (if \<not> socket then ([], None, Raise ''`socket` is not a valid Socket'')
      else (case cv of
          None \<Rightarrow>
            (let (cs, xc) = notify_both ans CbNull add rem in
             (cs, None, if xc \<noteq> 0 then Failed xc else Made ()))
        | Some None \<Rightarrow> ([], None, Raise ''`cv` is not a valid Condition Variable'')
        | Some (Some ncv) \<Rightarrow>
            (let ncv' = ncv\<lparr>flag := (if flg < 0 then 1 else flg)\<rparr>;
                 (cs, xc) = notify_both ans CbSignal add rem
             in if xc \<noteq> 0 then (cs, Some ncv', Failed xc)
                else (cs @ [WeakRef], Some ncv', Made ()))))"

section \<open>Monitors\<close>

record nano_monitor =
  m_cv :: nano_cv
  m_ids :: "i32 list"
  m_size :: nat
  m_updates :: nat

text \<open>
  \<open>ids\<close> is the array, of \<open>size\<close> elements; \<open>realloc\<close> keeps the old ones and leaves the new ones
  undefined (here 0). An event without a pipe id is ignored, and one for which there is no
  memory is dropped.
\<close>

definition pipe_cb_monitor :: "bool \<Rightarrow> i32 \<Rightarrow> pipe_ev \<Rightarrow> nano_monitor \<Rightarrow> nano_monitor" where
  "pipe_cb_monitor realloc_ok pid ev m =
     (if pid = 0 then m
      else
        (let grow = m_updates m \<ge> m_size m in
         if grow \<and> \<not> realloc_ok then m
         else
           (let m1 = (if grow then m\<lparr>m_size := m_size m + 8, m_ids := m_ids m @ replicate 8 0\<rparr> else m) in
            m1\<lparr>m_ids := (m_ids m1)[m_updates m1 := (if ev = AddPost then pid else - pid)],
               m_updates := m_updates m1 + 1, m_cv := cv_signal (m_cv m1)\<rparr>)))"

datatype monitor_part = Monitor | Ids

definition rnng_monitor_create ::
  "bool \<Rightarrow> bool \<Rightarrow> (pipe_ev \<Rightarrow> int) \<Rightarrow> bool \<Rightarrow> nano_cv option \<Rightarrow>
     (monitor_part, notify_call) effect list \<times> nano_monitor entry" where
  "rnng_monitor_create calloc_ok ids_ok ans socket cv =
     (if \<not> socket then ([], Raise ''`socket` is not a valid Socket'')
      else (case cv of
          None \<Rightarrow> ([], Raise ''`cv` is not a valid Condition Variable'')
        | Some ncv \<Rightarrow>
            (if \<not> calloc_ok then ([], Failed 2)
             else if \<not> ids_ok then ([Acq Monitor, Rel Monitor], Failed 2)
             else if ans AddPost \<noteq> 0 then
               ([Acq Monitor, Acq Ids, Do (PipeNotify AddPost CbMonitor), Rel Ids, Rel Monitor], Failed (ans AddPost))
             else if ans RemPost \<noteq> 0 then
               ([Acq Monitor, Acq Ids, Do (PipeNotify AddPost CbMonitor), Do (PipeNotify RemPost CbMonitor),
                 Rel Ids, Rel Monitor], Failed (ans RemPost))
             else ([Acq Monitor, Acq Ids, Do (PipeNotify AddPost CbMonitor), Do (PipeNotify RemPost CbMonitor)],
                   Made \<lparr>m_cv = ncv, m_ids = replicate 8 0, m_size = 8, m_updates = 0\<rparr>))))"

text \<open>\<open>None\<close> is \<open>NULL\<close>: there were no events.\<close>

definition rnng_monitor_read :: "nano_monitor option \<Rightarrow> r_error + i32 list option \<times> nano_monitor" where
  "rnng_monitor_read x =
     (case x of
        None \<Rightarrow> Inl (RError ''`x` is not a valid Monitor'')
      | Some m \<Rightarrow>
          (let updates = m_updates m in
           Inr (if updates \<noteq> 0 then Some (map (\<lambda>i. m_ids m ! i) [0..<updates]) else None,
                if updates \<noteq> 0 then m\<lparr>m_updates := 0\<rparr> else m)))"

end
