(* ===== verification/CvProps.thy ===== *)
theory CvProps
  imports Cv
begin

text \<open>
  Properties of condition variables: the waiting functions answer one contract (the locale
  \<open>waiting\<close>), signals are counted exactly, the sliced waits end when the plain ones do, flags
  fire once, and monitors refine a queue of events.
\<close>

section \<open>What every wait does\<close>

text \<open>
  \<open>run\<close> is whether the wait succeeded and the state it left, \<open>seen\<close> the states in which the
  thread held the mutex. A wait that succeeds takes one signal from a state it saw; one that
  times out leaves a state it saw as it is.
\<close>

locale waiting =
  fixes run :: "'obs \<Rightarrow> (bool \<times> nano_cv) option"
    and seen :: "'obs \<Rightarrow> nano_cv set"
  assumes taken: "run obs = Some (True, cv) \<Longrightarrow> \<exists>c \<in> seen obs. condition c \<noteq> 0 \<and> cv = decrement c"
    and expired: "run obs = Some (False, cv) \<Longrightarrow> cv \<in> seen obs"
begin

text \<open>The counter changes by exactly the success, the flag never.\<close>

lemma consumes:
  assumes "run obs = Some (b, cv)"
  shows "\<exists>c \<in> seen obs. condition c = condition cv + (if b then 1 else 0) \<and> flag c = flag cv
    \<and> (b \<longrightarrow> condition c \<noteq> 0)"
  using assms taken [of obs cv] expired [of obs cv] by (cases b) (auto simp: decrement_def)

lemma never_negative:
  assumes "run obs = Some (b, cv)" "\<forall>c \<in> seen obs. 0 \<le> condition c"
  shows "0 \<le> condition cv"
  using consumes [OF assms(1)] assms(2) by (auto split: if_splits)

end

fun wake_cv :: "wake \<Rightarrow> nano_cv" where
  "wake_cv (Woken c) = c"
| "wake_cv (TimedOut c) = c"

lemma cv_loop_cases [simp]:
  "condition cv \<noteq> 0 \<Longrightarrow> cv_loop obs cv = Some (True, cv)"
  "condition cv = 0 \<Longrightarrow> cv_loop [] cv = None"
  "condition cv = 0 \<Longrightarrow> cv_loop (Woken c # obs) cv = cv_loop obs c"
  "condition cv = 0 \<Longrightarrow> cv_loop (TimedOut c # obs) cv = Some (False, c)"
  by (simp_all add: cv_loop.simps [of _ cv])

lemma cv_loop_end:
  "cv_loop obs cv = Some (b, c) \<Longrightarrow> c \<in> insert cv (wake_cv ` set obs) \<and> (b \<longrightarrow> condition c \<noteq> 0)"
proof (induction obs arbitrary: cv)
  case Nil
  then show ?case by (cases "condition cv = 0") auto
next
  case (Cons w obs)
  then show ?case by (cases "condition cv = 0"; cases w) auto
qed

lemma cv_loop_woken: "cv_loop (map Woken obs) cv = Some (b, c) \<Longrightarrow> b"
proof (induction obs arbitrary: cv)
  case Nil
  then show ?case by (cases "condition cv = 0") auto
next
  case (Cons w obs)
  then show ?case by (cases "condition cv = 0") auto
qed

definition slice_seen :: "slice list \<Rightarrow> nano_cv set" where
  "slice_seen slices = (\<Union>(cv, obs) \<in> set slices. insert cv (wake_cv ` set obs))"

lemma slice_seen_Cons: "slice_seen ((cv, obs) # slices) = insert cv (wake_cv ` set obs) \<union> slice_seen slices"
  by (simp add: slice_seen_def)

definition of_entry :: "(r_error + 'a) option \<Rightarrow> 'a option" where
  "of_entry r = (case r of Some (Inr x) \<Rightarrow> Some x | _ \<Rightarrow> None)"

lemma of_entry_simps [simp]:
  "of_entry None = None" "of_entry (Some (Inl e)) = None" "of_entry (Some (Inr x)) = Some x"
  by (simp_all add: of_entry_def)

definition until_run :: "u64 \<times> wake list \<times> nano_cv \<times> msec \<Rightarrow> (bool \<times> nano_cv) option" where
  "until_run x = (case x of (clock, obs, cv, ms) \<Rightarrow>
     map_option (\<lambda>(b, c, _). (b, c)) (of_entry (rnng_cv_until clock obs (Some cv) ms)))"

definition wait_run :: "nano_cv list \<times> nano_cv \<Rightarrow> (bool \<times> nano_cv) option" where
  "wait_run x = (case x of (obs, cv) \<Rightarrow> map_option (\<lambda>(_, c). (True, c)) (of_entry (rnng_cv_wait obs (Some cv))))"

definition wait_safe_run :: "u64 \<times> slice list \<Rightarrow> (bool \<times> nano_cv) option" where
  "wait_safe_run x = (case x of (clock, slices) \<Rightarrow>
     map_option (\<lambda>(_, c). (True, c)) (of_entry (rnng_cv_wait_safe clock slices True)))"

definition until_safe_run :: "u64 \<times> slice list \<times> msec \<Rightarrow> (bool \<times> nano_cv) option" where
  "until_safe_run x = (case x of (clock, slices, ms) \<Rightarrow>
     map_option (\<lambda>(b, c, _). (b, c)) (of_entry (rnng_cv_until_safe clock slices True ms)))"

lemma wait_slices_end:
  "wait_slices t slices = Some (b, cv) \<Longrightarrow> \<exists>c \<in> slice_seen slices. condition c \<noteq> 0 \<and> cv = decrement c"
proof (induction slices arbitrary: t)
  case (Cons s slices)
  obtain ncv obs where s: "s = (ncv, obs)" by (cases s) auto
  from Cons.prems obtain b1 c1 where l: "cv_loop obs ncv = Some (b1, c1)" by (auto simp: s split: option.splits)
  from cv_loop_end [OF l] have c: "c1 \<in> slice_seen (s # slices)" by (auto simp: s slice_seen_Cons)
  show ?case
  proof (cases b1)
    case True
    then show ?thesis using Cons.prems l cv_loop_end [OF l] c by (auto simp: s)
  next
    case False
    then have "wait_slices (t + 400) slices = Some (b, cv)" using Cons.prems l by (simp add: s)
    from Cons.IH [OF this] show ?thesis by (auto simp: s slice_seen_Cons)
  qed
qed simp

lemma until_slices_end:
  "until_slices now p ts slices = Some (b, cv, ts') \<Longrightarrow>
   \<exists>c \<in> slice_seen slices. (if b then condition c \<noteq> 0 \<and> cv = decrement c else cv = c)"
proof (induction slices arbitrary: now p ts)
  case (Cons s slices)
  obtain ncv obs where s: "s = (ncv, obs)" by (cases s) auto
  from Cons.prems obtain b1 c1 where l: "cv_loop obs ncv = Some (b1, c1)"
    by (auto simp: s Let_def split: option.splits)
  from cv_loop_end [OF l] have c: "c1 \<in> slice_seen (s # slices)" by (auto simp: s slice_seen_Cons)
  show ?case
  proof (cases "b1 \<or> \<not> p > 400")
    case True
    then show ?thesis using Cons.prems l cv_loop_end [OF l] c by (cases b1) (auto simp: s Let_def)
  next
    case False
    then have "(if b1 \<or> p - 400 = 0 then (b1, if b1 then decrement c1 else c1, ts @ [now + 400]) = (b, cv, ts')
         else until_slices (now + 400) (p - 400) (ts @ [now + 400]) slices = Some (b, cv, ts'))"
      using Cons.prems l by (auto simp: s Let_def word_gt_0)
    with False Cons.IH show ?thesis using c by (auto simp: s slice_seen_Cons split: if_splits) blast+
  qed
qed simp

interpretation wait: waiting wait_run "\<lambda>(obs, cv). insert cv (set obs)"
proof unfold_locales
  fix x :: "nano_cv list \<times> nano_cv" and cv
  obtain obs c0 where x: "x = (obs, c0)" by (cases x) auto
  show "wait_run x = Some (True, cv) \<Longrightarrow>
      \<exists>c \<in> (case x of (obs, cv) \<Rightarrow> insert cv (set obs)). condition c \<noteq> 0 \<and> cv = decrement c"
    using cv_loop_end [of "map Woken obs" c0] cv_loop_woken [of obs c0]
    by (cases "cv_loop (map Woken obs) c0"; cases "the (cv_loop (map Woken obs) c0)")
      (auto simp: x wait_run_def rnng_cv_wait_def image_image)
qed (auto simp: wait_run_def)

interpretation until: waiting until_run "\<lambda>(clock, obs, cv, ms). insert cv (wake_cv ` set obs)"
proof unfold_locales
  fix x :: "u64 \<times> wake list \<times> nano_cv \<times> msec" and cv
  obtain clock obs c0 ms where x: "x = (clock, obs, c0, ms)" by (cases x) auto
  show "until_run x = Some (True, cv) \<Longrightarrow>
      \<exists>c \<in> (case x of (clock, obs, cv, ms) \<Rightarrow> insert cv (wake_cv ` set obs)). condition c \<noteq> 0 \<and> cv = decrement c"
    using cv_loop_end [of obs c0]
    by (cases "cv_loop obs c0"; cases "the (cv_loop obs c0)")
      (auto simp: x until_run_def rnng_cv_until_def Let_def split: if_splits)
  show "until_run x = Some (False, cv) \<Longrightarrow> cv \<in> (case x of (clock, obs, cv, ms) \<Rightarrow> insert cv (wake_cv ` set obs))"
    using cv_loop_end [of obs c0]
    by (cases "cv_loop obs c0"; cases "the (cv_loop obs c0)")
      (auto simp: x until_run_def rnng_cv_until_def Let_def split: if_splits)
qed

interpretation wait_safe: waiting wait_safe_run "\<lambda>(clock, slices). slice_seen slices"
proof unfold_locales
  fix x :: "u64 \<times> slice list" and cv
  obtain clock slices where x: "x = (clock, slices)" by (cases x) auto
  show "wait_safe_run x = Some (True, cv) \<Longrightarrow>
      \<exists>c \<in> (case x of (clock, slices) \<Rightarrow> slice_seen slices). condition c \<noteq> 0 \<and> cv = decrement c"
    using wait_slices_end [of "clock + 400" slices]
    by (auto simp: x wait_safe_run_def rnng_cv_wait_safe_def of_entry_def split: option.splits)
qed (auto simp: wait_safe_run_def)

interpretation until_safe: waiting until_safe_run "\<lambda>(clock, slices, ms). slice_seen slices"
proof unfold_locales
  fix x :: "u64 \<times> slice list \<times> msec" and b :: bool and cv
  obtain clock slices ms where x: "x = (clock, slices, ms)" by (cases x) auto
  have e: "\<exists>ts. until_slices clock (until_period ms) [] slices = Some (b, cv, ts)"
    if "until_safe_run x = Some (b, cv)" for b
    using that by (auto simp: x until_safe_run_def rnng_cv_until_safe_def of_entry_def split: option.splits)
  show "until_safe_run x = Some (True, cv) \<Longrightarrow>
      \<exists>c \<in> (case x of (clock, slices, ms) \<Rightarrow> slice_seen slices). condition c \<noteq> 0 \<and> cv = decrement c"
    using e [of True] until_slices_end by (fastforce simp: x)
  show "until_safe_run x = Some (False, cv) \<Longrightarrow> cv \<in> (case x of (clock, slices, ms) \<Rightarrow> slice_seen slices)"
    using e [of False] until_slices_end by (fastforce simp: x)
qed

definition takes_one :: "nano_cv set \<Rightarrow> (bool \<times> nano_cv) option \<Rightarrow> bool" where
  "takes_one S r =
     (case r of
        None \<Rightarrow> True
      | Some (b, cv) \<Rightarrow>
          (\<exists>c \<in> S. condition c = condition cv + (if b then 1 else 0) \<and> flag c = flag cv
             \<and> (b \<longrightarrow> condition c \<noteq> 0)))"

text \<open>
  All four waiting functions take exactly one signal when they succeed and none when they
  time out, and they never change the flag: the state left is one the thread saw while it held
  the mutex, with the counter (which was not zero) one lower, or unchanged.
\<close>

theorem waits_take_one_signal:
  "takes_one (insert cv (set ws)) (wait_run (ws, cv))
   \<and> takes_one (insert cv (wake_cv ` set obs)) (until_run (clock, obs, cv, ms))
   \<and> takes_one (slice_seen slices) (wait_safe_run (clock, slices))
   \<and> takes_one (slice_seen slices) (until_safe_run (clock, slices, ms))"
  unfolding takes_one_def
  using wait.consumes [of "(ws, cv)"] until.consumes [of "(clock, obs, cv, ms)"]
    wait_safe.consumes [of "(clock, slices)"] until_safe.consumes [of "(clock, slices, ms)"]
  by (simp split: option.splits)

section \<open>Counting signals\<close>

text \<open>
  What can happen to a condition variable, each in one critical section: a signal (from R, or from
  the completion of an aio), a pipe event, a wait taking a signal, a wait timing out, a reset.
\<close>

datatype cv_ev = Sig | Pipe | Take | Expire | Reset

fun cv_step :: "cv_ev \<Rightarrow> nano_cv \<times> os_effect list \<Rightarrow> (nano_cv \<times> os_effect list) option" where
  "cv_step Sig (cv, out) = Some (cv_signal cv, out)"
| "cv_step Pipe (cv, out) = (case pipe_cb_signal cv of (cv', os) \<Rightarrow> Some (cv', out @ os))"
| "cv_step Take (cv, out) = (if condition cv \<noteq> 0 then Some (decrement cv, out) else None)"
| "cv_step Expire (cv, out) = Some (cv, out)"
| "cv_step Reset (cv, out) = (case rnng_cv_reset (Some cv) of Inr cv' \<Rightarrow> Some (cv', out) | Inl _ \<Rightarrow> None)"

fun cv_run :: "cv_ev list \<Rightarrow> nano_cv \<times> os_effect list \<Rightarrow> (nano_cv \<times> os_effect list) option" where
  "cv_run [] s = Some s"
| "cv_run (e # es) s = (case cv_step e s of None \<Rightarrow> None | Some s' \<Rightarrow> cv_run es s')"

lemma cv_run_snoc: "cv_run (es @ [e]) s = Option.bind (cv_run es s) (cv_step e)"
  by (induction es arbitrary: s) (auto split: option.splits)

definition recent :: "cv_ev list \<Rightarrow> cv_ev list" where
  "recent es = takeWhile (\<lambda>e. e \<noteq> Reset) (rev es)"

definition signals :: "cv_ev list \<Rightarrow> int" where
  "signals es = int (length (filter (\<lambda>e. e = Sig \<or> e = Pipe) es))"

definition takes :: "cv_ev list \<Rightarrow> int" where
  "takes es = int (length (filter (\<lambda>e. e = Take) es))"

lemma recent_snoc [simp]: "recent (es @ [e]) = (if e = Reset then [] else e # recent es)"
  by (simp add: recent_def)

lemmas cv_op_defs = cv_signal_def pipe_cb_signal_def decrement_def rnng_cv_reset_def

lemma cv_count_inv:
  "cv_run es (\<lparr>condition = 0, flag = f\<rparr>, []) = Some (cv, out) \<Longrightarrow>
   condition cv = signals (recent es) - takes (recent es) \<and> 0 \<le> condition cv"
proof (induction es arbitrary: cv out rule: rev_induct)
  case Nil
  then show ?case by (auto simp: recent_def signals_def takes_def)
next
  case (snoc e es)
  then obtain cv1 out1 where "cv_run es (\<lparr>condition = 0, flag = f\<rparr>, []) = Some (cv1, out1)"
    and "cv_step e (cv1, out1) = Some (cv, out)"
    by (auto simp: cv_run_snoc bind_eq_Some_conv)
  with snoc.IH [of cv1 out1] show ?case
    by (cases e) (auto simp: cv_op_defs signals_def takes_def Let_def split: if_splits)
qed



section \<open>Flags\<close>

definition raised :: "int \<Rightarrow> os_effect list" where
  "raised f = (if f \<le> 1 then [] else if f = SIGTERM then [DelayedSigterm]
     else (if f = SIGINT then [InterruptsPending] else []) @ [Kill f])"

lemma flag_inv:
  "cv_run es (\<lparr>condition = n, flag = f\<rparr>, []) = Some (cv, out) \<Longrightarrow> 0 < f \<Longrightarrow> Reset \<notin> set es \<Longrightarrow>
   (flag cv, out) = (if Pipe \<in> set es then (- 1, raised f) else (f, []))"
proof (induction es arbitrary: cv out rule: rev_induct)
  case (snoc e es)
  then obtain cv1 out1 where "cv_run es (\<lparr>condition = n, flag = f\<rparr>, []) = Some (cv1, out1)"
    and "cv_step e (cv1, out1) = Some (cv, out)"
    by (auto simp: cv_run_snoc bind_eq_Some_conv)
  with snoc.IH [of cv1 out1] snoc.prems(2,3) show ?case
    by (cases e) (auto simp: cv_op_defs raised_def Let_def split: if_splits)
qed auto

text \<open>
  A flag fires once. While a condition variable is not reset, the first pipe event sets the
  flag and raises the registered signal (for \<open>SIGTERM\<close> from a delayed thread, for \<open>SIGINT\<close> with R's
  interrupt flag), later events raise nothing, and every wait after it returns \<open>FALSE\<close>; without
  a pipe event nothing is raised, however many other signals there are.
\<close>

theorem pipe_flag_fires_once:
  assumes "cv_run es (\<lparr>condition = n, flag = f\<rparr>, []) = Some (cv, out)" "0 < f" "Reset \<notin> set es"
  shows "out = (if Pipe \<in> set es then raised f else [])
    \<and> rnng_cv_wait [] (Some cv) \<in> {None, Some (Inr (Pipe \<notin> set es, decrement cv))}"
proof -
  have f: "(flag cv, out) = (if Pipe \<in> set es then (- 1, raised f) else (f, []))"
    using flag_inv assms by blast
  have "rnng_cv_wait [] (Some cv) \<in> {None, Some (Inr (flag cv \<ge> 0, decrement cv))}"
    by (cases "condition cv = 0") (simp_all add: rnng_cv_wait_def)
  then show ?thesis using f assms(2) by (auto split: if_splits)
qed

theorem pipe_flag_fires_once_witness:
  "rnng_cv_wait [] (Some \<lparr>condition = 3, flag = - 1\<rparr>) = Some (Inr (False, \<lparr>condition = 2, flag = - 1\<rparr>))"
proof -
  have "cv_run [Sig, Pipe, Pipe] (\<lparr>condition = 0, flag = SIGINT\<rparr>, [])
      = Some (\<lparr>condition = 3, flag = - 1\<rparr>, [InterruptsPending, Kill 2])"
    by (simp add: cv_op_defs SIGTERM_def SIGINT_def)
  from pipe_flag_fires_once [OF this] show ?thesis
    by (auto simp: SIGINT_def decrement_def rnng_cv_wait_def)
qed

text \<open>
  Resetting re-arms a flag that has fired, but disarms one that has not: after a reset that
  comes before the first pipe event, pipe events no longer set the flag and \<open>wait\<close> keeps
  returning \<open>TRUE\<close>; and a signal once raised is not raised again after a reset.
\<close>

theorem reset_disarms_flag:
  assumes "0 < f" "0 \<le> n"
  shows "cv_run [Reset, Pipe] (\<lparr>condition = n, flag = f\<rparr>, []) = Some (\<lparr>condition = 1, flag = 0\<rparr>, [])
    \<and> rnng_cv_wait [] (Some \<lparr>condition = 1, flag = 0\<rparr>) = Some (Inr (True, \<lparr>condition = 0, flag = 0\<rparr>))
    \<and> cv_run [Pipe, Reset, Pipe] (\<lparr>condition = n, flag = f\<rparr>, []) = Some (\<lparr>condition = 1, flag = - 1\<rparr>, raised f)"
  using assms by (simp add: cv_op_defs rnng_cv_wait_def raised_def)

theorem reset_disarms_flag_witness:
  "cv_run [Reset, Pipe] (\<lparr>condition = 0, flag = 2\<rparr>, []) = Some (\<lparr>condition = 1, flag = 0\<rparr>, [])"
  using reset_disarms_flag [of 2 0] by simp

section \<open>Deadlines\<close>

text \<open>The deadlines of a sliced wait of \<open>p\<close> milliseconds from \<open>n\<close>.\<close>

definition sched :: "nat \<Rightarrow> nat \<Rightarrow> nat list" where
  "sched n p = map (\<lambda>i. n + 400 * Suc i) [0..<(p - 1) div 400] @ [n + p]"

lemma sched_short: "p \<le> 400 \<Longrightarrow> sched n p = [n + p]"
proof -
  assume "p \<le> 400"
  then have "(p - 1) div 400 = 0" by simp
  then show ?thesis by (simp add: sched_def)
qed

lemma sched_long:
  assumes "400 < p"
  shows "sched n p = (n + 400) # sched (n + 400) (p - 400)"
proof -
  have d: "(p - 1) div 400 = Suc ((p - 400 - 1) div 400)" using assms by (simp add: div_eq_dividend_iff le_div_geq)
  show ?thesis unfolding sched_def d map_upt_Suc using assms by (simp add: algebra_simps)
qed

lemma length_sched: "length (sched n p) = (p - 1) div 400 + 1"
  by (simp add: sched_def)

lemma last_sched: "last (sched n p) = n + p"
  by (simp add: sched_def)

lemma unat_scast:
  assumes "0 \<le> sint (i :: i32)"
  shows "unat (scast i :: u64) = nat (sint i)"
proof -
  have "sint i < 2 ^ 31" using sint_lt [of i] by simp
  then have l: "sint i < 2 ^ LENGTH(64)" by simp
  have "uint (word_of_int (sint i) :: u64) = sint i"
    unfolding uint_word_of_int_eq by (rule take_bit_int_eq_self [OF assms l])
  then show ?thesis unfolding unat_eq_nat_uint scast_eq by simp
qed

lemma unat_advance:
  fixes now p :: u64
  assumes "unat now + unat p < 2 ^ 64"
  shows "unat (now + p) = unat now + unat p"
    "400 < p \<Longrightarrow> unat (now + 400) = unat now + 400"
    "400 < p \<Longrightarrow> unat (p - 400) = unat p - 400"
    "400 < p \<longleftrightarrow> 400 < unat p"
proof -
  show l: "400 < p \<longleftrightarrow> 400 < unat p" by (simp add: word_less_nat_alt)
  show "unat (now + p) = unat now + unat p" using assms by (simp add: unat_word_ariths)
  show "unat (now + 400) = unat now + 400" if "400 < p" using that l assms by (simp add: unat_word_ariths)
  show "unat (p - 400) = unat p - 400" if "400 < p" using that by (simp add: unat_sub less_imp_le)
qed

lemma until_slices_sched:
  assumes "until_slices now p ts slices = Some (b, cv, ts')" "unat now + unat p < 2 ^ 64"
  shows "\<exists>k. map unat ts' = map unat ts @ take (Suc k) (sched (unat now) (unat p))
    \<and> (b \<or> length (sched (unat now) (unat p)) \<le> Suc k)"
  using assms
proof (induction slices arbitrary: now p ts)
  case (Cons s slices)
  obtain ncv obs where s: "s = (ncv, obs)" by (cases s) auto
  from Cons.prems(1) obtain b1 c1 where l: "cv_loop obs ncv = Some (b1, c1)"
    by (auto simp: s Let_def split: option.splits)
  note a = unat_advance [OF Cons.prems(2)]
  show ?case
  proof (cases "400 < p")
    case False
    then have "b1 = b" "ts' = ts @ [now + p]" using Cons.prems(1) l by (cases b1; auto simp: s Let_def)+
    then show ?thesis using False a by (auto simp: sched_short intro!: exI [of _ 0])
  next
    case True
    have q: "p - 400 \<noteq> 0" using True by (metis eq_iff_diff_eq_0 order_less_irrefl)
    have sl: "sched (unat now) (unat p) = unat (now + 400) # sched (unat (now + 400)) (unat (p - 400))"
      using True a by (simp add: sched_long)
    show ?thesis
    proof (cases b1)
      case True
      then have "b" "ts' = ts @ [now + 400]" using Cons.prems(1) l \<open>400 < p\<close> by (auto simp: s Let_def)
      then show ?thesis by (auto simp: sl intro!: exI [of _ 0])
    next
      case False
      then have r: "until_slices (now + 400) (p - 400) (ts @ [now + 400]) slices = Some (b, cv, ts')"
        using Cons.prems(1) l True q by (simp add: s Let_def word_gt_0)
      have "unat (now + 400) + unat (p - 400) < 2 ^ 64" using a True Cons.prems(2) by simp
      from Cons.IH [OF r this] obtain k where
        "map unat ts' = map unat (ts @ [now + 400]) @ take (Suc k) (sched (unat (now + 400)) (unat (p - 400)))"
        "b \<or> length (sched (unat (now + 400)) (unat (p - 400))) \<le> Suc k" by blast
      then show ?thesis by (intro exI [of _ "Suc k"]) (simp add: sl)
    qed
  qed
qed simp



lemma until_slices_ends:
  "unat now + unat p < 2 ^ 64 \<Longrightarrow> list_all (\<lambda>(cv, obs). cv_loop obs cv \<noteq> None) slices \<Longrightarrow>
   length slices \<ge> length (sched (unat now) (unat p)) \<Longrightarrow> until_slices now p ts slices \<noteq> None"
proof (induction slices arbitrary: now p ts)
  case Nil
  then show ?case by (simp add: length_sched)
next
  case (Cons s slices)
  obtain ncv obs where s: "s = (ncv, obs)" by (cases s) auto
  obtain b1 c1 where l: "cv_loop obs ncv = Some (b1, c1)" using Cons.prems(2) by (auto simp: s)
  note a = unat_advance [OF Cons.prems(1)]
  show ?case
  proof (cases "b1 \<or> \<not> 400 < p")
    case True
    then show ?thesis using l by (cases b1) (auto simp: s Let_def)
  next
    case False
    have q: "p - 400 \<noteq> 0" using False by (metis eq_iff_diff_eq_0 order_less_irrefl)
    have "length (sched (unat now) (unat p)) = Suc (length (sched (unat (now + 400)) (unat (p - 400))))"
      using False a by (simp add: sched_long)
    then have "until_slices (now + 400) (p - 400) (ts @ [now + 400]) slices \<noteq> None"
      using Cons.IH [of "now + 400" "p - 400" "ts @ [now + 400]"] Cons.prems False a by simp
    then show ?thesis using l False q by (auto simp: s Let_def word_gt_0)
  qed
qed



text \<open>
  A negative argument: the plain wait gets a deadline in the past and times out at once, the
  sliced one a period of almost \<open>2 ^ 64\<close> milliseconds.
\<close>

theorem negative_period_wraps:
  "until_time clock (MsInt (- 1)) = clock - 1 \<and> until_period (MsInt (- 1)) = 2 ^ 64 - 1"
  by (simp add: until_time_def until_period_def scast_eq)

section \<open>Monitors\<close>

text \<open>Abstractly a monitor is the list of events not yet read; the array is its implementation.\<close>

definition mon_abs :: "nano_monitor \<Rightarrow> i32 list" where
  "mon_abs m = take (m_updates m) (m_ids m)"

definition mon_inv :: "nano_monitor \<Rightarrow> bool" where
  "mon_inv m \<longleftrightarrow> m_updates m \<le> m_size m \<and> length (m_ids m) = m_size m"

definition signed_id :: "i32 \<Rightarrow> pipe_ev \<Rightarrow> i32" where
  "signed_id pid ev = (if ev = AddPost then pid else - pid)"

lemma monitor_append:
  assumes "mon_inv m"
  shows "mon_inv (pipe_cb_monitor ok pid ev m)"
    "pid \<noteq> 0 \<Longrightarrow> ok \<Longrightarrow> mon_abs (pipe_cb_monitor ok pid ev m) = mon_abs m @ [signed_id pid ev]
       \<and> condition (m_cv (pipe_cb_monitor ok pid ev m)) = condition (m_cv m) + 1"
    "pid = 0 \<Longrightarrow> pipe_cb_monitor ok pid ev m = m"
    "\<not> ok \<Longrightarrow> m_size m \<le> m_updates m \<Longrightarrow> pipe_cb_monitor ok pid ev m = m"
  using assms
  by (auto simp: pipe_cb_monitor_def mon_inv_def mon_abs_def signed_id_def cv_signal_def Let_def
      take_Suc_conv_app_nth nth_append)

lemma monitor_flush:
  assumes "mon_inv m"
  shows "rnng_monitor_read (Some m) = Inr (if mon_abs m = [] then None else Some (mon_abs m), m\<lparr>m_updates := 0\<rparr>)"
    "mon_inv (m\<lparr>m_updates := 0\<rparr>)" "mon_abs (m\<lparr>m_updates := 0\<rparr>) = []"
proof -
  have "map (\<lambda>i. m_ids m ! i) [0..<m_updates m] = mon_abs m"
    using assms by (simp add: mon_abs_def mon_inv_def list_eq_iff_nth_eq)
  moreover have "mon_abs m = [] \<longleftrightarrow> m_updates m = 0" using assms by (auto simp: mon_abs_def mon_inv_def)
  ultimately show "rnng_monitor_read (Some m) = Inr (if mon_abs m = [] then None else Some (mon_abs m), m\<lparr>m_updates := 0\<rparr>)"
    by (simp add: rnng_monitor_read_def Let_def)
qed (use assms in \<open>simp_all add: mon_inv_def mon_abs_def\<close>)

datatype mon_ev = PipeEv i32 pipe_ev | ReadMon

text \<open>What the reads have returned so far, in order; memory is available throughout.\<close>

fun mon_step :: "mon_ev \<Rightarrow> nano_monitor \<times> i32 list \<Rightarrow> nano_monitor \<times> i32 list" where
  "mon_step (PipeEv pid ev) (m, out) = (pipe_cb_monitor True pid ev m, out)"
| "mon_step ReadMon (m, out) =
     (case rnng_monitor_read (Some m) of Inr (r, m') \<Rightarrow> (m', out @ (case r of None \<Rightarrow> [] | Some xs \<Rightarrow> xs)) | Inl _ \<Rightarrow> (m, out))"

fun mon_event :: "mon_ev \<Rightarrow> i32 list" where
  "mon_event (PipeEv pid ev) = (if pid = 0 then [] else [signed_id pid ev])"
| "mon_event ReadMon = []"

lemma mon_step_abs:
  assumes "mon_inv m" "mon_step e (m, out) = (m', out')"
  shows "mon_inv m' \<and> out' @ mon_abs m' = out @ mon_abs m @ mon_event e
    \<and> condition (m_cv m') = condition (m_cv m) + int (length (mon_event e))"
proof (cases e)
  case (PipeEv pid ev)
  then show ?thesis using assms monitor_append [OF assms(1), where ok = True and pid = pid and ev = ev] by (cases "pid = 0") auto
next
  case ReadMon
  then show ?thesis using assms monitor_flush [OF assms(1)] by (auto split: if_splits)
qed

lemma mon_run_abs:
  "mon_inv m \<Longrightarrow> fold mon_step es (m, out) = (m', out') \<Longrightarrow>
   mon_inv m' \<and> out' @ mon_abs m' = out @ mon_abs m @ concat (map mon_event es)
   \<and> condition (m_cv m') = condition (m_cv m) + int (length (concat (map mon_event es)))"
proof (induction es arbitrary: m out)
  case (Cons e es)
  obtain m1 out1 where s: "mon_step e (m, out) = (m1, out1)" by (cases "mon_step e (m, out)") auto
  from mon_step_abs [OF Cons.prems(1) s] Cons.IH [of m1 out1] Cons.prems(2) s show ?case by auto
qed simp

text \<open>
  C25: a monitor refines a queue of events. From \<open>rnng_monitor_create\<close> on, in every interleaving of
  pipe events (on NNG's threads) and reads, the events the reads have returned followed by those
  still stored are exactly the pipes that came (positive) and went (negative), in the order of
  the events, however often the array had to grow; the index always stays within the array, and
  the condition variable has been signalled once per event.
\<close>

theorem monitor_refines_queue:
  assumes "rnng_monitor_create True True ans True (Some cv) = (effs, Made m0)"
    and "fold mon_step es (m0, []) = (m, out)"
  shows "out @ mon_abs m = concat (map mon_event es) \<and> m_updates m \<le> length (m_ids m)
    \<and> condition (m_cv m) = condition cv + int (length (concat (map mon_event es)))"
proof -
  have m0: "m0 = \<lparr>m_cv = cv, m_ids = replicate 8 0, m_size = 8, m_updates = 0\<rparr>"
    using assms(1) by (auto simp: rnng_monitor_create_def split: if_splits)
  then have "mon_inv m0" "mon_abs m0 = []" by (simp_all add: mon_inv_def mon_abs_def)
  from mon_run_abs [OF this(1) assms(2)] this(2) m0 show ?thesis by (simp add: mon_inv_def)
qed

theorem monitor_refines_queue_witness:
  "\<exists>m out. fold mon_step [PipeEv 7 AddPost, PipeEv 0 AddPost, ReadMon, PipeEv 7 RemPost]
       (\<lparr>m_cv = \<lparr>condition = 0, flag = 0\<rparr>, m_ids = replicate 8 0, m_size = 8, m_updates = 0\<rparr>, []) = (m, out)
     \<and> out @ mon_abs m = [7, - 7]"
proof -
  let ?m = "\<lparr>m_cv = \<lparr>condition = 0, flag = 0\<rparr>, m_ids = replicate 8 0, m_size = 8, m_updates = 0\<rparr>"
  let ?es = "[PipeEv 7 AddPost, PipeEv 0 AddPost, ReadMon, PipeEv 7 RemPost]"
  have c: "rnng_monitor_create True True (\<lambda>_. 0) True (Some \<lparr>condition = 0, flag = 0\<rparr>)
      = ([Acq Monitor, Acq Ids, Do (PipeNotify AddPost CbMonitor), Do (PipeNotify RemPost CbMonitor)], Made ?m)"
    by (simp add: rnng_monitor_create_def)
  obtain m out where f: "fold mon_step ?es (?m, []) = (m, out)" by (metis prod.exhaust)
  have "concat (map mon_event ?es) = [7, - 7]" by (simp add: signed_id_def)
  with monitor_refines_queue [OF c f] f show ?thesis by auto
qed

end
