(* ===== verification/Request.thy ===== *)
theory Request
  imports AioOps Dispatcher Registry
begin

text \<open>
  Requests (\<open>rnng_request\<close>, \<open>request_complete\<close> and \<open>rnng_set_promise_context\<close> of \<^verbatim>\<open>sync.c\<close>,
  \<open>rnng_request_stop\<close> of \<^verbatim>\<open>aio.c\<close>): a send and a receive on a context, with the means to cancel
  the task at the dispatcher, and the promise that may be attached to any aio.
\<close>

section \<open>State\<close>

text \<open>\<open>disp\<close> with \<open>type\<close>: no dispatcher, one in this process, or one reached through the context.\<close>

datatype disp_ref = NoDisp | DirectDisp | CtxDisp

record nano_saio =
  s_disp :: disp_ref
  s_cb :: "nat option"
  s_id :: i32

record request =
  rq :: aio_obj
  rq_saio :: nano_saio

section \<open>Creation\<close>

datatype req_part = RBuf | RSaio | RRaio | RMsg | RSendAio | RRecvAio

datatype req_call =
    ReqBody "byte list" | ReqSend | ReqTimeout int | ReqRecv | ReqFinalizer

record req_answers =
  ra_buf :: bool
  ra_saio :: bool
  ra_raio :: bool
  ra_msg :: int
  ra_send :: int
  ra_recv :: int

datatype msgid_arg = MsgidPtr | MsgidOther | MsgidNull

type_synonym req_effects = "(req_part, req_call) effect list"

definition request_saio :: "msgid_arg \<Rightarrow> i32 \<Rightarrow> byte \<Rightarrow> nano_saio" where
  "request_saio msgid cid md =
     \<lparr>s_disp = (case msgid of MsgidPtr \<Rightarrow> DirectDisp | MsgidOther \<Rightarrow> CtxDisp | MsgidNull \<Rightarrow> NoDisp),
      s_cb = None,
      s_id = (if msgid \<noteq> MsgidNull then cid else if md \<noteq> 1 then - cid else 0)\<rparr>"

definition request_start ::
  "(nng_chunk \<Rightarrow> byte list \<Rightarrow> nng_chunk) \<Rightarrow> req_answers \<Rightarrow> nat \<Rightarrow> nano_buf \<Rightarrow> int \<Rightarrow> bool \<Rightarrow> nano_cv option \<Rightarrow>
     byte \<Rightarrow> nano_saio \<Rightarrow> req_effects \<times> request entry" where
  "request_start nng_msg_append an headroom buf dur signal ncv md saio =
     (let held = (if nb_len buf \<noteq> 0 then [Acq RBuf] else []);
          free = (\<lambda>b. if nb_len b \<noteq> 0 then [Rel RBuf] else [])
      in if \<not> ra_saio an then (held @ free buf, Failed 2)
         else if \<not> ra_raio an then (held @ [Acq RSaio, Rel RSaio] @ free buf, Failed 2)
         else if ra_msg an \<noteq> 0 then
           (held @ [Acq RSaio, Acq RRaio, Rel RRaio, Rel RSaio] @ free buf, Failed (ra_msg an))
         else if ra_send an \<noteq> 0 then
           (held @ [Acq RSaio, Acq RRaio, Acq RMsg, Rel RMsg, Rel RRaio, Rel RSaio] @ free buf, Failed (ra_send an))
         else
           (let (msg, buf') = nano_msg_set_body nng_msg_append \<lparr>ch_cap = 0, ch_len = 0, ch_buf = [], ch_ptr = 0\<rparr>
                                buf headroom;
                sent = held @ [Acq RSaio, Acq RRaio, Acq RMsg, Acq RSendAio]
                         @ (if nb_len buf \<noteq> nb_len buf' then [Move RBuf] else [])
                         @ [Do (ReqBody (chunk_body msg)), Move RMsg, Do ReqSend]
            in if ra_recv an \<noteq> 0 then
                 (sent @ [Rel RSendAio, Rel RRaio, Rel RSaio] @ free buf', Failed (ra_recv an))
               else
                 (sent @ [Acq RRecvAio, Do (ReqTimeout dur), Do ReqRecv] @ free buf' @ [Do ReqFinalizer],
                  Made \<lparr>rq = \<lparr>e_value = None, e_aio = AioPtr,
                              o_aio = \<lparr>a_type = (if signal then REQAIOS else REQAIO), a_mode = md, a_result = 0,
                                       a_data = None, a_cb = None, a_busy = True, a_count = 0\<rparr>,
                              o_cv = ncv, o_posted = [], o_msg_frees = 0\<rparr>,
                        rq_saio = saio\<rparr>)))"

text \<open>
  \<open>ser id\<close> is \<open>nano_serialize\<close> of the data with that header, \<open>ctx\<close> the context's id when \<open>con\<close> is
  a context, \<open>cvar\<close> the condition variable when it is one.
\<close>

definition rnng_request ::
  "(nng_chunk \<Rightarrow> byte list \<Rightarrow> nng_chunk) \<Rightarrow> (i32 \<Rightarrow> r_error + nano_buf) \<Rightarrow> req_answers \<Rightarrow> i32 option \<Rightarrow>
     sexp \<Rightarrow> mode_arg \<Rightarrow> mode_arg \<Rightarrow> int option \<Rightarrow> nano_cv option \<Rightarrow> msgid_arg \<Rightarrow> req_effects \<times> request entry" where
  "rnng_request nng_msg_append ser an con data sendmode recvmode timeout cvar msgid =
     (case con of
        None \<Rightarrow> ([], Raise ''`con` is not a valid Context'')
      | Some cid \<Rightarrow>
          (case nano_matcharg recvmode of
             Inl (RError e) \<Rightarrow> ([], Raise e)
           | Inr md \<Rightarrow>
               (case nano_encode_mode sendmode of
                  Inl (RError e) \<Rightarrow> ([], Raise e)
                | Inr raw \<Rightarrow>
                    (case (if raw \<noteq> 0 then nano_encode (ra_buf an) data else ser cid) of
                       Inl (RError e) \<Rightarrow> ([], Raise e)
                     | Inr buf \<Rightarrow>
                         request_start nng_msg_append an (if raw \<noteq> 0 then 0 else NANO_HEADROOM) buf
                           (duration timeout) (cvar \<noteq> None) cvar md (request_saio msgid cid md)))))"

section \<open>Completion\<close>

text \<open>The send half: an unsent message is freed.\<close>

definition sendaio_complete :: "int \<Rightarrow> byte list \<Rightarrow> byte list list" where
  "sendaio_complete res msg = (if res \<noteq> 0 then [msg] else [])"

datatype cancel_call = PipeClose int | CancelMsg "byte list" | CancelDirect i32

text \<open>
  The bytes of the body are read without regard to its length; \<open>beyond\<close> is what memory holds
  behind it.
\<close>

definition body_byte :: "(nat \<Rightarrow> byte) \<Rightarrow> byte list \<Rightarrow> nat \<Rightarrow> byte" where
  "body_byte beyond msg i = (if i < length msg then msg ! i else beyond i)"

definition cancel_body :: "i32 \<Rightarrow> byte list" where
  "cancel_body cid = [0, 0, 0, 0] @ i32_bytes cid"

definition NNG_ETIMEDOUT :: int where "NNG_ETIMEDOUT = 5"

definition request_cancels :: "bool \<Rightarrow> (nat \<Rightarrow> byte) \<Rightarrow> int \<Rightarrow> int \<Rightarrow> byte list \<Rightarrow> nano_saio \<Rightarrow> cancel_call list" where
  "request_cancels sent beyond res pipe msg saio =
     (if res = 0 then
        (if s_id saio = 0 \<and> body_byte beyond msg 0 = 0x7 \<and> body_byte beyond msg 3 = 0x1 then [PipeClose pipe] else [])
      else if res = NNG_ETIMEDOUT \<and> sint (s_id saio) > 0 then
        (case s_disp saio of
           NoDisp \<Rightarrow> []
         | CtxDisp \<Rightarrow> if sent then [CancelMsg (cancel_body (s_id saio))] else []
         | DirectDisp \<Rightarrow> [CancelDirect (s_id saio)])
      else [])"

definition request_complete ::
  "bool \<Rightarrow> (nat \<Rightarrow> byte) \<Rightarrow> int \<Rightarrow> int \<Rightarrow> byte list \<Rightarrow> request \<Rightarrow> request \<times> cancel_call list" where
  "request_complete sent beyond res pipe msg r =
     (let x = rq r;
          x1 = (if res = 0 then x\<lparr>o_aio := (o_aio x)\<lparr>a_data := Some msg\<rparr>\<rparr> else x);
          x2 = x1\<lparr>o_aio := (o_aio x1)\<lparr>a_result := (if res = 0 then - pipe else res), a_busy := False\<rparr>,
                  o_cv := map_option (\<lambda>cv. cv\<lparr>condition := condition cv + 1\<rparr>) (o_cv x1),
                  o_posted := o_posted x1 @ (case s_cb (rq_saio r) of None \<Rightarrow> [] | Some node \<Rightarrow> [node])\<rparr>
      in (r\<lparr>rq := x2\<rparr>, request_cancels sent beyond res pipe msg (rq_saio r)))"

text \<open>The finalizer frees both NNG aios, an unread message, and both structures.\<close>

definition request_finalizer :: "request \<Rightarrow> req_effects" where
  "request_finalizer r =
     [Rel RSendAio, Rel RRecvAio] @ (case a_data (o_aio (rq r)) of None \<Rightarrow> [] | Some _ \<Rightarrow> [Rel RMsg])
       @ [Rel RSaio, Rel RRaio]"

section \<open>Stopping\<close>

text \<open>
  What a request to cancel does at the dispatcher: directly, or by a message on the context, of
  which \<open>answer\<close> is the reply (\<open>None\<close> when any step fails). \<open>stop\<close> is \<open>nng_aio_stop\<close>.
\<close>

datatype req_obj = ReqEnv request | ReqList "req_obj list" | ReqOther

datatype stopped = Stopped1 bool | StoppedList "bool list"

definition stop_cancel ::
  "bool \<Rightarrow> bool \<Rightarrow> (i32 \<Rightarrow> int option) \<Rightarrow> nano_saio \<Rightarrow> dispatcher \<Rightarrow> bool \<times> dispatcher" where
  "stop_cancel msg_ok node_ok answer saio d =
     (case s_disp saio of
        NoDisp \<Rightarrow> (False, d)
      | CtxDisp \<Rightarrow> (case answer (s_id saio) of None \<Rightarrow> (False, d) | Some r \<Rightarrow> (r \<noteq> 0, d))
      | DirectDisp \<Rightarrow> dispatch_cancel_direct msg_ok node_ok (s_id saio) d)"

definition stop1 ::
  "(request \<Rightarrow> request) \<Rightarrow> (nano_saio \<Rightarrow> dispatcher \<Rightarrow> bool \<times> dispatcher) \<Rightarrow> request \<Rightarrow> dispatcher \<Rightarrow>
     bool \<times> request \<times> dispatcher" where
  "stop1 stop cancel r d =
     (if e_aio (rq r) \<noteq> AioPtr then (False, r, d)
      else if a_type (o_aio (rq r)) \<noteq> REQAIOS \<and> a_type (o_aio (rq r)) \<noteq> REQAIO then (False, r, d)
      else (let r1 = stop r; (res, d1) = cancel (rq_saio r1) d in (res, r1, d1)))"

text \<open>\<open>NANO_INTEGER\<close> of a nested answer is its first element.\<close>

fun first_of :: "stopped \<Rightarrow> bool" where
  "first_of (Stopped1 b) = b"
| "first_of (StoppedList bs) = hd bs"

text \<open>A list is stopped from its last element to its first.\<close>

fun rnng_request_stop ::
  "(request \<Rightarrow> request) \<Rightarrow> (nano_saio \<Rightarrow> dispatcher \<Rightarrow> bool \<times> dispatcher) \<Rightarrow> req_obj \<Rightarrow> dispatcher \<Rightarrow>
     stopped \<times> req_obj \<times> dispatcher"
  and request_stop_list ::
  "(request \<Rightarrow> request) \<Rightarrow> (nano_saio \<Rightarrow> dispatcher \<Rightarrow> bool \<times> dispatcher) \<Rightarrow> req_obj list \<Rightarrow> dispatcher \<Rightarrow>
     bool list \<times> req_obj list \<times> dispatcher" where
  "rnng_request_stop stop cancel (ReqEnv r) d =
     (let (b, r', d') = stop1 stop cancel r d in (Stopped1 b, ReqEnv r', d'))"
| "rnng_request_stop stop cancel (ReqList xs) d =
     (let (bs, xs', d') = request_stop_list stop cancel xs d in (StoppedList bs, ReqList xs', d'))"
| "rnng_request_stop stop cancel ReqOther d = (Stopped1 False, ReqOther, d)"
| "request_stop_list stop cancel [] d = ([], [], d)"
| "request_stop_list stop cancel (x # xs) d =
     (let (bs, xs', d1) = request_stop_list stop cancel xs d;
          (item, x', d2) = rnng_request_stop stop cancel x d1
      in (first_of item # bs, x' # xs', d2))"

section \<open>Promises\<close>

text \<open>
  The event loop runs a posted node: a node whose tag is gone was released and nothing happens;
  otherwise the promise is resolved with the aio's message and the node is released. The flag
  says whether it resolved anything.
\<close>

definition raio_invoke_cb :: "nat \<Rightarrow> cells \<Rightarrow> bool \<times> cells" where
  "raio_invoke_cb node s = (case tag s node of None \<Rightarrow> (False, s) | Some x \<Rightarrow> (True, nano_ReleaseObject node s))"

definition haio_invoke_cb :: "nat \<Rightarrow> cells \<Rightarrow> bool \<times> cells" where
  "haio_invoke_cb node s = (case tag s node of None \<Rightarrow> (False, s) | Some x \<Rightarrow> (True, nano_ReleaseObject node s))"

text \<open>
  Attaching a promise to an aio (\<open>obj\<close> is its environment, \<open>node\<close> the new cell): the node becomes
  the callback, and an aio that has already completed is posted at once. Sends have no promise.
\<close>

definition promise_on :: "nat \<Rightarrow> aio_obj \<Rightarrow> aio_obj" where
  "promise_on node x =
     x\<lparr>o_aio := (o_aio x)\<lparr>a_cb := Some node\<rparr>,
       o_posted := o_posted x @ (if a_result (o_aio x) \<noteq> 0 then [node] else [])\<rparr>"

definition promise_on_request :: "nat \<Rightarrow> request \<Rightarrow> request" where
  "promise_on_request node r =
     r\<lparr>rq_saio := (rq_saio r)\<lparr>s_cb := Some node\<rparr>,
       rq := (rq r)\<lparr>o_posted := o_posted (rq r) @ (if a_result (o_aio (rq r)) \<noteq> 0 then [node] else [])\<rparr>\<rparr>"

definition rnng_set_promise_context ::
  "nat \<Rightarrow> nat \<Rightarrow> request \<Rightarrow> cells \<Rightarrow> request \<times> cells" where
  "rnng_set_promise_context node obj r s =
     (if e_aio (rq r) \<noteq> AioPtr then (r, s)
      else (case a_type (o_aio (rq r)) of
          REQAIO \<Rightarrow> (promise_on_request node r, nano_PreserveObject node obj s)
        | REQAIOS \<Rightarrow> (promise_on_request node r, nano_PreserveObject node obj s)
        | SENDAIO \<Rightarrow> (r, s)
        | IOV_SENDAIO \<Rightarrow> (r, s)
        | _ \<Rightarrow> (r\<lparr>rq := promise_on node (rq r)\<rparr>, nano_PreserveObject node obj s)))"

end
