(* ===== verification/RequestProps.thy ===== *)
theory RequestProps
  imports Request AioProps DispProps
begin

text \<open>
  Properties of requests: what they own from creation to finalization, when they cancel their
  task, what stopping a list of them does at the dispatcher, and that completing a request does
  to its aio what completing a receive does.
\<close>

section \<open>Ownership\<close>

lemma owns_request_start:
  "owns (fst (request_start app an headroom buf dur signal ncv md saio))
     (case snd (request_start app an headroom buf dur signal ncv md saio) of
        Made r \<Rightarrow> [RSaio, RRaio, RSendAio, RRecvAio] | _ \<Rightarrow> [])"
  by (auto simp: request_start_def owns_def nano_msg_set_body_def Let_def)

text \<open>Reading the reply: the object, and the free of its message when there is one to decode.\<close>

definition read_reply ::
  "(byte list \<Rightarrow> byte \<Rightarrow> decoded) \<Rightarrow> request \<Rightarrow> req_effects \<times> request" where
  "read_reply decode r =
     (let x = snd (nano_aio_get_msg decode (rq r)) in
      (if o_msg_frees x \<noteq> o_msg_frees (rq r) then [Rel RMsg] else [], r\<lparr>rq := x\<rparr>))"

text \<open>Completion hands the received message to the request; then it is read, or not, and finalized.\<close>

definition request_life ::
  "(byte list \<Rightarrow> byte \<Rightarrow> decoded) \<Rightarrow> bool \<Rightarrow> (nat \<Rightarrow> byte) \<Rightarrow> int \<Rightarrow> int \<Rightarrow> byte list \<Rightarrow> bool \<Rightarrow> request \<Rightarrow> req_effects" where
  "request_life decode sent beyond res pipe msg read r =
     (let r1 = fst (request_complete sent beyond res pipe msg r);
          (es, r2) = (if read then read_reply decode r1 else ([], r1))
      in (if res = 0 then [Acq RMsg] else []) @ es @ request_finalizer r2)"

lemma request_start_life:
  assumes "0 \<le> res" "0 \<le> pipe"
  shows "(case request_start app an headroom buf dur signal ncv md saio of
     (es, Made r) \<Rightarrow> settle (es @ request_life decode sent beyond res pipe msg read r) [] = Some []
   | (es, _) \<Rightarrow> settle es [] = Some [])"
  using assms
  by (auto simp: request_start_def nano_msg_set_body_def request_life_def request_complete_def read_reply_def
      nano_aio_get_msg_def recv_type_def create_aio_msg_def mk_error_aio_def request_finalizer_def Let_def)

text \<open>
  C26: a request leaks nothing and frees nothing twice, from its creation to its finalizer. Every
  failure of an allocation or NNG call on the way leaves nothing behind, also after the send half
  has been started; and a request that was created, completes (with a reply or any error), is
  read or not read and then finalized has released its two aios, its structures, its buffer and
  its reply exactly once.
\<close>

theorem request_lifecycle_balanced:
  assumes "0 \<le> res" "0 \<le> pipe"
  shows "(case rnng_request app ser an con data sendmode recvmode timeout cvar msgid of
     (es, Made r) \<Rightarrow> settle (es @ request_life decode sent beyond res pipe msg read r) [] = Some []
   | (es, _) \<Rightarrow> settle es [] = Some [])"
  using request_start_life [OF assms]
  by (auto simp: rnng_request_def split: option.splits sum.splits r_error.splits entry.splits prod.splits
      simp del: settle_append)

theorem request_lifecycle_balanced_witness:
  "settle (fst (rnng_request (\<lambda>m bs. m) (\<lambda>_. Inl (RError []))
      \<lparr>ra_buf = True, ra_saio = True, ra_raio = True, ra_msg = 0, ra_send = 0, ra_recv = 2\<rparr>
      (Some 5) (IntSXP [1]) (ModeStr ''raw'') (ModeStr ''serial'') None None MsgidNull)) [] = Some []"
proof -
  let ?r = "rnng_request (\<lambda>m bs. m) (\<lambda>_. Inl (RError []))
      \<lparr>ra_buf = True, ra_saio = True, ra_raio = True, ra_msg = 0, ra_send = 0, ra_recv = 2\<rparr>
      (Some 5) (IntSXP [1]) (ModeStr ''raw'') (ModeStr ''serial'') None None MsgidNull"
  obtain es where r: "?r = (es, Failed 2)"
    by (simp add: rnng_request_def nano_matcharg_def nano_encode_mode_def nano_encode_def request_start_def
        NANO_INIT_def nano_msg_set_body_def Let_def)
  have "(case ?r of
     (es, Made r) \<Rightarrow> settle (es @ request_life (\<lambda>bs md. (NilSXP, False)) True (\<lambda>_. 0) 0 1 [] False r) [] = Some []
   | (es, _) \<Rightarrow> settle es [] = Some [])"
    by (rule request_lifecycle_balanced) simp_all
  then show ?thesis by (simp add: r)
qed

section \<open>Completion\<close>

text \<open>Completing a request does to its aio what completing a receive does, but for the promise.\<close>

lemma request_complete_finish:
  assumes "a_type (o_aio (rq r)) = REQAIO \<or> a_type (o_aio (rq r)) = REQAIOS"
  shows "rq (fst (request_complete sent beyond res pipe msg r)) =
    (finish res pipe msg (rq r))\<lparr>o_posted := o_posted (rq r) @ (case s_cb (rq_saio r) of None \<Rightarrow> [] | Some node \<Rightarrow> [node])\<rparr>"
  using assms
  by (auto simp: request_complete_def finish_def iov_def raio_complete_def complete_with_def Let_def)

text \<open>
  A request cancels its task when it should and only then. It cancels exactly when it times
  out and was given an id, at the dispatcher it was given: directly in this process, or by an
  eight-byte message carrying the id; a reply closes its pipe only for a request without an id
  whose reply is marked as the last of its daemon; any other outcome does neither.
\<close>

theorem request_cancels_on_timeout:
  "set (snd (request_complete True beyond res pipe msg r)) =
    (if res = NNG_ETIMEDOUT \<and> 0 < sint (s_id (rq_saio r)) then
       (case s_disp (rq_saio r) of
          NoDisp \<Rightarrow> {}
        | CtxDisp \<Rightarrow> {CancelMsg (replicate 4 0 @ i32_bytes (s_id (rq_saio r)))}
        | DirectDisp \<Rightarrow> {CancelDirect (s_id (rq_saio r))})
     else if res = 0 \<and> s_id (rq_saio r) = 0 \<and> body_byte beyond msg 0 = 0x7 \<and> body_byte beyond msg 3 = 0x1
     then {PipeClose pipe} else {})"
  by (auto simp: request_complete_def request_cancels_def cancel_body_def NNG_ETIMEDOUT_def Let_def
      numeral_eq_Suc split: disp_ref.splits)

section \<open>Stopping many requests\<close>

definition known :: "i32 \<Rightarrow> dispatcher \<Rightarrow> bool" where
  "known tid d \<longleftrightarrow> (\<exists>x \<in> set (daemons d). works_on tid x) \<or> (\<exists>q \<in> set (inq d). q_msgid q = tid)"

definition running :: "i32 \<Rightarrow> dispatcher \<Rightarrow> bool" where
  "running tid d \<longleftrightarrow> (\<exists>x \<in> set (daemons d). works_on tid x)"

lemma drop_first_distinct:
  "distinct (map f xs) \<Longrightarrow> drop_first (\<lambda>x. f x = y) xs = filter (\<lambda>x. f x \<noteq> y) xs"
  by (induction xs) (auto simp: image_iff intro!: filter_True [symmetric])

lemma cancel_direct_effect:
  assumes "dispatch_cancel_direct m n tid d = (found, d')" "distinct (map q_msgid (inq d))"
  shows "found = known tid d \<and> daemons d' = daemons d
    \<and> inq d' = filter (\<lambda>q. running tid d \<or> q_msgid q \<noteq> tid) (inq d)"
proof (cases "find_idx (\<lambda>x. d_state x = DAEMON_BUSY \<and> d_msgid x = tid) (daemons d)")
  case (Some i)
  then have "running tid d"
    using find_idx_Some [OF Some] nth_mem by (fastforce simp: works_on_def running_def)
  then show ?thesis
    using Some assms(1) same_coreD [OF same_slotsD(1) [OF same_signal]]
    by (auto simp: dispatch_cancel_direct_def known_def running_def)
next
  case None
  then have b: "\<not> running tid d" by (auto simp: find_idx_None_iff works_on_def running_def)
  have f: "filter (\<lambda>q. q_msgid q \<noteq> tid) (inq d) = drop_first (\<lambda>q. q_msgid q = tid) (inq d)"
    by (simp add: drop_first_distinct [OF assms(2)])
  show ?thesis
  proof (cases "find_idx (\<lambda>q. q_msgid q = tid) (inq d)")
    case None
    then have "\<not> (\<exists>q \<in> set (inq d). q_msgid q = tid)" by (auto simp: find_idx_None_iff)
    then show ?thesis
      using \<open>find_idx _ (daemons d) = None\<close> None b assms(1) f
      by (auto simp: dispatch_cancel_direct_def dispatch_cancel_inq_def drop_first_find known_def running_def)
  next
    case (Some k)
    then have k: "inq d ! k \<in> set (inq d)" "q_msgid (inq d ! k) = tid" using find_idx_Some [OF Some] by auto
    with \<open>find_idx _ (daemons d) = None\<close> b Some assms(1) f show ?thesis
      by (auto simp: dispatch_cancel_direct_def dispatch_cancel_inq_def drop_first_find Let_def known_def running_def)
  qed
qed

text \<open>A request that a stop reaches: live, of a request type, and known to a dispatcher in this process.\<close>

definition direct_request :: "request \<Rightarrow> bool" where
  "direct_request r \<longleftrightarrow> e_aio (rq r) = AioPtr \<and> (a_type (o_aio (rq r)) = REQAIOS \<or> a_type (o_aio (rq r)) = REQAIO)
     \<and> s_disp (rq_saio r) = DirectDisp"

lemma stop_direct:
  assumes "direct_request r" "\<And>r. rq_saio (stop r) = rq_saio r" "distinct (map q_msgid (inq d))"
  obtains d' where "rnng_request_stop stop (stop_cancel m n answer) (ReqEnv r) d
      = (Stopped1 (known (s_id (rq_saio r)) d), ReqEnv (stop r), d')"
    and "daemons d' = daemons d"
    and "inq d' = filter (\<lambda>q. running (s_id (rq_saio r)) d \<or> q_msgid q \<noteq> s_id (rq_saio r)) (inq d)"
proof -
  obtain found d' where c: "dispatch_cancel_direct m n (s_id (rq_saio r)) d = (found, d')" by fastforce
  from cancel_direct_effect [OF c assms(3)] c assms(1,2) show ?thesis
    by (intro that [of d']) (auto simp: stop1_def stop_cancel_def direct_request_def Let_def)
qed

text \<open>
  C22: stopping a list of requests. Each answer says whether the request's id was at the
  dispatcher, running or queued, when the call was made; afterwards the queue holds exactly the
  requests that were not stopped, in their order, and the daemons running a stopped one keep
  their slots.
\<close>

theorem stop_all_requests:
  assumes "\<And>r. rq_saio (stop r) = rq_saio r" "distinct (map q_msgid (inq d))"
    and "list_all direct_request rs" "distinct (map (\<lambda>r. s_id (rq_saio r)) rs)"
  shows "\<exists>d'. rnng_request_stop stop (stop_cancel m n answer) (ReqList (map ReqEnv rs)) d
      = (StoppedList (map (\<lambda>r. known (s_id (rq_saio r)) d) rs), ReqList (map (\<lambda>r. ReqEnv (stop r)) rs), d')
    \<and> daemons d' = daemons d
    \<and> inq d' = filter (\<lambda>q. running (q_msgid q) d \<or> q_msgid q \<notin> (\<lambda>r. s_id (rq_saio r)) ` set rs) (inq d)"
proof -
  have "\<exists>d'. request_stop_list stop (stop_cancel m n answer) (map ReqEnv rs) d
      = (map (\<lambda>r. known (s_id (rq_saio r)) d) rs, map (\<lambda>r. ReqEnv (stop r)) rs, d')
    \<and> daemons d' = daemons d
    \<and> inq d' = filter (\<lambda>q. running (q_msgid q) d \<or> q_msgid q \<notin> (\<lambda>r. s_id (rq_saio r)) ` set rs) (inq d)"
    using assms(3,4)
  proof (induction rs)
    case (Cons r rs)
    then obtain d1 where d1: "request_stop_list stop (stop_cancel m n answer) (map ReqEnv rs) d
        = (map (\<lambda>r. known (s_id (rq_saio r)) d) rs, map (\<lambda>r. ReqEnv (stop r)) rs, d1)"
      "daemons d1 = daemons d"
      "inq d1 = filter (\<lambda>q. running (q_msgid q) d \<or> q_msgid q \<notin> (\<lambda>r. s_id (rq_saio r)) ` set rs) (inq d)"
      by auto
    have di: "distinct (map q_msgid (inq d1))" using assms(2) by (simp add: d1(3) distinct_map_filter)
    have run: "running t d1 = running t d" for t by (simp add: running_def d1(2))
    have kn: "known (s_id (rq_saio r)) d1 = known (s_id (rq_saio r)) d"
    proof -
      have "s_id (rq_saio r) \<notin> (\<lambda>r. s_id (rq_saio r)) ` set rs" using Cons.prems(2) by simp
      then have "(\<exists>q \<in> set (inq d1). q_msgid q = s_id (rq_saio r)) = (\<exists>q \<in> set (inq d). q_msgid q = s_id (rq_saio r))"
        unfolding d1(3) set_filter by (metis (mono_tags, lifting) mem_Collect_eq)
      then show ?thesis by (simp add: known_def d1(2))
    qed
    obtain d' where d': "rnng_request_stop stop (stop_cancel m n answer) (ReqEnv r) d1
      = (Stopped1 (known (s_id (rq_saio r)) d1), ReqEnv (stop r), d')" "daemons d' = daemons d1"
      "inq d' = filter (\<lambda>q. running (s_id (rq_saio r)) d1 \<or> q_msgid q \<noteq> s_id (rq_saio r)) (inq d1)"
      using Cons.prems(1) by (auto intro: stop_direct [OF _ assms(1) di, of r] simp del: rnng_request_stop.simps)
    show ?case
      using d1(1,2) d' Cons.prems(2)
      by (auto simp: kn run d1(3) simp del: rnng_request_stop.simps intro!: filter_cong)
  qed simp
  then show ?thesis by auto
qed

definition request_example :: "i32 \<Rightarrow> request" where
  "request_example cid =
     \<lparr>rq = recv_fresh REQAIO 1 [] None, rq_saio = \<lparr>s_disp = DirectDisp, s_cb = None, s_id = cid\<rparr>\<rparr>"

definition queue_example :: dispatcher where
  "queue_example = dispatcher_calloc
     \<lparr>inq := [\<lparr>q_msg = [1], q_ctx = 30, q_msgid = 3, q_is_sync = False\<rparr>,
             \<lparr>q_msg = [2], q_ctx = 40, q_msgid = 4, q_is_sync = False\<rparr>],
      daemons := [\<lparr>d_pipe = 7, d_state = DAEMON_BUSY, d_msgid = 5, d_sync_gen = 0, d_ctx = 50, d_ds = 0\<rparr>]\<rparr>"

theorem stop_all_requests_witness:
  "\<exists>d'. rnng_request_stop (\<lambda>r. r) (stop_cancel True True (\<lambda>_. None)) (ReqList (map ReqEnv (map request_example [4, 5, 9]))) queue_example
      = (StoppedList [True, True, False], ReqList (map ReqEnv (map request_example [4, 5, 9])), d')
    \<and> map q_msgid (inq d') = [3]"
proof -
  have r: "list_all direct_request (map request_example [4, 5, 9])"
    "distinct (map (\<lambda>r. s_id (rq_saio r)) (map request_example [4, 5, 9]))"
    by (simp_all add: request_example_def direct_request_def recv_fresh_def)
  have d: "distinct (map q_msgid (inq queue_example))" by (simp add: queue_example_def)
  from stop_all_requests [OF _ d r, where stop = "\<lambda>r. r" and m = True and n = True and answer = "\<lambda>_. None"]
  obtain d' where e: "rnng_request_stop (\<lambda>r. r) (stop_cancel True True (\<lambda>_. None)) (ReqList (map ReqEnv (map request_example [4, 5, 9]))) queue_example
      = (StoppedList (map (\<lambda>r. known (s_id (rq_saio r)) queue_example) (map request_example [4, 5, 9])),
         ReqList (map ReqEnv (map request_example [4, 5, 9])), d')"
    and i: "inq d' = filter (\<lambda>q. running (q_msgid q) queue_example
       \<or> q_msgid q \<notin> (\<lambda>r. s_id (rq_saio r)) ` set (map request_example [4, 5, 9])) (inq queue_example)"
    by auto
  have k: "map (\<lambda>r. known (s_id (rq_saio r)) queue_example) (map request_example [4, 5, 9]) = [True, True, False]"
    by (simp add: known_def works_on_def request_example_def queue_example_def)
  have q: "map q_msgid (inq d') = [3]"
    unfolding i by (simp add: running_def works_on_def request_example_def queue_example_def)
  show ?thesis using e k q by (intro exI [of _ d']) simp
qed

end
