(* ===== verification/Promise.thy ===== *)
theory Promise
  imports Request
begin

text \<open>
  The race between the completion of an aio (on a thread of NNG) and \<open>rnng_set_promise_context\<close>
  (on R's): each access to the shared fields \<open>result\<close> and \<open>cb\<close> is a step of its own, in every
  interleaving. When the aio has a condition variable both sides make their accesses under its
  mutex; when it has none they do not.
\<close>

section \<open>The two programs\<close>

datatype thread = Completer | Promiser

datatype act = Lock | Unlock | SetResult | ReadCb | Wake | PostCb | SetCb | ReadResult | PostNode

text \<open>\<open>seen\<close> is the completer's local \<open>cb\<close>, \<open>done\<close> the promiser's; \<open>posts\<close> counts \<open>later2\<close>.\<close>

record pstate =
  owner :: "thread option"
  p_result :: int
  p_cb :: bool
  p_seen :: bool
  p_done :: bool
  p_posts :: nat
  pc1 :: nat
  pc2 :: nat

definition completer :: "bool \<Rightarrow> act list" where
  "completer locked =
     (if locked then [Lock, SetResult, ReadCb, Wake, Unlock, PostCb] else [SetResult, ReadCb, PostCb])"

definition promiser :: "bool \<Rightarrow> act list" where
  "promiser locked =
     (if locked then [Lock, SetCb, ReadResult, Unlock, PostNode] else [SetCb, ReadResult, PostNode])"

text \<open>\<open>None\<close>: the thread waits for the mutex.\<close>

fun perform :: "int \<Rightarrow> thread \<Rightarrow> act \<Rightarrow> pstate \<Rightarrow> pstate option" where
  "perform res t Lock s = (if owner s = None then Some (s\<lparr>owner := Some t\<rparr>) else None)"
| "perform res t Unlock s = Some (s\<lparr>owner := None\<rparr>)"
| "perform res t SetResult s = Some (s\<lparr>p_result := res\<rparr>)"
| "perform res t ReadCb s = Some (s\<lparr>p_seen := p_cb s\<rparr>)"
| "perform res t Wake s = Some s"
| "perform res t PostCb s = Some (s\<lparr>p_posts := p_posts s + of_bool (p_seen s)\<rparr>)"
| "perform res t SetCb s = Some (s\<lparr>p_cb := True\<rparr>)"
| "perform res t ReadResult s = Some (s\<lparr>p_done := (p_result s \<noteq> 0)\<rparr>)"
| "perform res t PostNode s = Some (s\<lparr>p_posts := p_posts s + of_bool (p_done s)\<rparr>)"

inductive pstep :: "bool \<Rightarrow> int \<Rightarrow> pstate \<Rightarrow> pstate \<Rightarrow> bool" for locked res where
  complete: "pc1 s < length (completer locked) \<Longrightarrow>
     perform res Completer (completer locked ! pc1 s) s = Some s' \<Longrightarrow>
     pstep locked res s (s'\<lparr>pc1 := Suc (pc1 s)\<rparr>)"
| promise: "pc2 s < length (promiser locked) \<Longrightarrow>
     perform res Promiser (promiser locked ! pc2 s) s = Some s' \<Longrightarrow>
     pstep locked res s (s'\<lparr>pc2 := Suc (pc2 s)\<rparr>)"

inductive_cases pstepE: "pstep locked res s s'"

definition pstart :: pstate where
  "pstart = \<lparr>owner = None, p_result = 0, p_cb = False, p_seen = False, p_done = False, p_posts = 0,
             pc1 = 0, pc2 = 0\<rparr>"

section \<open>With the mutex\<close>

definition holds1 :: "pstate \<Rightarrow> bool" where "holds1 s \<longleftrightarrow> 1 \<le> pc1 s \<and> pc1 s \<le> 4"
definition holds2 :: "pstate \<Rightarrow> bool" where "holds2 s \<longleftrightarrow> 1 \<le> pc2 s \<and> pc2 s \<le> 3"

definition mutex_inv :: "pstate \<Rightarrow> bool" where
  "mutex_inv s \<longleftrightarrow> pc1 s \<le> 6 \<and> pc2 s \<le> 5 \<and> \<not> (holds1 s \<and> holds2 s)
     \<and> (owner s = Some Completer \<longleftrightarrow> holds1 s) \<and> (owner s = Some Promiser \<longleftrightarrow> holds2 s)"

definition data_inv :: "int \<Rightarrow> pstate \<Rightarrow> bool" where
  "data_inv res s \<longleftrightarrow> p_result s = (if 2 \<le> pc1 s then res else 0) \<and> p_cb s = (2 \<le> pc2 s)"

definition reads_inv :: "pstate \<Rightarrow> bool" where
  "reads_inv s \<longleftrightarrow> (pc1 s < 3 \<longrightarrow> 3 \<le> pc2 s \<longrightarrow> \<not> p_done s)
     \<and> (3 \<le> pc1 s \<longrightarrow> p_seen s \<longrightarrow> 4 \<le> pc2 s \<and> \<not> p_done s)
     \<and> (3 \<le> pc1 s \<longrightarrow> \<not> p_seen s \<longrightarrow> 3 \<le> pc2 s \<longrightarrow> p_done s)"

definition posts_inv :: "pstate \<Rightarrow> bool" where
  "posts_inv s \<longleftrightarrow> p_posts s = of_bool (pc1 s = 6 \<and> p_seen s) + of_bool (pc2 s = 5 \<and> p_done s)"

definition locked_inv :: "int \<Rightarrow> pstate \<Rightarrow> bool" where
  "locked_inv res s \<longleftrightarrow> mutex_inv s \<and> data_inv res s \<and> reads_inv s \<and> posts_inv s"

lemma below_six: "n < 6 \<Longrightarrow> n = 0 \<or> n = 1 \<or> n = 2 \<or> n = 3 \<or> n = 4 \<or> n = (5::nat)"
  by arith

lemma below_five: "n < 5 \<Longrightarrow> n = 0 \<or> n = 1 \<or> n = 2 \<or> n = 3 \<or> n = (4::nat)"
  by arith

lemma owner_None: "owner s = None \<longleftrightarrow> owner s \<noteq> Some Completer \<and> owner s \<noteq> Some Promiser"
  by (cases "owner s"; auto) (metis thread.exhaust)

text \<open>The six steps of the completer and the five of the promiser, as they are with the mutex.\<close>

definition step1 :: "int \<Rightarrow> pstate \<Rightarrow> pstate \<Rightarrow> bool" where
  "step1 res s s' \<longleftrightarrow>
     (pc1 s = 0 \<and> owner s = None \<and> s' = s\<lparr>owner := Some Completer, pc1 := 1\<rparr>)
     \<or> (pc1 s = 1 \<and> s' = s\<lparr>p_result := res, pc1 := 2\<rparr>) \<or> (pc1 s = 2 \<and> s' = s\<lparr>p_seen := p_cb s, pc1 := 3\<rparr>)
     \<or> (pc1 s = 3 \<and> s' = s\<lparr>pc1 := 4\<rparr>) \<or> (pc1 s = 4 \<and> s' = s\<lparr>owner := None, pc1 := 5\<rparr>)
     \<or> (pc1 s = 5 \<and> s' = s\<lparr>p_posts := p_posts s + of_bool (p_seen s), pc1 := 6\<rparr>)"

definition step2 :: "int \<Rightarrow> pstate \<Rightarrow> pstate \<Rightarrow> bool" where
  "step2 res s s' \<longleftrightarrow>
     (pc2 s = 0 \<and> owner s = None \<and> s' = s\<lparr>owner := Some Promiser, pc2 := 1\<rparr>)
     \<or> (pc2 s = 1 \<and> s' = s\<lparr>p_cb := True, pc2 := 2\<rparr>) \<or> (pc2 s = 2 \<and> s' = s\<lparr>p_done := (p_result s \<noteq> 0), pc2 := 3\<rparr>)
     \<or> (pc2 s = 3 \<and> s' = s\<lparr>owner := None, pc2 := 4\<rparr>)
     \<or> (pc2 s = 4 \<and> s' = s\<lparr>p_posts := p_posts s + of_bool (p_done s), pc2 := 5\<rparr>)"

lemma completer_step:
  assumes "pc1 t < 6" "perform res Completer (completer True ! pc1 t) t = Some u"
  shows "step1 res t (u\<lparr>pc1 := Suc (pc1 t)\<rparr>)"
  using below_six [OF assms(1)] assms(2)
  by (elim disjE; simp add: completer_def split: if_splits; hypsubst; simp add: step1_def)

lemma promiser_step:
  assumes "pc2 t < 5" "perform res Promiser (promiser True ! pc2 t) t = Some u"
  shows "step2 res t (u\<lparr>pc2 := Suc (pc2 t)\<rparr>)"
  using below_five [OF assms(1)] assms(2)
  by (elim disjE; simp add: promiser_def split: if_splits; hypsubst; simp add: step2_def)

lemma locked_step_cases: "pstep True res s s' \<Longrightarrow> step1 res s s' \<or> step2 res s s'"
  by (erule pstep.cases) (auto intro: completer_step promiser_step simp: completer_def promiser_def)

lemmas inv_defs = mutex_inv_def holds1_def holds2_def

lemma mutex_step: "mutex_inv s \<Longrightarrow> step1 res s s' \<or> step2 res s s' \<Longrightarrow> mutex_inv s'"
  unfolding step1_def step2_def by (elim disjE conjE; simp add: inv_defs)

lemma data_step: "data_inv res s \<Longrightarrow> step1 res s s' \<or> step2 res s s' \<Longrightarrow> data_inv res s'"
  unfolding step1_def step2_def by (elim disjE conjE; simp add: data_inv_def)

lemma reads_step:
  assumes "reads_inv s" "mutex_inv s" "data_inv res s" "res \<noteq> 0" "step1 res s s' \<or> step2 res s s'"
  shows "reads_inv s'"
  using assms(5) unfolding step1_def step2_def
proof (elim disjE conjE)
  assume "pc1 s = 2" "s' = s\<lparr>p_seen := p_cb s, pc1 := 3\<rparr>"
  then show ?thesis using assms(1-4) by (auto simp: reads_inv_def data_inv_def inv_defs)
next
  assume "pc2 s = 2" "s' = s\<lparr>p_done := (p_result s \<noteq> 0), pc2 := 3\<rparr>"
  then show ?thesis using assms(1-4) by (auto simp: reads_inv_def data_inv_def inv_defs)
qed (use assms(1) in \<open>simp_all add: reads_inv_def\<close>)

lemma posts_step:
  assumes "posts_inv s" "mutex_inv s" "step1 res s s' \<or> step2 res s s'"
  shows "posts_inv s'"
  using assms(3,1,2) unfolding step1_def step2_def
  by (elim disjE conjE; simp add: posts_inv_def inv_defs)

lemma locked_inv_step:
  assumes "pstep True res s s'" "res \<noteq> 0" "locked_inv res s"
  shows "locked_inv res s'"
  using locked_step_cases [OF assms(1)] assms(2,3) mutex_step data_step reads_step posts_step
  unfolding locked_inv_def by metis

lemma locked_inv_start: "locked_inv res pstart"
  by (simp add: locked_inv_def data_inv_def reads_inv_def posts_inv_def inv_defs pstart_def)

lemma steps_count:
  "(pstep locked res ^^ n) pstart s \<Longrightarrow> n = pc1 s + pc2 s"
proof (induction n arbitrary: s)
  case (Suc n)
  then obtain t where t: "(pstep locked res ^^ n) pstart t" "pstep locked res t s" by auto
  have "pc1 t' = pc1 t \<and> pc2 t' = pc2 t" if "perform res w a t = Some t'" for w a t'
    using that by (cases a) (auto split: if_splits)
  with t(2) Suc.IH [OF t(1)] show ?case by (cases rule: pstepE) fastforce+
qed (simp add: pstart_def)

lemma locked_progress:
  assumes "mutex_inv s" "pc1 s < 6 \<or> pc2 s < 5"
  shows "\<exists>s'. pstep True res s s'"
proof (cases "pc1 s < 6 \<and> (pc1 s = 0 \<longrightarrow> owner s = None)")
  case True
  then have "\<exists>s'. perform res Completer (completer True ! pc1 s) s = Some s'"
    using below_six [of "pc1 s"] by (auto simp: completer_def)
  then show ?thesis using True pstep.complete [of s True res] by (auto simp: completer_def)
next
  case False
  have p2: "pc2 s < 5 \<and> (pc2 s = 0 \<longrightarrow> owner s = None)"
  proof (cases "pc1 s < 6")
    case True
    then have "owner s = Some Promiser" "pc1 s = 0" using False assms(1) owner_None [of s] by (auto simp: inv_defs)
    then show ?thesis using assms(1) by (auto simp: inv_defs)
  next
    case False
    then have "owner s \<noteq> Some Completer" using assms(1) by (simp add: inv_defs)
    then show ?thesis using assms False owner_None [of s] by (auto simp: inv_defs)
  qed
  then have "\<exists>s'. perform res Promiser (promiser True ! pc2 s) s = Some s'"
    using below_five [of "pc2 s"] by (auto simp: promiser_def)
  then show ?thesis using p2 pstep.promise [of s True res] by (auto simp: promiser_def)
qed



section \<open>Without the mutex\<close>

definition free_inv :: "int \<Rightarrow> pstate \<Rightarrow> bool" where
  "free_inv res s \<longleftrightarrow>
     pc1 s \<le> 3 \<and> pc2 s \<le> 3
     \<and> p_result s = (if 1 \<le> pc1 s then res else 0) \<and> p_cb s = (1 \<le> pc2 s)
     \<and> p_posts s = of_bool (pc1 s = 3 \<and> p_seen s) + of_bool (pc2 s = 3 \<and> p_done s)
     \<and> (2 \<le> pc1 s \<longrightarrow> \<not> p_seen s \<longrightarrow> 2 \<le> pc2 s \<longrightarrow> p_done s)"

lemma below_three: "n < 3 \<Longrightarrow> n = 0 \<or> n = 1 \<or> n = (2::nat)"
  by arith

lemma free_inv_step:
  assumes "pstep False res s s'" "res \<noteq> 0" "free_inv res s"
  shows "free_inv res s'"
  using assms(1)
proof (cases rule: pstep.cases)
  case (complete t)
  then have "pc1 s < 3" by (simp add: completer_def)
  from below_three [OF this] complete assms(2,3) show ?thesis
    by (elim disjE) (auto simp: completer_def free_inv_def split: if_splits)
next
  case (promise t)
  then have "pc2 s < 3" by (simp add: promiser_def)
  from below_three [OF this] promise assms(2,3) show ?thesis
    by (elim disjE) (auto simp: promiser_def free_inv_def split: if_splits)
qed

text \<open>Both sides may post: the result is written, the callback set, and then each reads the other's.\<close>

definition pdouble :: "int \<Rightarrow> pstate" where
  "pdouble res = \<lparr>owner = None, p_result = res, p_cb = True, p_seen = True, p_done = True, p_posts = 2,
                  pc1 = 3, pc2 = 3\<rparr>"

lemma double_post_run: "res \<noteq> 0 \<Longrightarrow> (pstep False res)\<^sup>*\<^sup>* pstart (pdouble res)"
proof -
  assume r: "res \<noteq> 0"
  let ?s = "\<lambda>result cb seen d posts i j. \<lparr>owner = None, p_result = result, p_cb = cb, p_seen = seen,
     p_done = d, p_posts = posts, pc1 = i, pc2 = j\<rparr>"
  have 1: "pstep False res pstart (?s res False False False 0 1 0)"
    using pstep.complete [of pstart False res] by (simp add: pstart_def completer_def)
  have 2: "pstep False res (?s res False False False 0 1 0) (?s res True False False 0 1 1)"
    using pstep.promise [of "?s res False False False 0 1 0" False res] by (simp add: promiser_def)
  have 3: "pstep False res (?s res True False False 0 1 1) (?s res True True False 0 2 1)"
    using pstep.complete [of "?s res True False False 0 1 1" False res] by (simp add: completer_def numeral_2_eq_2)
  have 4: "pstep False res (?s res True True False 0 2 1) (?s res True True True 0 2 2)"
    using pstep.promise [of "?s res True True False 0 2 1" False res] r by (simp add: promiser_def numeral_2_eq_2)
  have 5: "pstep False res (?s res True True True 0 2 2) (?s res True True True 1 3 2)"
    using pstep.complete [of "?s res True True True 0 2 2" False res] by (simp add: completer_def)
  have 6: "pstep False res (?s res True True True 1 3 2) (pdouble res)"
    using pstep.promise [of "?s res True True True 1 3 2" False res] by (simp add: promiser_def pdouble_def eval_nat_numeral)
  show ?thesis
    by (intro converse_rtranclp_into_rtranclp [where r = "pstep False res", OF 1]
        converse_rtranclp_into_rtranclp [where r = "pstep False res", OF 2]
        converse_rtranclp_into_rtranclp [where r = "pstep False res", OF 3]
        converse_rtranclp_into_rtranclp [where r = "pstep False res", OF 4]
        converse_rtranclp_into_rtranclp [where r = "pstep False res", OF 5]
        r_into_rtranclp [where r = "pstep False res", OF 6])
qed

text \<open>
  Without a condition variable the promise is never lost but may be posted twice. In every
  interleaving in which both sides have finished the node has been posted once or twice, and
  there is an interleaving in which it is posted twice.
\<close>

theorem promise_unlocked_posts:
  assumes "res \<noteq> 0"
  shows "(\<forall>s. \<not> ((pstep False res)\<^sup>*\<^sup>* pstart s \<and> pc1 s = 3 \<and> pc2 s = 3 \<and> p_posts s \<notin> {1, 2}))
    \<and> (pstep False res)\<^sup>*\<^sup>* pstart (pdouble res) \<and> p_posts (pdouble res) = 2"
proof -
  have "free_inv res s" if "(pstep False res)\<^sup>*\<^sup>* pstart s" for s
    using that
  proof (induction rule: rtranclp_induct)
    case base
    show ?case by (simp add: free_inv_def pstart_def)
  next
    case (step s t)
    then show ?case using free_inv_step assms by blast
  qed
  then show ?thesis using double_post_run [OF assms] by (auto simp: free_inv_def pdouble_def split: if_splits)
qed

theorem promise_unlocked_posts_witness:
  "(pstep False 5)\<^sup>*\<^sup>* pstart (pdouble 5) \<and> p_posts (pdouble 5) = 2"
  using promise_unlocked_posts [of 5] by simp

text \<open>
  However often a node has been posted, its promise is resolved once as long as its cell is
  there to be read: the first run of the callback releases the node, and every later one finds
  the tag gone and does nothing.
\<close>

theorem node_resolves_once:
  assumes "tag s node = Some x"
  shows "fst (raio_invoke_cb node s)
    \<and> (let s1 = snd (raio_invoke_cb node s) in raio_invoke_cb node s1 = (False, s1) \<and> tag s1 node = None)"
proof -
  have "tag (nano_ReleaseObject node s) node = None"
    by (auto simp: nano_ReleaseObject_def Let_def split: option.splits)
  then show ?thesis using assms by (simp add: raio_invoke_cb_def)
qed

end
