(* ===== verification/HttpText.thy ===== *)
theory HttpText
  imports Effects Codec Registry
begin

text \<open>
  What the HTTP and WebSocket server of \<^verbatim>\<open>server.c\<close> reads and writes as text: the request headers
  of a WebSocket upgrade, the chunked encoding of a streamed response, and the small helpers on R
  lists that go with them.
\<close>

section \<open>R lists\<close>

text \<open>The pairlist that protects a server's objects, behind its head cell.\<close>

definition prot_add :: "'a \<Rightarrow> 'a list \<Rightarrow> 'a list" where
  "prot_add obj prot = obj # prot"

fun prot_remove :: "'a \<Rightarrow> 'a list \<Rightarrow> 'a list" where
  "prot_remove obj [] = []"
| "prot_remove obj (cur # rest) = (if cur = obj then rest else cur # prot_remove obj rest)"

lemma prot_remove_remove1: "prot_remove x xs = remove1 x xs"
  by (induction xs) auto

interpretation prot: safe_registry "\<lambda>s xs. s = xs \<and> distinct xs" prot_add prot_remove
  by unfold_locales (auto simp: prot_add_def prot_remove_remove1 remove1_idem)

text \<open>\<open>names\<close> is \<open>None\<close> for a list without names.\<close>

fun find_name :: "string \<Rightarrow> string list \<Rightarrow> 'a list \<Rightarrow> 'a option" where
  "find_name name (n # ns) (x # xs) = (if n = name then Some x else find_name name ns xs)"
| "find_name name _ _ = None"

definition get_list_element :: "string list option \<Rightarrow> 'a list \<Rightarrow> string \<Rightarrow> 'a option" where
  "get_list_element names xs name = (case names of None \<Rightarrow> None | Some ns \<Rightarrow> find_name name ns xs)"

text \<open>\<open>None\<close> is a read outside the vector: the first string of an empty character vector.\<close>

definition SEXP_TO_BUF :: "sexp \<Rightarrow> (r_error + byte list) option" where
  "SEXP_TO_BUF data =
     (case data of
        RawSXP bs \<Rightarrow> Some (Inr bs)
      | StrSXP ss \<Rightarrow> (case ss of [] \<Rightarrow> None | s # _ \<Rightarrow> Some (Inr (takeWhile (\<lambda>b. b \<noteq> 0) s)))
      | _ \<Rightarrow> Some (Inl (RError ''`data` must be raw or character'')))"

section \<open>Request headers\<close>

fun strstr :: "'a list \<Rightarrow> 'a list \<Rightarrow> nat option" where
  "strstr pat [] = (if pat = [] then Some 0 else None)"
| "strstr pat (c # cs) = (if take (length pat) (c # cs) = pat then Some 0 else map_option Suc (strstr pat cs))"

definition CRLF :: string where "CRLF = [CHR 0x0D, CHR 0x0A]"

lemma CRLF_simps [simp]: "length CRLF = 2" "CRLF \<noteq> []"
  by (simp_all add: CRLF_def)

lemma strstr_length: "strstr pat s = Some k \<Longrightarrow> k + length pat \<le> length s"
proof (induction pat s arbitrary: k rule: strstr.induct)
  case (2 pat c cs)
  show ?case
  proof (cases "take (length pat) (c # cs) = pat")
    case True
    then have "length pat \<le> length (c # cs)" by (metis length_take min.cobounded1)
    then show ?thesis using True 2(2) by auto
  next
    case False
    then show ?thesis using 2 by auto
  qed
qed (auto split: if_splits)

text \<open>The counting loop and the filling loop of \<open>make_ws_request_list\<close>.\<close>

function count_headers :: "string \<Rightarrow> nat" where
  "count_headers p =
     (if p = [] then 0
      else (case strstr CRLF p of
              None \<Rightarrow> 0
            | Some eol \<Rightarrow> (if eol > 0 then 1 else 0) + count_headers (drop (eol + 2) p)))"
  by pat_completeness auto
termination by (relation "measure length") auto

declare count_headers.simps [simp del]

definition header_line :: "string \<Rightarrow> nat \<Rightarrow> string \<times> string" where
  "header_line p eol =
     (case strstr '': '' p of
        Some sep \<Rightarrow>
          if sep < eol then (take sep p, take (eol - sep - 2) (drop (sep + 2) p)) else (take eol p, [])
      | None \<Rightarrow> (take eol p, []))"

function fill_headers :: "nat \<Rightarrow> nat \<Rightarrow> string \<Rightarrow> (string \<times> string) list" where
  "fill_headers i n p =
     (if p = [] \<or> \<not> i < n then []
      else (case strstr CRLF p of
              None \<Rightarrow> []
            | Some eol \<Rightarrow>
                if eol > 0 then header_line p eol # fill_headers (i + 1) n (drop (eol + 2) p)
                else fill_headers i n (drop (eol + 2) p)))"
  by pat_completeness auto
termination by (relation "measure (\<lambda>(_, _, p). length p)") auto

declare fill_headers.simps [simp del]

text \<open>
  The URI and the headers, where the stream has them. The header vector is allocated with
  \<open>count\<close> elements, empty until they are filled.
\<close>

definition make_ws_request_list ::
  "string option \<Rightarrow> string option \<Rightarrow> string option \<times> (string \<times> string) list option" where
  "make_ws_request_list uri headers =
     (uri,
      map_option (\<lambda>h. (let n = count_headers h; filled = fill_headers 0 n h in
                        filled @ replicate (n - length filled) ([], []))) headers)"

text \<open>The request of an HTTP handler: method, URI, the headers NNG lists, the body.\<close>

definition make_request_list ::
  "string \<Rightarrow> string \<Rightarrow> (string \<times> string) list \<Rightarrow> byte list \<Rightarrow> string \<times> string \<times> (string \<times> string) list \<times> byte list" where
  "make_request_list meth uri hdrs body = (meth, uri, map (\<lambda>h. (fst h, snd h)) hdrs, body)"

section \<open>Streamed responses\<close>

text \<open>\<open>%PRIxPTR\<close>\<close>

definition hex_digit :: "nat \<Rightarrow> char" where
  "hex_digit d = char_of (if d < 10 then 48 + d else 87 + d)"

fun hex_digits :: "nat \<Rightarrow> string" where
  "hex_digits n = (if n < 16 then [hex_digit n] else hex_digits (n div 16) @ [hex_digit (n mod 16)])"

declare hex_digits.simps [simp del]

text \<open>What goes to the connection, in order: a response head, then bytes.\<close>

datatype wire = WHead int "(string \<times> string) list" | WBytes "byte list"

record stream_conn =
  resp_headers :: "(string \<times> string) list"
  resp_capacity :: nat
  names_live :: bool
  values_live :: bool
  status_code :: int
  headers_sent :: bool
  wire :: "wire list"

text \<open>\<open>calloc\<close> and the default status; the header arrays are \<open>NULL\<close>, which may be freed.\<close>

definition stream_conn_new :: stream_conn where
  "stream_conn_new = \<lparr>resp_headers = [], resp_capacity = 0, names_live = True, values_live = True,
     status_code = 200, headers_sent = False, wire = []\<rparr>"

text \<open>
  The answers of NNG while the head is written: allocation, status, each header (\<open>None\<close> for
  \<^verbatim>\<open>Transfer-Encoding\<close>), the write.
\<close>

record head_answers =
  ha_alloc :: int
  ha_status :: int
  ha_header :: "string option \<Rightarrow> int"
  ha_write :: int

fun first_error :: "int list \<Rightarrow> int" where
  "first_error [] = 0"
| "first_error (x # xs) = (if x \<noteq> 0 then x else first_error xs)"

definition stream_write_headers :: "head_answers \<Rightarrow> stream_conn \<Rightarrow> int \<times> stream_conn" where
  "stream_write_headers an sc =
     (if ha_alloc an \<noteq> 0 then (ha_alloc an, sc)
      else
        (let xc = first_error (ha_status an # ha_header an None # map (\<lambda>h. ha_header an (Some (fst h))) (resp_headers sc)) in
         if xc \<noteq> 0 then (xc, sc)
         else (ha_write an,
               sc\<lparr>wire := wire sc @ [WHead (status_code sc mod 2 ^ 16)
                                      ((''Transfer-Encoding'', ''chunked'') # resp_headers sc)]\<rparr>)))"

definition chunk_bytes :: "byte list \<Rightarrow> byte list" where
  "chunk_bytes data =
     (let (header, header_len) = snprintf 24 (hex_digits (length data) @ CRLF) in
      take header_len (bytes_of header) @ data @ bytes_of CRLF)"

text \<open>Answers: the allocation of the chunk, \<open>nng_aio_set_iov\<close>, the result of the write.\<close>

definition stream_write_chunk :: "bool \<Rightarrow> int \<Rightarrow> int \<Rightarrow> byte list \<Rightarrow> stream_conn \<Rightarrow> int \<times> stream_conn" where
  "stream_write_chunk malloc_ok iov written data sc =
     (if \<not> malloc_ok then (2, sc)
      else if iov \<noteq> 0 then (iov, sc)
      else (written, sc\<lparr>wire := wire sc @ [WBytes (chunk_bytes data)]\<rparr>))"

definition terminator :: "byte list" where
  "terminator = bytes_of (''0'' @ CRLF @ CRLF)"

definition stream_write_terminator :: "int \<Rightarrow> int \<Rightarrow> stream_conn \<Rightarrow> int \<times> stream_conn" where
  "stream_write_terminator iov written sc =
     (if iov \<noteq> 0 then (iov, sc) else (written, sc\<lparr>wire := wire sc @ [WBytes terminator]\<rparr>))"

text \<open>
  The functions called from R, on a stream connection (\<open>STREAM_CONN_CHECK\<close> raises otherwise).
  \<open>Failed xc\<close> is an error value, \<open>Made ()\<close> success; \<open>None\<close> a read outside the data.
\<close>

definition rnng_stream_conn_send ::
  "head_answers \<Rightarrow> bool \<Rightarrow> int \<Rightarrow> int \<Rightarrow> sexp \<Rightarrow> stream_conn \<Rightarrow> (unit entry \<times> stream_conn) option" where
  "rnng_stream_conn_send an malloc_ok iov written data sc =
     (case SEXP_TO_BUF data of
        None \<Rightarrow> None
      | Some (Inl (RError e)) \<Rightarrow> Some (Raise e, sc)
      | Some (Inr buf) \<Rightarrow>
          (let (hc, sc1) = (if headers_sent sc then (0, sc) else stream_write_headers an sc) in
           if hc \<noteq> 0 then Some (Failed hc, sc1)
           else
             (let (xc, sc2) = stream_write_chunk malloc_ok iov written buf (sc1\<lparr>headers_sent := True\<rparr>) in
              Some (if xc \<noteq> 0 then Failed xc else Made (), sc2))))"

definition rnng_stream_conn_set_status :: "int \<Rightarrow> stream_conn \<Rightarrow> unit entry \<times> stream_conn" where
  "rnng_stream_conn_set_status code sc =
     (if headers_sent sc then (Raise ''cannot set status after headers have been sent'', sc)
      else (Made (), sc\<lparr>status_code := code\<rparr>))"

text \<open>
  \<open>names_ok\<close> and \<open>values_ok\<close> answer the two \<open>realloc\<close>s, \<open>dup1\<close> and \<open>dup2\<close> the \<open>strdup\<close>s. A
  successful \<open>realloc\<close> frees the old array; when the other fails the new one is freed as well
  and the structure still points to the old.
\<close>

definition rnng_stream_conn_set_header ::
  "bool \<Rightarrow> bool \<Rightarrow> bool \<Rightarrow> bool \<Rightarrow> string \<Rightarrow> string \<Rightarrow> stream_conn \<Rightarrow> unit entry \<times> stream_conn" where
  "rnng_stream_conn_set_header names_ok values_ok dup1 dup2 name value sc =
     (if headers_sent sc then (Raise ''cannot set header after headers have been sent'', sc)
      else
        (let full = length (resp_headers sc) \<ge> resp_capacity sc;
             new_cap = (if resp_capacity sc = 0 then 8 else resp_capacity sc * 2)
         in if full \<and> \<not> (names_ok \<and> values_ok)
            then (Raise ''memory allocation failed'',
                  sc\<lparr>names_live := names_live sc \<and> \<not> names_ok, values_live := values_live sc \<and> \<not> values_ok\<rparr>)
            else
              (let sc1 = (if full then sc\<lparr>resp_capacity := new_cap\<rparr> else sc) in
               if \<not> dup1 \<or> \<not> dup2 then (Raise ''memory allocation failed'', sc1)
               else (Made (), sc1\<lparr>resp_headers := resp_headers sc1 @ [(name, value)]\<rparr>))))"

end
