(* ===== verification/HttpProps.thy ===== *)
theory HttpProps
  imports HttpText
begin

text \<open>
  Properties of the server's text formats: request headers come apart as they were put together,
  and what a stream connection writes is a well-formed chunked response that decodes to the data
  sent.
\<close>

section \<open>Request headers\<close>

text \<open>The two loops agree: every counted header is filled.\<close>

lemma fill_all: "length (fill_headers i (i + count_headers p + k) p) = count_headers p"
proof (induction p arbitrary: i k rule: count_headers.induct)
  case (1 p)
  show ?case
  proof (cases "p = [] \<or> strstr CRLF p = None")
    case True
    then show ?thesis by (auto simp: count_headers.simps [of p] fill_headers.simps [of _ _ p])
  next
    case False
    then obtain eol where eol: "strstr CRLF p = Some eol" and p: "p \<noteq> []" by auto
    let ?q = "drop (eol + 2) p"
    note ih = "1.IH" [OF p eol]
    show ?thesis
    proof (cases "eol > 0")
      case True
      then have c: "count_headers p = Suc (count_headers ?q)" using p eol by (simp add: count_headers.simps [of p])
      have "fill_headers i (i + count_headers p + k) p
          = header_line p eol # fill_headers (i + 1) (i + 1 + count_headers ?q + k) ?q"
        using p eol True by (simp add: fill_headers.simps [of _ _ p] c)
      then show ?thesis using ih [of "i + 1" k] c by simp
    next
      case False
      then have c: "count_headers p = count_headers ?q" using p eol by (simp add: count_headers.simps [of p])
      show ?thesis
      proof (cases "i < i + count_headers p + k")
        case True
        then have "fill_headers i (i + count_headers p + k) p = fill_headers i (i + count_headers ?q + k) ?q"
          using p eol False by (simp add: fill_headers.simps [of _ _ p] c)
        then show ?thesis using ih [of i k] c by simp
      next
        case False
        then show ?thesis by (simp add: fill_headers.simps [of _ _ p])
      qed
    qed
  qed
qed

lemma strstr_first:
  "pat \<noteq> [] \<Longrightarrow> hd pat \<notin> set s \<Longrightarrow> strstr pat (s @ pat @ rest) = Some (length s)"
proof (induction s)
  case Nil
  then show ?case by (cases pat) auto
next
  case (Cons c s)
  then have "take (length pat) (c # s @ pat @ rest) \<noteq> pat" by (cases pat) auto
  then show ?case using Cons by simp
qed

text \<open>Header fields as they occur in a request: no line break in either part, no colon in the name.\<close>

definition plain_header :: "string \<times> string \<Rightarrow> bool" where
  "plain_header h \<longleftrightarrow> CHR 0x0D \<notin> set (fst h) \<and> CHR 0x0D \<notin> set (snd h) \<and> CHR '':'' \<notin> set (fst h)"

definition render_header :: "string \<times> string \<Rightarrow> string" where
  "render_header h = fst h @ '': '' @ snd h @ CRLF"

lemma drop_render: "drop (length (fst h) + length (snd h) + 2 + 2) (render_header h @ s) = s"
proof -
  have "length (fst h) + length (snd h) + 2 + 2 = length (render_header h)" by (simp add: render_header_def)
  then show ?thesis by (simp only: append_eq_conv_conj) simp
qed

lemma header_line_render:
  assumes "plain_header h"
  shows "strstr CRLF (render_header h @ rest) = Some (length (fst h) + length (snd h) + 2)"
    and "header_line (render_header h @ rest) (length (fst h) + length (snd h) + 2) = h"
proof -
  have "strstr CRLF ((fst h @ '': '' @ snd h) @ CRLF @ rest) = Some (length (fst h @ '': '' @ snd h))"
    using assms by (intro strstr_first) (auto simp: plain_header_def CRLF_def)
  then show "strstr CRLF (render_header h @ rest) = Some (length (fst h) + length (snd h) + 2)"
    by (simp add: render_header_def)
  have "strstr '': '' (fst h @ '': '' @ (snd h @ CRLF @ rest)) = Some (length (fst h))"
    using assms by (intro strstr_first) (auto simp: plain_header_def)
  then show "header_line (render_header h @ rest) (length (fst h) + length (snd h) + 2) = h"
    by (simp add: header_line_def render_header_def)
qed

lemma count_render: "list_all plain_header hs \<Longrightarrow> count_headers (concat (map render_header hs) @ rest)
    = length hs + count_headers rest"
proof (induction hs)
  case (Cons h hs)
  let ?p = "render_header h @ concat (map render_header hs) @ rest"
  have "strstr CRLF ?p = Some (length (fst h) + length (snd h) + 2)" "?p \<noteq> []"
    using header_line_render (1) Cons.prems by (auto simp: render_header_def)
  moreover have "drop (length (fst h) + length (snd h) + 2 + 2) ?p = concat (map render_header hs) @ rest"
    by (rule drop_render)
  ultimately have "count_headers ?p = 1 + count_headers (concat (map render_header hs) @ rest)"
    by (simp add: count_headers.simps [of ?p])
  then show ?case using Cons by simp
qed simp

lemma fill_render: "list_all plain_header hs \<Longrightarrow> n = i + length hs + k \<Longrightarrow>
   fill_headers i n (concat (map render_header hs) @ rest) = hs @ fill_headers (i + length hs) n rest"
proof (induction hs arbitrary: i)
  case (Cons h hs)
  let ?p = "render_header h @ concat (map render_header hs) @ rest"
  have "strstr CRLF ?p = Some (length (fst h) + length (snd h) + 2)" "?p \<noteq> []"
    "header_line ?p (length (fst h) + length (snd h) + 2) = h"
    using header_line_render Cons.prems by (auto simp: render_header_def)
  moreover have "drop (length (fst h) + length (snd h) + 2 + 2) ?p = concat (map render_header hs) @ rest"
    by (rule drop_render)
  ultimately have "fill_headers i n ?p = h # fill_headers (i + 1) n (concat (map render_header hs) @ rest)"
    using Cons.prems(2) by (simp add: fill_headers.simps [of _ _ ?p])
  then show ?case using Cons.IH [of "i + 1"] Cons.prems by simp
qed simp

text \<open>
  The headers of a WebSocket upgrade come apart as they were put together. For any list of
  header fields without line breaks and without a colon in the name, the header text NNG renders
  (with or without the empty line at its end) is read back as exactly that list, in order; and
  whatever the text, the vector that was allocated by counting is filled completely.
\<close>

theorem ws_headers_roundtrip:
  assumes "list_all plain_header hs" "rest = [] \<or> rest = CRLF"
  shows "make_ws_request_list uri (Some (concat (map render_header hs) @ rest)) = (uri, Some hs)
    \<and> length (fill_headers 0 (count_headers t) t) = count_headers t"
proof -
  have r: "count_headers rest = 0" "\<And>i n. fill_headers i n rest = []"
    using assms(2) by (auto simp: count_headers.simps fill_headers.simps CRLF_def)
  have "count_headers (concat (map render_header hs) @ rest) = length hs"
    using count_render [OF assms(1)] r by simp
  moreover have "fill_headers 0 (length hs) (concat (map render_header hs) @ rest) = hs"
    using fill_render [OF assms(1), of "length hs" 0 0 rest] r by simp
  ultimately show ?thesis
    using fill_all [where i = 0 and k = 0 and p = t] by (simp add: make_ws_request_list_def Let_def)
qed

theorem ws_headers_roundtrip_witness:
  "make_ws_request_list (Some ''/ws'')
     (Some (concat (map render_header [(''Host'', ''a:1''), (''Upgrade'', ''websocket''), (''X'', [])]) @ CRLF))
   = (Some ''/ws'', Some [(''Host'', ''a:1''), (''Upgrade'', ''websocket''), (''X'', [])])"
proof -
  have "list_all plain_header [(''Host'', ''a:1''), (''Upgrade'', ''websocket''), (''X'', [])]"
    by (simp add: plain_header_def)
  from ws_headers_roundtrip [OF this, of CRLF] show ?thesis by simp
qed

section \<open>Chunked encoding\<close>

text \<open>The other end: a chunked body is read until the chunk of size 0 (RFC 9112, without extensions).\<close>

definition hex_val :: "byte \<Rightarrow> nat option" where
  "hex_val b = (let n = unat b in
     if 48 \<le> n \<and> n \<le> 57 then Some (n - 48) else if 97 \<le> n \<and> n \<le> 102 then Some (n - 87) else None)"

fun hex_from :: "nat \<Rightarrow> byte list \<Rightarrow> nat \<times> byte list" where
  "hex_from acc [] = (acc, [])"
| "hex_from acc (b # bs) =
     (case hex_val b of Some d \<Rightarrow> hex_from (16 * acc + d) bs | None \<Rightarrow> (acc, b # bs))"

lemma hex_from_length: "length (snd (hex_from acc bs)) \<le> length bs"
  by (induction acc bs rule: hex_from.induct) (auto split: option.splits)

definition crlf :: "byte list" where "crlf = bytes_of CRLF"

function dechunk :: "byte list \<Rightarrow> (byte list \<times> byte list) option" where
  "dechunk bs =
     (let (n, r) = hex_from 0 bs; body = drop 2 r in
      if bs = [] \<or> take 2 r \<noteq> crlf then None
      else if n = 0 then (if take 2 body = crlf then Some ([], drop 2 body) else None)
      else if length body < n + 2 \<or> take 2 (drop n body) \<noteq> crlf then None
      else map_option (\<lambda>(data, rest). (take n body @ data, rest)) (dechunk (drop (n + 2) body)))"
  by pat_completeness auto
termination
proof (relation "measure length")
  fix bs :: "byte list" and x n r body
  assume x: "x = hex_from 0 bs" "(n, r) = x" "body = drop 2 r" "\<not> (bs = [] \<or> take 2 r \<noteq> crlf)"
  then have "length r \<le> length bs" using hex_from_length [of 0 bs] by (metis snd_conv)
  with x show "(drop (n + 2) body, bs) \<in> measure length" by (cases bs) auto
qed auto

declare dechunk.simps [simp del]

lemma hex_digit_val: "d < 16 \<Longrightarrow> hex_val (of_char (hex_digit d)) = Some d"
proof -
  assume "d < 16"
  then have "d \<in> {0..<16}" by simp
  moreover have "\<forall>d \<in> {0..<16}. hex_val (of_char (hex_digit d)) = Some d"
    by code_simp
  ultimately show ?thesis by blast
qed

lemma hex_from_digits:
  "hex_from acc (bytes_of (hex_digits n) @ rest) = hex_from (16 ^ length (hex_digits n) * acc + n) rest"
proof (induction n arbitrary: acc rest rule: hex_digits.induct)
  case (1 n)
  show ?case
  proof (cases "n < 16")
    case True
    then show ?thesis by (simp add: hex_digits.simps [of n] bytes_of_def hex_digit_val)
  next
    case False
    have "hex_from acc (bytes_of (hex_digits n) @ rest)
        = hex_from acc (bytes_of (hex_digits (n div 16)) @ bytes_of [hex_digit (n mod 16)] @ rest)"
      using False by (simp add: hex_digits.simps [of n])
    also have "\<dots> = hex_from (16 * (16 ^ length (hex_digits (n div 16)) * acc + n div 16) + n mod 16) rest"
      unfolding "1.IH" [OF False] by (simp add: bytes_of_def hex_digit_val)
    also have "16 * (16 ^ length (hex_digits (n div 16)) * acc + n div 16) + n mod 16
        = 16 ^ length (hex_digits n) * acc + n"
      using False by (simp add: hex_digits.simps [of n] algebra_simps)
    finally show ?thesis .
  qed
qed

lemma length_hex_digits: "0 < k \<Longrightarrow> n < 16 ^ k \<Longrightarrow> length (hex_digits n) \<le> k"
proof (induction n arbitrary: k rule: hex_digits.induct)
  case (1 n)
  show ?case
  proof (cases "n < 16")
    case True
    with 1 show ?thesis by (simp add: hex_digits.simps [of n])
  next
    case False
    with 1 obtain j where j: "k = Suc j" "0 < j" by (cases k; cases "k - 1") auto
    with "1.prems" have "n div 16 < 16 ^ j" by (simp add: less_mult_imp_div_less)
    with "1.IH" [OF False, of j] j False show ?thesis by (simp add: hex_digits.simps [of n])
  qed
qed

lemma hex_digits_nonempty: "hex_digits n \<noteq> []"
  by (simp add: hex_digits.simps [of n])

text \<open>The 24 bytes of the header buffer hold the size of any chunk a 64-bit length can have.\<close>

lemma chunk_bytes_eq:
  assumes "length data < 2 ^ 64"
  shows "chunk_bytes data = bytes_of (hex_digits (length data)) @ crlf @ data @ crlf"
proof -
  have "length (hex_digits (length data)) \<le> 16" using length_hex_digits [of 16 "length data"] assms by simp
  then show ?thesis by (simp add: chunk_bytes_def snprintf_def crlf_def)
qed

lemma crlf_hex: "hex_from n (crlf @ bs) = (n, crlf @ bs)" "length crlf = 2"
  by (simp_all add: crlf_def CRLF_def bytes_of_def hex_val_def)

lemma dechunk_chunk:
  assumes "data \<noteq> []" "length data < 2 ^ 64"
  shows "dechunk (chunk_bytes data @ bs) = map_option (\<lambda>(d, rest). (data @ d, rest)) (dechunk bs)"
proof -
  have h: "hex_from 0 (chunk_bytes data @ bs) = (length data, crlf @ data @ crlf @ bs)"
    using hex_from_digits [of 0 "length data" "crlf @ data @ crlf @ bs"] crlf_hex
    by (simp add: chunk_bytes_eq [OF assms(2)])
  have n: "chunk_bytes data \<noteq> []" by (simp add: chunk_bytes_eq [OF assms(2)] crlf_def CRLF_def bytes_of_def)
  show ?thesis
    unfolding dechunk.simps [of "chunk_bytes data @ bs"] h
    using assms(1) n crlf_hex(2) by (simp add: Let_def)
qed

lemma dechunk_terminator: "dechunk (terminator @ bs) = Some ([], bs)"
proof -
  have t: "terminator = bytes_of (hex_digits 0) @ crlf @ crlf"
    by code_simp
  have h: "hex_from 0 (terminator @ bs) = (0, crlf @ crlf @ bs)"
    using hex_from_digits [of 0 0 "crlf @ crlf @ bs"] crlf_hex by (simp add: t)
  have n: "terminator @ bs \<noteq> []" by (simp add: terminator_def bytes_of_def)
  show ?thesis
    unfolding dechunk.simps [of "terminator @ bs"] h using n crlf_hex(2) by (simp add: Let_def)
qed

lemma dechunk_chunks:
  "list_all (\<lambda>d. d \<noteq> [] \<and> length d < 2 ^ 64) ds \<Longrightarrow>
   dechunk (concat (map chunk_bytes ds) @ terminator @ bs) = Some (concat ds, bs)"
  by (induction ds) (simp_all add: dechunk_terminator dechunk_chunk)

section \<open>A streamed response\<close>

datatype stream_op = SetStatus int | SetHeader string string | Send "byte list"

definition all_ok :: head_answers where
  "all_ok = \<lparr>ha_alloc = 0, ha_status = 0, ha_header = (\<lambda>_. 0), ha_write = 0\<rparr>"

text \<open>The operations of a handler while memory lasts and the connection takes what is written.\<close>

fun stream_step :: "stream_op \<Rightarrow> stream_conn \<Rightarrow> stream_conn" where
  "stream_step (SetStatus c) sc = snd (rnng_stream_conn_set_status c sc)"
| "stream_step (SetHeader n v) sc = snd (rnng_stream_conn_set_header True True True True n v sc)"
| "stream_step (Send d) sc =
     (case rnng_stream_conn_send all_ok True 0 0 (RawSXP d) sc of Some (_, sc') \<Rightarrow> sc' | None \<Rightarrow> sc)"

fun sends :: "stream_op list \<Rightarrow> byte list list" where
  "sends [] = []"
| "sends (Send d # ops) = d # sends ops"
| "sends (_ # ops) = sends ops"

text \<open>Status and headers set before the first data; what is set later raises an error.\<close>

fun status_before :: "int \<Rightarrow> stream_op list \<Rightarrow> int" where
  "status_before c (SetStatus c' # ops) = status_before c' ops"
| "status_before c (SetHeader n v # ops) = status_before c ops"
| "status_before c _ = c"

fun headers_before :: "stream_op list \<Rightarrow> (string \<times> string) list" where
  "headers_before (SetHeader n v # ops) = (n, v) # headers_before ops"
| "headers_before (SetStatus c # ops) = headers_before ops"
| "headers_before _ = []"

lemma first_error_zero [simp]: "first_error (map (\<lambda>_. 0) xs) = 0"
  by (induction xs) auto

lemma stream_steps_sent:
  "headers_sent sc \<Longrightarrow> headers_sent (fold stream_step ops sc)
     \<and> wire (fold stream_step ops sc) = wire sc @ map (\<lambda>d. WBytes (chunk_bytes d)) (sends ops)"
proof (induction ops arbitrary: sc)
  case (Cons e ops)
  have "headers_sent (stream_step e sc) \<and> wire (stream_step e sc) = wire sc @ map (\<lambda>d. WBytes (chunk_bytes d)) (sends [e])"
    using Cons.prems
    by (cases e) (simp_all add: rnng_stream_conn_set_status_def rnng_stream_conn_set_header_def
        rnng_stream_conn_send_def SEXP_TO_BUF_def stream_write_chunk_def)
  moreover have "sends (e # ops) = sends [e] @ sends ops" by (cases e) auto
  ultimately show ?case using Cons.IH [of "stream_step e sc"] by simp
qed simp

lemma stream_steps_unsent:
  "\<not> headers_sent sc \<Longrightarrow> sends ops \<noteq> [] \<Longrightarrow>
   headers_sent (fold stream_step ops sc)
     \<and> wire (fold stream_step ops sc) = wire sc
         @ WHead (status_before (status_code sc) ops mod 2 ^ 16)
             ((''Transfer-Encoding'', ''chunked'') # resp_headers sc @ headers_before ops)
         # map (\<lambda>d. WBytes (chunk_bytes d)) (sends ops)"
proof (induction ops arbitrary: sc)
  case (Cons e ops)
  show ?case
  proof (cases e)
    case (SetStatus c)
    then show ?thesis using Cons by (simp add: rnng_stream_conn_set_status_def)
  next
    case (SetHeader n v)
    have "resp_headers (stream_step e sc) = resp_headers sc @ [(n, v)]" "wire (stream_step e sc) = wire sc"
      "status_code (stream_step e sc) = status_code sc" "\<not> headers_sent (stream_step e sc)"
      using Cons.prems(1) by (simp_all add: SetHeader rnng_stream_conn_set_header_def Let_def)
    then show ?thesis using Cons.IH [of "stream_step e sc"] Cons.prems(2) SetHeader by simp
  next
    case (Send d)
    have "headers_sent (stream_step e sc)" "wire (stream_step e sc) = wire sc @ [WHead (status_code sc mod 2 ^ 16)
             ((''Transfer-Encoding'', ''chunked'') # resp_headers sc), WBytes (chunk_bytes d)]"
      using Cons.prems(1)
      by (simp_all add: Send rnng_stream_conn_send_def SEXP_TO_BUF_def stream_write_headers_def all_ok_def
          stream_write_chunk_def)
    then show ?thesis using stream_steps_sent [of "stream_step e sc" ops] Send by simp
  qed
qed simp

fun wire_bytes :: "wire list \<Rightarrow> byte list" where
  "wire_bytes [] = []"
| "wire_bytes (WBytes bs # ws) = bs @ wire_bytes ws"
| "wire_bytes (WHead _ _ # ws) = wire_bytes ws"

lemma wire_bytes_chunks:
  "wire_bytes (map (\<lambda>d. WBytes (chunk_bytes d)) ds @ ws) = concat (map chunk_bytes ds) @ wire_bytes ws"
  by (induction ds) auto



text \<open>
  An empty send is the end of the response: its chunk is the terminator, so a client stops there
  and what is sent after it is not part of the body.
\<close>

theorem empty_send_terminates:
  "chunk_bytes [] = terminator
   \<and> dechunk (chunk_bytes [1] @ chunk_bytes [] @ chunk_bytes [2] @ terminator) = Some ([1], chunk_bytes [2] @ terminator)"
  by code_simp

text \<open>
  A failing second \<open>realloc\<close> leaves the connection with a pointer to an array that has been freed.
\<close>

theorem header_array_dangles:
  "names_live (snd (rnng_stream_conn_set_header True False True True n v stream_conn_new)) = False"
  by (simp add: rnng_stream_conn_set_header_def stream_conn_new_def)

end
