(* ===== verification/Server.thy ===== *)
theory Server
  imports HttpText Effects
begin

text \<open>
  The HTTP and WebSocket server (\<^verbatim>\<open>server.c\<close>): its connections and pending requests, the callbacks
  of NNG's threads, and the callbacks that \<open>later2\<close> queues for R's event loop. A connection is
  named by its id, which is unique in the server; the heap \<open>conns\<close> holds the structures that have
  not been freed, and touching one that has sets \<open>bad\<close>.
\<close>

section \<open>State\<close>

datatype nano_conn_type = NANO_CONN_WEBSOCKET | NANO_CONN_HTTP_STREAM

datatype nano_conn_state = CONN_STATE_OPEN | CONN_STATE_CLOSING | CONN_STATE_CLOSED

text \<open>\<open>k_xptr\<close>: there is an R external pointer; \<open>k_recv\<close>: a receive is outstanding at NNG.\<close>

record nano_conn =
  k_type :: nano_conn_type
  k_state :: nano_conn_state
  k_handler :: nat
  k_xptr :: bool
  k_onclose :: bool
  k_recv :: bool
  k_headers_sent :: bool

record nano_http_handler_info =
  h_on_open :: bool
  h_on_close :: bool
  h_callback :: bool
  h_textframes :: bool
  h_listener :: bool

datatype nano_server_state = SERVER_CREATED | SERVER_STARTED | SERVER_STOPPED

text \<open>The functions given to \<open>later2\<close>, with their argument.\<close>

datatype later_cb =
    LaterOpen nat | LaterMessage nat "byte list" | LaterClose nat | LaterRequest nat
  | LaterInvoke nat | LaterCleanup

datatype server_call =
    Accept nat | Finish nat int | Hijack nat | CancelSend nat | CancelRecv nat | StreamClose nat | HttpClose nat
  | Recv nat | FreeStream nat | FreeRecvAio nat | FreeReq nat | FreeHeaders nat | FreeSendAio nat | FreeConn nat
  | FreeMsg | FreeRequest nat | FreeNew | ClearPtr nat
  | OnOpen nat | OnMessage nat decoded | OnClose nat | OnRequest nat | OnHttp nat
  | Terminator nat | ServerStart | ServerStop | ListenerClose nat | AcceptStop nat | Listen nat
  | DelHandler nat | ListenerFree nat | ReleaseServer

text \<open>\<open>reqs\<close>: the pending requests that exist, with their \<open>cancelled\<close> flag; \<open>pending\<close> is the list.\<close>

record nano_http_server =
  s_state :: nano_server_state
  handlers :: "nano_http_handler_info list"
  conns :: "nat \<Rightarrow> nano_conn option"
  clists :: "nat \<Rightarrow> nat list"
  conn_counter :: nat
  reqs :: "nat \<Rightarrow> bool option"
  pending_reqs :: "nat list"
  prot :: "nat list"
  later :: "later_cb list"
  scalls :: "server_call list"
  bad :: bool

definition sdo :: "server_call list \<Rightarrow> nano_http_server \<Rightarrow> nano_http_server" where
  "sdo cs s = s\<lparr>scalls := scalls s @ cs\<rparr>"

definition later2 :: "later_cb \<Rightarrow> nano_http_server \<Rightarrow> nano_http_server" where
  "later2 f s = s\<lparr>later := later s @ [f]\<rparr>"

definition set_conn :: "nat \<Rightarrow> nano_conn \<Rightarrow> nano_http_server \<Rightarrow> nano_http_server" where
  "set_conn c k s = s\<lparr>conns := (conns s)(c \<mapsto> k)\<rparr>"

definition with_conn ::
  "nat \<Rightarrow> (nano_conn \<Rightarrow> nano_http_server \<Rightarrow> nano_http_server) \<Rightarrow> nano_http_server \<Rightarrow> nano_http_server" where
  "with_conn c f s = (case conns s c of None \<Rightarrow> s\<lparr>bad := True\<rparr> | Some k \<Rightarrow> f k s)"


section \<open>Opening connections, on NNG's threads\<close>

definition new_conn :: "nano_conn_type \<Rightarrow> nat \<Rightarrow> nano_conn" where
  "new_conn t h = \<lparr>k_type = t, k_state = CONN_STATE_OPEN, k_handler = h, k_xptr = False, k_onclose = False,
     k_recv = False, k_headers_sent = False\<rparr>"

text \<open>\<open>conn->id = ++srv->conn_counter; DL_PREPEND (info->conns, conn)\<close>, under the mutex.\<close>

definition add_conn :: "nano_conn_type \<Rightarrow> nat \<Rightarrow> nano_http_server \<Rightarrow> nat \<times> nano_http_server" where
  "add_conn t h s =
     (let c = conn_counter s + 1 in
      (c, (set_conn c (new_conn t h) s)\<lparr>conn_counter := c, clists := (clists s)(h := c # clists s h)\<rparr>))"

definition ws_accept_cb :: "int \<Rightarrow> bool \<Rightarrow> bool \<Rightarrow> nat \<Rightarrow> nano_http_server \<Rightarrow> nano_http_server" where
  "ws_accept_cb xc calloc_ok aio_ok h s =
     (let s1 = (if xc \<noteq> 0 then s
                else if \<not> calloc_ok then sdo [FreeStream 0] s
                else if \<not> aio_ok then sdo [FreeRecvAio 0, FreeStream 0, FreeNew] s
                else (let (c, s') = add_conn NANO_CONN_WEBSOCKET h s in later2 (LaterOpen c) s'))
      in if s_state s1 \<noteq> SERVER_STOPPED then sdo [Accept h] s1 else s1)"

text \<open>\<open>a\<close> names the NNG aio of the request; the connection is hijacked before anything can fail.\<close>

definition stream_handler_cb :: "bool \<Rightarrow> bool \<Rightarrow> nat \<Rightarrow> nat \<Rightarrow> nano_http_server \<Rightarrow> nano_http_server" where
  "stream_handler_cb calloc_ok aio_ok a h s =
     (if s_state s = SERVER_STOPPED then sdo [Finish a NNG_ECANCELED] s
      else
        (let s1 = sdo [Hijack a] s in
         if \<not> calloc_ok then sdo [HttpClose 0, FreeReq 0, Finish a 0] s1
         else if \<not> aio_ok then sdo [HttpClose 0, FreeReq 0, FreeNew, Finish a 0] s1
         else (let (c, s2) = add_conn NANO_CONN_HTTP_STREAM h s1 in
               sdo [Finish a 0] (later2 (LaterRequest c) s2))))"

section \<open>Closing\<close>

definition conn_is_open :: "nano_conn \<Rightarrow> bool" where
  "conn_is_open k = (k_state k = CONN_STATE_OPEN)"

definition conn_close_locked :: "nat \<Rightarrow> nano_http_server \<Rightarrow> nano_http_server" where
  "conn_close_locked c =
     with_conn c (\<lambda>k s.
       if k_state k \<noteq> CONN_STATE_OPEN then s
       else sdo (CancelSend c # (if k_type k = NANO_CONN_WEBSOCKET then [CancelRecv c, StreamClose c] else [HttpClose c]))
              (set_conn c (k\<lparr>k_state := CONN_STATE_CLOSING\<rparr>) s))"

text \<open>What follows \<open>conn_close_locked\<close> in both of its callers: schedule the close callback once.\<close>

definition schedule_onclose :: "nat \<Rightarrow> nano_http_server \<Rightarrow> nano_http_server" where
  "schedule_onclose c =
     with_conn c (\<lambda>k s. if k_onclose k then s
       else later2 (LaterClose c) (set_conn c (k\<lparr>k_onclose := True\<rparr>) s))"

definition conn_close :: "nat \<Rightarrow> nano_http_server \<Rightarrow> nano_http_server" where
  "conn_close c s = schedule_onclose c (conn_close_locked c s)"

text \<open>A receive has completed: \<open>xc\<close> is NNG's result, \<open>malloc_ok\<close> the allocation of the message node.\<close>

definition ws_recv_cb :: "int \<Rightarrow> bool \<Rightarrow> byte list \<Rightarrow> nat \<Rightarrow> nano_http_server \<Rightarrow> nano_http_server" where
  "ws_recv_cb xc malloc_ok msg c =
     with_conn c (\<lambda>k s.
       let s1 = set_conn c (k\<lparr>k_recv := False\<rparr>) s in
       if xc = 0 then
         (let s2 = (if malloc_ok then later2 (LaterMessage c msg) s1 else sdo [FreeMsg] s1) in
          if k_state k = CONN_STATE_OPEN then sdo [Recv c] (set_conn c (k\<lparr>k_recv := True\<rparr>) s2) else s2)
       else conn_close c s1)"

definition conn_cleanup :: "nat \<Rightarrow> nano_http_server \<Rightarrow> nano_http_server" where
  "conn_cleanup c =
     with_conn c (\<lambda>k s.
       let s1 = s\<lparr>clists := (clists s)(k_handler k := remove1 c (clists s (k_handler k)))\<rparr>;
           s2 = (if k_xptr k then sdo [ClearPtr c] (s1\<lparr>prot := prot_remove c (prot s1)\<rparr>) else s1)
       in sdo ((if k_type k = NANO_CONN_WEBSOCKET then [FreeStream c, FreeRecvAio c] else [FreeReq c, FreeHeaders c])
               @ [FreeSendAio c, FreeConn c])
            (s2\<lparr>conns := (conns s2)(c := None)\<rparr>))"

section \<open>Callbacks on R's thread\<close>

text \<open>
  \<open>user\<close> is what the R function called does to the server (closing connections, say).
\<close>

definition give_xptr :: "nat \<Rightarrow> nano_conn \<Rightarrow> nano_http_server \<Rightarrow> nano_http_server" where
  "give_xptr c k s = (set_conn c (k\<lparr>k_xptr := True\<rparr>) s)\<lparr>prot := prot_add c (prot s)\<rparr>"

definition ws_invoke_onopen ::
  "(nano_http_server \<Rightarrow> nano_http_server) \<Rightarrow> nat \<Rightarrow> nano_http_server \<Rightarrow> nano_http_server" where
  "ws_invoke_onopen user c =
     with_conn c (\<lambda>k s.
       if \<not> conn_is_open k then s
       else
         (let s1 = give_xptr c k s;
              s2 = (if h_on_open (handlers s ! k_handler k) then user (sdo [OnOpen c] s1) else s1)
          in with_conn c (\<lambda>k2 s3.
               if \<not> k_xptr k2 then s3
               else if k_state k2 = CONN_STATE_OPEN then sdo [Recv c] (set_conn c (k2\<lparr>k_recv := True\<rparr>) s3)
               else s3) s2))"

definition ws_invoke_onmessage ::
  "(nano_http_server \<Rightarrow> nano_http_server) \<Rightarrow> nat \<Rightarrow> byte list \<Rightarrow> nano_http_server \<Rightarrow> nano_http_server" where
  "ws_invoke_onmessage user c msg =
     with_conn c (\<lambda>k s.
       if \<not> conn_is_open k then sdo [FreeMsg] s
       else
         (let info = handlers s ! k_handler k;
              data = (if h_textframes info then StrSXP [msg] else RawSXP msg);
              s1 = (if h_callback info then user (sdo [OnMessage c (data, False)] s) else s)
          in sdo [FreeMsg] s1))"

definition conn_invoke_onclose ::
  "(nano_http_server \<Rightarrow> nano_http_server) \<Rightarrow> nat \<Rightarrow> nano_http_server \<Rightarrow> nano_http_server" where
  "conn_invoke_onclose user c =
     with_conn c (\<lambda>k s.
       conn_cleanup c (if h_on_close (handlers s ! k_handler k) \<and> k_xptr k then user (sdo [OnClose c] s) else s))"

definition stream_invoke_onrequest ::
  "(nano_http_server \<Rightarrow> nano_http_server) \<Rightarrow> nat \<Rightarrow> nano_http_server \<Rightarrow> nano_http_server" where
  "stream_invoke_onrequest user c =
     with_conn c (\<lambda>k s.
       if \<not> conn_is_open k then conn_cleanup c s
       else
         (let s1 = give_xptr c k s in
          if h_callback (handlers s ! k_handler k) then user (sdo [OnRequest c] s1) else s1))"

section \<open>Requests\<close>

text \<open>An HTTP request: a node on the pending list until the handler's turn comes. \<open>r\<close> is fresh.\<close>

definition http_handler_cb :: "bool \<Rightarrow> nat \<Rightarrow> nano_http_server \<Rightarrow> nano_http_server" where
  "http_handler_cb calloc_ok r s =
     (if s_state s = SERVER_STOPPED then sdo [Finish r NNG_ECANCELED] s
      else if \<not> calloc_ok then sdo [Finish r NNG_ENOMEM] s
      else later2 (LaterInvoke r) (s\<lparr>reqs := (reqs s)(r \<mapsto> False), pending_reqs := r # pending_reqs s\<rparr>))"

definition http_request_unlink :: "nat \<Rightarrow> nano_http_server \<Rightarrow> bool \<times> nano_http_server" where
  "http_request_unlink r s = (the (reqs s r), s\<lparr>pending_reqs := remove1 r (pending_reqs s)\<rparr>)"

fun cancel_walk :: "nat list \<Rightarrow> nano_http_server \<Rightarrow> nano_http_server" where
  "cancel_walk [] s = s"
| "cancel_walk (r # rs) s = cancel_walk rs (sdo [Finish r NNG_ECANCELED] (s\<lparr>reqs := (reqs s)(r \<mapsto> True)\<rparr>))"

definition http_cancel_pending_requests :: "nano_http_server \<Rightarrow> nano_http_server" where
  "http_cancel_pending_requests s = cancel_walk (pending_reqs s) s"

definition http_invoke_callback ::
  "(nano_http_server \<Rightarrow> nano_http_server) \<Rightarrow> nat \<Rightarrow> nano_http_server \<Rightarrow> nano_http_server" where
  "http_invoke_callback user r s =
     (case reqs s r of
        None \<Rightarrow> s\<lparr>bad := True\<rparr>
      | Some _ \<Rightarrow>
          (let (cancelled, s1) = http_request_unlink r s in
           if cancelled then sdo [FreeRequest r] (s1\<lparr>reqs := (reqs s1)(r := None)\<rparr>)
           else
             (let s2 = user (sdo [OnHttp r] s1) in
              sdo [Finish r 0, FreeRequest r] (s2\<lparr>reqs := (reqs s2)(r := None)\<rparr>))))"

section \<open>Stopping and cleaning up\<close>

fun close_walk :: "nat list \<Rightarrow> nano_http_server \<Rightarrow> nano_http_server" where
  "close_walk [] s = s"
| "close_walk (c # cs) s = close_walk cs (schedule_onclose c (conn_close_locked c s))"

fun stop_handlers :: "nat list \<Rightarrow> nano_http_server \<Rightarrow> nano_http_server" where
  "stop_handlers [] s = s"
| "stop_handlers (h # hs) s =
     stop_handlers hs
       (close_walk (clists s h)
          (if h_listener (handlers s ! h) then sdo [AcceptStop h, ListenerClose h] s else s))"

definition http_server_stop :: "nano_http_server \<Rightarrow> nano_http_server" where
  "http_server_stop s =
     stop_handlers [0..<length (handlers s)] (http_cancel_pending_requests (sdo [ServerStop] s))"

definition rnng_http_server_stop :: "nano_http_server \<Rightarrow> nano_http_server" where
  "rnng_http_server_stop s =
     (if s_state s = SERVER_STARTED then http_server_stop (s\<lparr>s_state := SERVER_STOPPED\<rparr>) else s)"

definition http_server_finalizer :: "nano_http_server \<Rightarrow> nano_http_server" where
  "http_server_finalizer s =
     later2 LaterCleanup
       (if s_state s = SERVER_STARTED then http_server_stop (s\<lparr>s_state := SERVER_STOPPED\<rparr>) else s)"

fun free_conns :: "nat list \<Rightarrow> nano_http_server \<Rightarrow> nano_http_server" where
  "free_conns [] s = s"
| "free_conns (c # cs) s =
     free_conns cs
       (with_conn c (\<lambda>k s.
          sdo ((if k_xptr k then [ClearPtr c] else [])
               @ (if k_type k = NANO_CONN_WEBSOCKET then [FreeStream c, FreeRecvAio c] else [FreeReq c, FreeHeaders c])
               @ [FreeSendAio c, FreeConn c])
            (s\<lparr>conns := (conns s)(c := None)\<rparr>)) s)"

fun cleanup_handlers :: "nat list \<Rightarrow> nano_http_server \<Rightarrow> nano_http_server" where
  "cleanup_handlers [] s = s"
| "cleanup_handlers (h # hs) s =
     cleanup_handlers hs
       (free_conns (clists s h)
          (sdo (if h_listener (handlers s ! h) then [ListenerFree h] else [DelHandler h]) s))"

definition http_server_cleanup :: "nano_http_server \<Rightarrow> nano_http_server" where
  "http_server_cleanup s = sdo [ReleaseServer] (cleanup_handlers [0..<length (handlers s)] s)"

section \<open>Functions called from R\<close>

text \<open>Starting: \<open>start\<close> and \<open>listen h\<close> answer NNG. On a failing listener everything is closed again.\<close>

fun start_listeners :: "(nat \<Rightarrow> int) \<Rightarrow> nat list \<Rightarrow> nano_http_server \<Rightarrow> int \<times> nano_http_server" where
  "start_listeners listen [] s = (0, s)"
| "start_listeners listen (h # hs) s =
     (if h_listener (handlers s ! h) then
        (if listen h \<noteq> 0 then (listen h, sdo [Listen h] s)
         else start_listeners listen hs (sdo [Listen h, Accept h] s))
      else start_listeners listen hs s)"

definition rnng_http_server_start :: "int \<Rightarrow> (nat \<Rightarrow> int) \<Rightarrow> nano_http_server \<Rightarrow> unit entry \<times> nano_http_server" where
  "rnng_http_server_start start listen s =
     (case s_state s of
        SERVER_STARTED \<Rightarrow> (Made (), s)
      | SERVER_STOPPED \<Rightarrow> (Raise ''server has been stopped'', s)
      | SERVER_CREATED \<Rightarrow>
          (if start \<noteq> 0 then (Failed start, s)
           else
             (let n = length (handlers s); (xc, s1) = start_listeners listen [0..<n] (sdo [ServerStart] s) in
              if xc \<noteq> 0 then
                (Failed xc, sdo (map ListenerClose (filter (\<lambda>h. h_listener (handlers s ! h)) [0..<n]) @ [ServerStop]) s1)
              else (Made (), s1\<lparr>s_state := SERVER_STARTED\<rparr>))))"

definition rnng_http_server_close :: "nano_http_server \<Rightarrow> nano_http_server" where
  "rnng_http_server_close s = http_server_finalizer s"

text \<open>A handle is valid while its connection exists and has its external pointer.\<close>

definition rnng_ws_close :: "nat \<Rightarrow> nano_http_server \<Rightarrow> unit entry \<times> nano_http_server" where
  "rnng_ws_close c s =
     (case conns s c of
        None \<Rightarrow> (Failed NNG_ECLOSED, s)
      | Some k \<Rightarrow> if \<not> k_xptr k then (Failed NNG_ECLOSED, s) else (Made (), conn_close c s))"

definition rnng_conn_close :: "nat \<Rightarrow> nano_http_server \<Rightarrow> unit entry \<times> nano_http_server" where
  "rnng_conn_close c s =
     (case conns s c of
        None \<Rightarrow> (Failed NNG_ECLOSED, s)
      | Some k \<Rightarrow>
          if \<not> k_xptr k then (Failed NNG_ECLOSED, s)
          else
            (let s1 = (if k_type k = NANO_CONN_HTTP_STREAM \<and> conn_is_open k \<and> k_headers_sent k
                       then sdo [Terminator c] s else s)
             in (Made (), conn_close c s1)))"

section \<open>The event loop\<close>

definition run_cb ::
  "(nano_http_server \<Rightarrow> nano_http_server) \<Rightarrow> later_cb \<Rightarrow> nano_http_server \<Rightarrow> nano_http_server" where
  "run_cb user f s =
     (case f of
        LaterOpen c \<Rightarrow> ws_invoke_onopen user c s
      | LaterMessage c msg \<Rightarrow> ws_invoke_onmessage user c msg s
      | LaterClose c \<Rightarrow> conn_invoke_onclose user c s
      | LaterRequest c \<Rightarrow> stream_invoke_onrequest user c s
      | LaterInvoke r \<Rightarrow> http_invoke_callback user r s
      | LaterCleanup \<Rightarrow> http_server_cleanup s)"

text \<open>\<open>later\<close> runs what has been queued first in, first out.\<close>

definition run_later :: "(nano_http_server \<Rightarrow> nano_http_server) \<Rightarrow> nano_http_server \<Rightarrow> nano_http_server" where
  "run_later user s = (case later s of [] \<Rightarrow> s | f # fs \<Rightarrow> run_cb user f (s\<lparr>later := fs\<rparr>))"

end
