(* ===== verification/ServerInv.thy ===== *)
theory ServerInv
  imports Server
begin

text \<open>
  The life of a connection, over every interleaving of NNG's callbacks, the event loop and R.
  What concerns one connection is its \<open>view\<close>; an operation on one connection leaves the views of
  the others alone, and \<open>conn_ok\<close> is the invariant on a view.
\<close>

section \<open>Views\<close>

fun cb_conn :: "later_cb \<Rightarrow> nat option" where
  "cb_conn (LaterOpen c) = Some c"
| "cb_conn (LaterMessage c msg) = Some c"
| "cb_conn (LaterClose c) = Some c"
| "cb_conn (LaterRequest c) = Some c"
| "cb_conn (LaterInvoke r) = None"
| "cb_conn LaterCleanup = None"

fun is_start :: "later_cb \<Rightarrow> bool" where
  "is_start (LaterOpen c) = True"
| "is_start (LaterRequest c) = True"
| "is_start _ = False"

record view =
  v_conn :: "nano_conn option"
  v_lists :: "nat \<Rightarrow> nat"
  v_prot :: nat
  v_queue :: "later_cb list"
  v_frees :: nat
  v_closes :: nat

definition view_of :: "nano_http_server \<Rightarrow> nat \<Rightarrow> view" where
  "view_of s c =
     \<lparr>v_conn = conns s c, v_lists = (\<lambda>h. count_list (clists s h) c), v_prot = count_list (prot s) c,
      v_queue = filter (\<lambda>f. cb_conn f = Some c) (later s),
      v_frees = count_list (scalls s) (FreeConn c), v_closes = count_list (scalls s) (OnClose c)\<rparr>"

fun state_ok :: "nano_conn_state \<Rightarrow> bool \<Rightarrow> nat \<Rightarrow> later_cb list \<Rightarrow> bool" where
  "state_ok CONN_STATE_OPEN onclose c q \<longleftrightarrow> \<not> onclose \<and> LaterClose c \<notin> set q"
| "state_ok CONN_STATE_CLOSING onclose c q \<longleftrightarrow>
     onclose \<and> q \<noteq> [] \<and> last q = LaterClose c \<and> LaterClose c \<notin> set (butlast q)"
| "state_ok CONN_STATE_CLOSED onclose c q \<longleftrightarrow> False"

text \<open>
  \<open>n\<close> is the connection counter: ids from 1 to \<open>n\<close> have been given out. \<open>x\<close> is the connection whose
  close callback is running, if one is: it has left the queue and is still there.
\<close>

definition queue_ok :: "nat \<Rightarrow> nano_conn \<Rightarrow> later_cb list \<Rightarrow> bool" where
  "queue_ok c k q \<longleftrightarrow> state_ok (k_state k) (k_onclose k) c q \<and> length (filter is_start q) \<le> 1
     \<and> (\<forall>f \<in> set q. is_start f \<longrightarrow> \<not> k_xptr k \<and> (f = LaterRequest c \<longrightarrow> k_state k = CONN_STATE_OPEN))"

definition conn_ok :: "nat option \<Rightarrow> nat \<Rightarrow> nat \<Rightarrow> view \<Rightarrow> bool" where
  "conn_ok x n c v \<longleftrightarrow>
     (case v_conn v of
        None \<Rightarrow> v_lists v = (\<lambda>h. 0) \<and> v_prot v = 0 \<and> v_queue v = []
          \<and> v_frees v = of_bool (0 < c \<and> c \<le> n) \<and> v_closes v \<le> of_bool (0 < c \<and> c \<le> n)
      | Some k \<Rightarrow> 0 < c \<and> c \<le> n \<and> v_lists v = (\<lambda>h. of_bool (h = k_handler k)) \<and> v_prot v = of_bool (k_xptr k)
          \<and> (k_recv k \<longrightarrow> k_xptr k) \<and> v_frees v = 0
          \<and> (if x = Some c then k_state k = CONN_STATE_CLOSING \<and> k_onclose k \<and> v_queue v = [] \<and> v_closes v \<le> 1
             else v_closes v = 0 \<and> queue_ok c k (v_queue v)))"

definition conns_ok :: "nat option \<Rightarrow> nano_http_server \<Rightarrow> bool" where
  "conns_ok x s \<longleftrightarrow> \<not> bad s \<and> (\<forall>c. conn_ok x (conn_counter s) c (view_of s c))"

lemma count_list_remove1: "count_list (remove1 x xs) y = count_list xs y - of_bool (x = y)"
  by (induction xs) (auto simp: count_list_0_iff)

lemma count_list_prot_remove: "count_list (prot_remove x xs) y = count_list xs y - of_bool (x = y)"
  by (simp add: prot_remove_remove1 count_list_remove1)

lemma conns_okD: "conns_ok x s \<Longrightarrow> conn_ok x (conn_counter s) c (view_of s c)"
  by (simp add: conns_ok_def)

text \<open>One connection changes: its new view has to be shown right, the others are as they were.\<close>

lemma conns_ok_one:
  assumes "conns_ok x s" "bad s' = bad s" "conn_counter s' = conn_counter s"
    and "conn_ok x (conn_counter s) c (view_of s' c)"
    and "\<And>c'. c' \<noteq> c \<Longrightarrow> view_of s' c' = view_of s c'"
  shows "conns_ok x s'"
  using assms unfolding conns_ok_def by metis

lemma conns_ok_same:
  assumes "conns_ok x s" "bad s' = bad s" "conn_counter s' = conn_counter s"
    and "\<And>c'. view_of s' c' = view_of s c'"
  shows "conns_ok x s'"
  using assms unfolding conns_ok_def by metis

fun conn_call :: "server_call \<Rightarrow> bool" where
  "conn_call (FreeConn c) = True"
| "conn_call (OnClose c) = True"
| "conn_call _ = False"

fun req_call :: "server_call \<Rightarrow> bool" where
  "req_call (Finish r xc) = True"
| "req_call (OnHttp r) = True"
| "req_call (FreeRequest r) = True"
| "req_call ReleaseServer = True"
| "req_call _ = False"

lemma count_quiet: "\<not> list_ex conn_call cs \<Longrightarrow> count_list cs (FreeConn c) = 0 \<and> count_list cs (OnClose c) = 0"
  by (induction cs) auto

lemma sdo_simps [simp]:
  "conns (sdo cs s) = conns s" "clists (sdo cs s) = clists s" "prot (sdo cs s) = prot s" "later (sdo cs s) = later s"
  "bad (sdo cs s) = bad s" "conn_counter (sdo cs s) = conn_counter s" "s_state (sdo cs s) = s_state s"
  "handlers (sdo cs s) = handlers s" "reqs (sdo cs s) = reqs s" "pending_reqs (sdo cs s) = pending_reqs s"
  "scalls (sdo cs s) = scalls s @ cs"
  by (simp_all add: sdo_def)

lemma view_sdo [simp]: "\<not> list_ex conn_call cs \<Longrightarrow> view_of (sdo cs s) c = view_of s c"
  by (simp add: view_of_def count_quiet)

lemma conns_ok_sdo: "conns_ok x s \<Longrightarrow> \<not> list_ex conn_call cs \<Longrightarrow> conns_ok x (sdo cs s)"
  by (rule conns_ok_same [of x s]) simp_all

lemma later2_simps [simp]:
  "conns (later2 f s) = conns s" "clists (later2 f s) = clists s" "prot (later2 f s) = prot s"
  "later (later2 f s) = later s @ [f]" "bad (later2 f s) = bad s" "conn_counter (later2 f s) = conn_counter s"
  "s_state (later2 f s) = s_state s" "handlers (later2 f s) = handlers s" "reqs (later2 f s) = reqs s"
  "pending_reqs (later2 f s) = pending_reqs s" "scalls (later2 f s) = scalls s"
  by (simp_all add: later2_def)

lemma set_conn_simps [simp]:
  "conns (set_conn c k s) = (conns s)(c \<mapsto> k)" "clists (set_conn c k s) = clists s" "prot (set_conn c k s) = prot s"
  "later (set_conn c k s) = later s" "bad (set_conn c k s) = bad s" "conn_counter (set_conn c k s) = conn_counter s"
  "s_state (set_conn c k s) = s_state s" "handlers (set_conn c k s) = handlers s" "reqs (set_conn c k s) = reqs s"
  "pending_reqs (set_conn c k s) = pending_reqs s" "scalls (set_conn c k s) = scalls s"
  by (simp_all add: set_conn_def)

lemma conns_ok_other_later:
  assumes "conns_ok x s" "cb_conn f = None"
  shows "conns_ok x (later2 f s)"
  by (rule conns_ok_same [OF assms(1)]) (simp_all add: view_of_def assms(2))

lemmas view_defs = conn_ok_def view_of_def queue_ok_def

section \<open>Closing\<close>

lemma live_conn: "conns_ok x s \<Longrightarrow> conns s c = Some k \<Longrightarrow> k_state k \<noteq> CONN_STATE_CLOSED \<and> (k_onclose k \<longleftrightarrow> k_state k \<noteq> CONN_STATE_OPEN)"
  using conns_okD [of x s c] by (cases "k_state k") (auto simp: view_defs split: if_splits)

text \<open>Both ways of closing a connection that exists come to this.\<close>

definition closing :: "nat \<Rightarrow> nano_conn \<Rightarrow> nano_http_server \<Rightarrow> nano_http_server" where
  "closing c k s =
     (if k_state k = CONN_STATE_OPEN
      then later2 (LaterClose c) (set_conn c (k\<lparr>k_state := CONN_STATE_CLOSING, k_onclose := True\<rparr>)
             (sdo (CancelSend c # (if k_type k = NANO_CONN_WEBSOCKET then [CancelRecv c, StreamClose c] else [HttpClose c])) s))
      else s)"

lemma conn_close_closing:
  assumes "conns_ok x s" "conns s c = Some k"
  shows "conn_close c s = closing c k s"
  using live_conn [OF assms] assms(2)
  by (auto simp: conn_close_def closing_def conn_close_locked_def schedule_onclose_def with_conn_def set_conn_def
      sdo_def later2_def)

text \<open>A stream connection whose request callback is still queued may not be closed.\<close>

definition may_close :: "nat \<Rightarrow> nano_http_server \<Rightarrow> bool" where
  "may_close c s \<longleftrightarrow> LaterRequest c \<notin> set (later s)"



lemma closing_ok:
  assumes "conns_ok x s" "conns s c = Some k" "may_close c s"
  shows "conns_ok x (closing c k s)"
proof (cases "k_state k = CONN_STATE_OPEN")
  case True
  show ?thesis
  proof (rule conns_ok_one [OF assms(1), where c = c])
    show "conn_ok x (conn_counter s) c (view_of (closing c k s) c)"
      using conns_okD [OF assms(1), of c] assms(2,3) True
      by (auto simp: closing_def view_defs may_close_def split: if_splits)
    show "view_of (closing c k s) c' = view_of s c'" if "c' \<noteq> c" for c'
      using that True by (simp add: closing_def view_of_def)
  qed (simp_all add: closing_def True)
qed (use assms in \<open>simp add: closing_def\<close>)

lemma conn_close_ok:
  "conns_ok x s \<Longrightarrow> conns s c = Some k \<Longrightarrow> may_close c s \<Longrightarrow> conns_ok x (conn_close c s)"
  using conn_close_closing closing_ok by simp

text \<open>A connection with an external pointer has started, so R may always close it.\<close>

lemma queued_start:
  assumes "conns_ok x s" "conns s c = Some k" "f \<in> set (later s)" "cb_conn f = Some c" "is_start f"
  shows "\<not> k_xptr k \<and> x \<noteq> Some c \<and> (f = LaterRequest c \<longrightarrow> k_state k = CONN_STATE_OPEN)"
proof -
  have "f \<in> set (v_queue (view_of s c))"
    using assms(3,4) by (simp add: view_of_def)
  then show ?thesis
    using conns_okD [OF assms(1), of c] assms(2,5) by (auto simp: conn_ok_def queue_ok_def view_of_def filter_empty_conv split: if_splits)
qed

lemma xptr_may_close: "conns_ok x s \<Longrightarrow> conns s c = Some k \<Longrightarrow> k_xptr k \<Longrightarrow> may_close c s"
  using queued_start [of x s c k "LaterRequest c"] by (auto simp: may_close_def)

lemma rnng_conn_close_ok: "conns_ok x s \<Longrightarrow> conns_ok x (snd (rnng_conn_close c s))"
  using conn_close_ok [of x s c] conn_close_ok [OF conns_ok_sdo, of x s "[Terminator c]" c] xptr_may_close [of x s c]
  by (auto simp: rnng_conn_close_def Let_def may_close_def split: option.splits)

lemma rnng_ws_close_ok: "conns_ok x s \<Longrightarrow> conns_ok x (snd (rnng_ws_close c s))"
  using conn_close_ok [of x s c] xptr_may_close [of x s c]
  by (auto simp: rnng_ws_close_def split: option.splits)

section \<open>What R callbacks may do\<close>

text \<open>A user function closes any of the connections it has handles of.\<close>

definition closes :: "nat list \<Rightarrow> nano_http_server \<Rightarrow> nano_http_server" where
  "closes cs s = fold (\<lambda>c s. snd (rnng_conn_close c s)) cs s"

definition closed_conn :: "nat \<Rightarrow> nano_http_server \<Rightarrow> bool" where
  "closed_conn c s \<longleftrightarrow> (\<forall>k. conns s c = Some k \<longrightarrow> k_state k \<noteq> CONN_STATE_OPEN)"

definition all_closed :: "nano_http_server \<Rightarrow> bool" where
  "all_closed s \<longleftrightarrow> (\<forall>c. closed_conn c s)"

text \<open>What stays: everything but states of connections and what closing queues and calls.\<close>

definition keeps :: "nano_http_server \<Rightarrow> nano_http_server \<Rightarrow> bool" where
  "keeps s s' \<longleftrightarrow> clists s' = clists s \<and> prot s' = prot s \<and> conn_counter s' = conn_counter s
     \<and> s_state s' = s_state s \<and> handlers s' = handlers s \<and> reqs s' = reqs s \<and> pending_reqs s' = pending_reqs s
     \<and> (\<forall>c. map_option (\<lambda>k. (k_type k, k_handler k, k_xptr k)) (conns s' c)
           = map_option (\<lambda>k. (k_type k, k_handler k, k_xptr k)) (conns s c))
     \<and> (\<forall>c. closed_conn c s \<longrightarrow> closed_conn c s') \<and> (all_closed s \<longrightarrow> later s' = later s)
     \<and> (\<exists>q. later s' = later s @ q \<and> (\<forall>f \<in> set q. \<exists>c. f = LaterClose c))
     \<and> (\<exists>cs. scalls s' = scalls s @ cs \<and> \<not> list_ex conn_call cs \<and> \<not> list_ex req_call cs)"

lemma closed_conn_simps [simp]:
  "closed_conn c (sdo cs s) = closed_conn c s" "closed_conn c (later2 f s) = closed_conn c s"
  "closed_conn d (set_conn c k s) = (if d = c then k_state k \<noteq> CONN_STATE_OPEN else closed_conn d s)"
  by (simp_all add: closed_conn_def)

lemma all_closedD: "all_closed s \<Longrightarrow> conns s c = Some k \<Longrightarrow> k_state k \<noteq> CONN_STATE_OPEN"
  by (simp add: all_closed_def closed_conn_def)

lemma keeps_refl [simp]: "keeps s s"
  by (auto simp: keeps_def intro!: exI [of _ "[]"])

lemma keeps_trans:
  assumes "keeps s s'" "keeps s' s''"
  shows "keeps s s''"
proof -
  obtain p where p: "later s' = later s @ p" "\<forall>f \<in> set p. \<exists>c. f = LaterClose c"
    using assms(1) by (auto simp: keeps_def)
  obtain q where q: "later s'' = later s' @ q" "\<forall>f \<in> set q. \<exists>c. f = LaterClose c"
    using assms(2) by (auto simp: keeps_def)
  obtain a where a: "scalls s' = scalls s @ a" "\<not> list_ex conn_call a" "\<not> list_ex req_call a"
    using assms(1) by (auto simp: keeps_def)
  obtain b where b: "scalls s'' = scalls s' @ b" "\<not> list_ex conn_call b" "\<not> list_ex req_call b"
    using assms(2) by (auto simp: keeps_def)
  have "\<exists>q. later s'' = later s @ q \<and> (\<forall>f \<in> set q. \<exists>c. f = LaterClose c)"
    using p q by (intro exI [of _ "p @ q"]) auto
  moreover have "\<exists>cs. scalls s'' = scalls s @ cs \<and> \<not> list_ex conn_call cs \<and> \<not> list_ex req_call cs"
    using a b by (intro exI [of _ "a @ b"]) simp
  moreover have "all_closed s \<longrightarrow> later s'' = later s"
    using assms by (auto simp: keeps_def all_closed_def)
  ultimately show ?thesis
    using assms by (simp add: keeps_def)
qed

lemma keeps_sdo:
  assumes "\<not> list_ex conn_call cs" "\<not> list_ex req_call cs"
  shows "keeps s (sdo cs s)"
proof -
  have "\<exists>q. later s = later s @ q \<and> (\<forall>f \<in> set q. \<exists>c. f = LaterClose c)"
    by (intro exI [of _ "[]"]) simp
  with assms show ?thesis
    by (simp add: keeps_def)
qed

lemma keeps_closing: "conns s c = Some k \<Longrightarrow> keeps s (closing c k s)"
  by (auto simp: keeps_def closing_def dest: all_closedD)

lemma keeps_close: "conns_ok x s \<Longrightarrow> keeps s (snd (rnng_conn_close c s))"
  using keeps_closing [of s c] keeps_trans [OF keeps_sdo [of "[Terminator c]" s] keeps_closing]
    conn_close_closing [of x s c] conn_close_closing [OF conns_ok_sdo, of x s "[Terminator c]" c]
  by (auto simp: rnng_conn_close_def Let_def split: option.splits)

lemma closes_ok: "conns_ok x s \<Longrightarrow> conns_ok x (closes cs s) \<and> keeps s (closes cs s)"
proof (induction cs arbitrary: s)
  case (Cons c cs)
  show ?case
    using Cons.IH [OF rnng_conn_close_ok [OF Cons.prems, of c]] keeps_trans [OF keeps_close [OF Cons.prems, of c]]
    by (simp add: closes_def)
qed (simp add: closes_def)

lemma keeps_conn:
  assumes "keeps s s'" "conns s c = Some k"
  obtains k' where "conns s' c = Some k'" "k_handler k' = k_handler k" "k_xptr k' = k_xptr k" "k_type k' = k_type k"
proof -
  have "map_option (\<lambda>k. (k_type k, k_handler k, k_xptr k)) (conns s' c)
      = map_option (\<lambda>k. (k_type k, k_handler k, k_xptr k)) (conns s c)"
    using assms(1) by (simp add: keeps_def)
  then show thesis
    using assms(2) that by auto
qed

section \<open>Callbacks of NNG's threads\<close>

lemma conns_ok_new:
  assumes "conns_ok None s" "is_start f" "cb_conn f = Some (Suc (conn_counter s))"
  shows "conns_ok None (later2 f (snd (add_conn t h s)))"
proof -
  let ?n = "Suc (conn_counter s)"
  let ?s' = "later2 f (snd (add_conn t h s))"
  have new: "conn_ok None (conn_counter s) ?n (view_of s ?n)"
    by (rule conns_okD [OF assms(1)])
  have "conns s ?n = None"
    using new by (auto simp: view_defs split: option.splits)
  then have fresh: "\<And>h. count_list (clists s h) ?n = 0" "count_list (prot s) ?n = 0"
    "filter (\<lambda>f. cb_conn f = Some ?n) (later s) = []" "count_list (scalls s) (FreeConn ?n) = 0"
    "count_list (scalls s) (OnClose ?n) = 0"
    using new by (simp_all add: view_defs fun_eq_iff)
  have view: "view_of ?s' ?n = \<lparr>v_conn = Some (new_conn t h), v_lists = (\<lambda>i. of_bool (i = h)), v_prot = 0,
      v_queue = [f], v_frees = 0, v_closes = 0\<rparr>"
    using fresh assms(3) by (simp add: view_of_def add_conn_def Let_def fun_eq_iff)
  have "conn_ok None ?n ?n (view_of ?s' ?n)"
    unfolding view using assms(2,3) by (cases f) (auto simp: view_defs new_conn_def)
  moreover have "conn_ok None ?n c (view_of ?s' c)" if "c \<noteq> ?n" for c
  proof -
    have "view_of ?s' c = view_of s c"
      using that assms(3) by (simp add: view_of_def add_conn_def Let_def fun_eq_iff)
    then show ?thesis
      using conns_okD [OF assms(1), of c] that by (cases "v_conn (view_of s c)") (auto simp: conn_ok_def)
  qed
  ultimately show ?thesis
    using assms(1) by (simp add: conns_ok_def add_conn_def Let_def) metis
qed

lemma state_accept: "s_state (ws_accept_cb xc calloc_ok aio_ok h s) = s_state s"
  by (simp add: ws_accept_cb_def add_conn_def Let_def)

lemma ws_accept_cb_ok:
  assumes "conns_ok None s"
  shows "conns_ok None (ws_accept_cb xc calloc_ok aio_ok h s)"
proof -
  note new = conns_ok_new [OF assms, of "LaterOpen (Suc (conn_counter s))" NANO_CONN_WEBSOCKET h]
  show ?thesis
    using assms new by (auto simp: ws_accept_cb_def add_conn_def Let_def conns_ok_sdo)
qed

lemma stream_handler_cb_ok:
  assumes "conns_ok None s"
  shows "conns_ok None (stream_handler_cb calloc_ok aio_ok a h s)"
proof -
  note hijack = conns_ok_sdo [OF assms, of "[Hijack a]"]
  note new = conns_ok_new [OF hijack, of "LaterRequest (Suc (conn_counter s))" NANO_CONN_HTTP_STREAM h]
  show ?thesis
    using assms hijack new by (auto simp: stream_handler_cb_def add_conn_def Let_def conns_ok_sdo)
qed

lemma conns_ok_recv:
  assumes "conns_ok x s" "conns s c = Some k" "b \<longrightarrow> k_xptr k"
  shows "conns_ok x (set_conn c (k\<lparr>k_recv := b\<rparr>) s)"
proof (rule conns_ok_one [OF assms(1), where c = c])
  show "conn_ok x (conn_counter s) c (view_of (set_conn c (k\<lparr>k_recv := b\<rparr>) s) c)"
    using conns_okD [OF assms(1), of c] assms(2,3) by (auto simp: view_defs split: if_splits)
qed (simp_all add: view_of_def)

lemma conns_ok_message:
  assumes "conns_ok x s" "conns s c = Some k" "k_state k = CONN_STATE_OPEN"
  shows "conns_ok x (later2 (LaterMessage c msg) s)"
proof (rule conns_ok_one [OF assms(1), where c = c])
  show "conn_ok x (conn_counter s) c (view_of (later2 (LaterMessage c msg) s) c)"
    using conns_okD [OF assms(1), of c] assms(2,3) by (auto simp: view_defs split: if_splits)
qed (simp_all add: view_of_def)

lemma ws_recv_cb_ok:
  assumes "conns_ok x s" "conns s c = Some k" "k_recv k" "xc = 0 \<longrightarrow> k_state k = CONN_STATE_OPEN"
  shows "conns_ok x (ws_recv_cb xc malloc_ok msg c s)"
proof -
  have xptr: "k_xptr k"
    using conns_okD [OF assms(1), of c] assms(2,3) by (simp add: view_defs)
  let ?k = "k\<lparr>k_recv := False\<rparr>"
  let ?s = "set_conn c ?k s"
  have ok: "conns_ok x ?s"
    by (rule conns_ok_recv [OF assms(1,2)]) simp
  have at: "conns ?s c = Some ?k"
    by simp
  show ?thesis
  proof (cases "xc = 0")
    case True
    let ?s2 = "if malloc_ok then later2 (LaterMessage c msg) ?s else sdo [FreeMsg] ?s"
    have st: "k_state k = CONN_STATE_OPEN"
      using True assms(4) by simp
    have ok2: "conns_ok x ?s2"
      using ok st conns_ok_message [OF ok at, of msg] by (simp add: conns_ok_sdo)
    have "conns ?s2 c = Some ?k"
      by simp
    from conns_ok_recv [OF ok2 this, of True] xptr have "conns_ok x (set_conn c (k\<lparr>k_recv := True\<rparr>) ?s2)"
      by simp
    with True st assms(2) show ?thesis
      by (simp add: ws_recv_cb_def with_conn_def Let_def conns_ok_sdo)
  next
    case False
    have "may_close c ?s"
      using xptr_may_close [OF ok at] xptr by simp
    with False assms(2) conn_close_ok [OF ok at] show ?thesis
      by (simp add: ws_recv_cb_def with_conn_def)
  qed
qed

section \<open>The event loop\<close>

lemma queue_ok_tail: "queue_ok c k (f # q) \<Longrightarrow> f \<noteq> LaterClose c \<Longrightarrow> queue_ok c k q"
  by (cases "k_state k") (auto simp: queue_ok_def split: if_splits)

text \<open>Taking a callback off the queue, unless it is the last of a connection.\<close>

lemma conns_ok_pop:
  assumes "conns_ok None s" "later s = f # fs" "\<forall>c. f \<noteq> LaterClose c"
  shows "conns_ok None (s\<lparr>later := fs\<rparr>)"
proof -
  have "conn_ok None (conn_counter s) c (view_of (s\<lparr>later := fs\<rparr>) c)" for c
  proof (cases "cb_conn f = Some c")
    case False
    then have "view_of (s\<lparr>later := fs\<rparr>) c = view_of s c"
      by (simp add: view_of_def assms(2))
    then show ?thesis
      using conns_okD [OF assms(1), of c] by simp
  next
    case True
    then have q: "v_queue (view_of s c) = f # v_queue (view_of (s\<lparr>later := fs\<rparr>) c)"
      by (simp add: view_of_def assms(2))
    then obtain k where k: "conns s c = Some k" "queue_ok c k (f # v_queue (view_of (s\<lparr>later := fs\<rparr>) c))"
      using conns_okD [OF assms(1), of c]
      by (cases "conns s c") (simp_all add: conn_ok_def view_of_def)
    from queue_ok_tail [OF k(2)] assms(3) conns_okD [OF assms(1), of c] k(1) show ?thesis
      by (simp add: conn_ok_def view_of_def)
  qed
  then show ?thesis
    using assms(1) by (simp add: conns_ok_def)
qed

lemma popped_live:
  assumes "conns_ok None s" "later s = f # fs" "cb_conn f = Some c"
  obtains k where "conns s c = Some k" "queue_ok c k (f # filter (\<lambda>f. cb_conn f = Some c) fs)"
  using conns_okD [OF assms(1), of c] assms(2,3) by (auto simp: conn_ok_def view_of_def split: option.splits)

end
