(* ===== verification/ServerRun.thy ===== *)
theory ServerRun
  imports ServerInv
begin

text \<open>
  The callbacks of the event loop keep the invariant \<open>conns_ok\<close> on the connections, and so do
  stopping and cleaning up. An R function called back closes the connections \<open>us\<close>.
\<close>

section \<open>Opening callbacks\<close>

lemma give_xptr_simps [simp]:
  "conns (give_xptr c k s) = (conns s)(c \<mapsto> k\<lparr>k_xptr := True\<rparr>)" "clists (give_xptr c k s) = clists s"
  "prot (give_xptr c k s) = prot_add c (prot s)" "later (give_xptr c k s) = later s" "bad (give_xptr c k s) = bad s"
  "conn_counter (give_xptr c k s) = conn_counter s" "s_state (give_xptr c k s) = s_state s"
  "handlers (give_xptr c k s) = handlers s" "reqs (give_xptr c k s) = reqs s"
  "pending_reqs (give_xptr c k s) = pending_reqs s" "scalls (give_xptr c k s) = scalls s"
  by (simp_all add: give_xptr_def)

lemma conns_ok_xptr:
  assumes "conns_ok None s" "conns s c = Some k" "\<not> k_xptr k"
    and "\<forall>f \<in> set (later s). cb_conn f = Some c \<longrightarrow> \<not> is_start f"
  shows "conns_ok None (give_xptr c k s)"
proof (rule conns_ok_one [OF assms(1), where c = c])
  show "conn_ok None (conn_counter s) c (view_of (give_xptr c k s) c)"
    using conns_okD [OF assms(1), of c] assms(2-4) by (auto simp: view_defs prot_add_def)
qed (simp_all add: view_of_def prot_add_def)

text \<open>The first callback of a connection gives it its external pointer.\<close>

lemma start_popped:
  assumes "conns_ok None s" "later s = f # fs" "cb_conn f = Some c" "is_start f"
  obtains k where "conns s c = Some k" "conns_ok None (s\<lparr>later := fs\<rparr>)"
    "conns_ok None (give_xptr c k (s\<lparr>later := fs\<rparr>))" "f = LaterRequest c \<Longrightarrow> k_state k = CONN_STATE_OPEN"
proof -
  obtain k where k: "conns s c = Some k" "queue_ok c k (f # filter (\<lambda>f. cb_conn f = Some c) fs)"
    using popped_live [OF assms(1-3)] .
  have ok: "conns_ok None (s\<lparr>later := fs\<rparr>)"
    by (rule conns_ok_pop [OF assms(1,2)]) (use assms(4) in auto)
  have "\<not> k_xptr k" "f = LaterRequest c \<Longrightarrow> k_state k = CONN_STATE_OPEN"
    using k(2) assms(4) by (auto simp: queue_ok_def)
  moreover have "\<forall>f \<in> set fs. cb_conn f = Some c \<longrightarrow> \<not> is_start f"
    using k(2) assms(4) by (auto simp: queue_ok_def filter_empty_conv)
  ultimately show thesis
    using that [OF k(1) ok] conns_ok_xptr [OF ok, of c k] k(1) by simp
qed

definition uses :: "bool \<Rightarrow> server_call \<Rightarrow> nat list \<Rightarrow> nano_http_server \<Rightarrow> nano_http_server" where
  "uses b call us s = (if b then closes us (sdo [call] s) else s)"

lemma uses_ok:
  assumes "conns_ok x s" "\<not> conn_call call" "\<not> req_call call"
  shows "conns_ok x (uses b call us s) \<and> keeps s (uses b call us s)"
  using closes_ok [OF conns_ok_sdo [OF assms(1), of "[call]"], of us] keeps_trans [OF keeps_sdo [of "[call]" s]] assms
  by (auto simp: uses_def)

section \<open>What stays\<close>

text \<open>
  What a callback on one connection leaves alone: the server's state, the requests, the connections
  that are closed already; it only queues more callbacks on connections.
\<close>

definition frame :: "nano_http_server \<Rightarrow> nano_http_server \<Rightarrow> bool" where
  "frame s s' \<longleftrightarrow> handlers s' = handlers s \<and> s_state s' = s_state s \<and> (\<forall>h. set (clists s' h) \<subseteq> set (clists s h))
     \<and> (\<forall>c. closed_conn c s \<longrightarrow> closed_conn c s') \<and> (all_closed s \<longrightarrow> later s' = later s)
     \<and> reqs s' = reqs s \<and> pending_reqs s' = pending_reqs s
     \<and> (\<exists>q. later s' = later s @ q \<and> (\<forall>f \<in> set q. \<exists>c. cb_conn f = Some c))
     \<and> (\<exists>cs. scalls s' = scalls s @ cs \<and> \<not> list_ex req_call cs)"

lemma frame_refl [simp]: "frame s s"
  by (auto simp: frame_def intro!: exI [of _ "[]"])

lemma frame_trans:
  assumes "frame s s'" "frame s' s''"
  shows "frame s s''"
proof -
  obtain p where p: "later s' = later s @ p" "\<forall>f \<in> set p. \<exists>c. cb_conn f = Some c"
    using assms(1) by (auto simp: frame_def)
  obtain q where q: "later s'' = later s' @ q" "\<forall>f \<in> set q. \<exists>c. cb_conn f = Some c"
    using assms(2) by (auto simp: frame_def)
  obtain a where a: "scalls s' = scalls s @ a" "\<not> list_ex req_call a"
    using assms(1) by (auto simp: frame_def)
  obtain b where b: "scalls s'' = scalls s' @ b" "\<not> list_ex req_call b"
    using assms(2) by (auto simp: frame_def)
  have "\<exists>q. later s'' = later s @ q \<and> (\<forall>f \<in> set q. \<exists>c. cb_conn f = Some c)"
    using p q by (intro exI [of _ "p @ q"]) auto
  moreover have "\<exists>cs. scalls s'' = scalls s @ cs \<and> \<not> list_ex req_call cs"
    using a b by (intro exI [of _ "a @ b"]) simp
  moreover have "all_closed s \<longrightarrow> later s'' = later s"
    using assms by (auto simp: frame_def all_closed_def)
  moreover have "\<forall>h. set (clists s'' h) \<subseteq> set (clists s h)"
    using assms unfolding frame_def by blast
  ultimately show ?thesis
    using assms by (simp add: frame_def)
qed

lemma frame_keeps:
  assumes "keeps s s'"
  shows "frame s s'"
proof -
  obtain q where q: "later s' = later s @ q" "\<forall>f \<in> set q. \<exists>c. f = LaterClose c"
    using assms by (auto simp: keeps_def)
  then have "\<exists>q. later s' = later s @ q \<and> (\<forall>f \<in> set q. \<exists>c. cb_conn f = Some c)"
    by (intro exI [of _ q]) force
  then show ?thesis
    using assms by (auto simp: frame_def keeps_def)
qed

lemma frame_sdo:
  assumes "\<not> list_ex req_call cs"
  shows "frame s (sdo cs s)"
proof -
  have "\<exists>q. later s = later s @ q \<and> (\<forall>f \<in> set q. \<exists>c. cb_conn f = Some c)"
    by (intro exI [of _ "[]"]) simp
  with assms show ?thesis
    by (simp add: frame_def)
qed

lemma frame_fields:
  assumes "handlers s' = handlers s" "s_state s' = s_state s" "\<And>h. set (clists s' h) \<subseteq> set (clists s h)"
    "\<And>c. closed_conn c s \<Longrightarrow> closed_conn c s'" "later s' = later s" "reqs s' = reqs s"
    "pending_reqs s' = pending_reqs s" "scalls s' = scalls s"
  shows "frame s s'"
  using assms by (auto simp: frame_def intro!: exI [of _ "[]"])

lemma frame_set_conn:
  assumes "conns s c = Some k" "k_state k' = k_state k"
  shows "frame s (set_conn c k' s)"
  by (rule frame_fields) (use assms in \<open>auto simp: closed_conn_def\<close>)

lemma frame_uses:
  assumes "conns_ok x s" "\<not> conn_call call" "\<not> req_call call"
  shows "frame s (uses b call us s)"
  by (rule frame_keeps) (use uses_ok [OF assms] in simp)

lemma frame_xptr: "conns s c = Some k \<Longrightarrow> frame s (give_xptr c k s)"
  by (rule frame_fields) (auto simp: closed_conn_def)

lemma frame_cleanup:
  assumes "conns s c = Some k"
  shows "frame s (conn_cleanup c s)"
proof -
  let ?free = "(if k_type k = NANO_CONN_WEBSOCKET then [FreeStream c, FreeRecvAio c] else [FreeReq c, FreeHeaders c])
    @ [FreeSendAio c, FreeConn c]"
  let ?cs = "(if k_xptr k then [ClearPtr c] else []) @ ?free"
  have "scalls (conn_cleanup c s) = scalls s @ ?cs" "\<not> list_ex req_call ?cs"
    using assms by (auto simp: conn_cleanup_def with_conn_def Let_def)
  moreover have "\<exists>q. later s = later s @ q \<and> (\<forall>f \<in> set q. \<exists>c. cb_conn f = Some c)"
    by (intro exI [of _ "[]"]) simp
  ultimately show ?thesis
    unfolding frame_def using assms
    by (auto simp: conn_cleanup_def with_conn_def Let_def closed_conn_def dest: set_remove1_subset [THEN subsetD])
qed

section \<open>The callbacks\<close>

lemma ws_invoke_onopen_ok:
  assumes "conns_ok None s" "later s = LaterOpen c # fs"
  shows "conns_ok None (ws_invoke_onopen (closes us) c (s\<lparr>later := fs\<rparr>))"
    "frame (s\<lparr>later := fs\<rparr>) (ws_invoke_onopen (closes us) c (s\<lparr>later := fs\<rparr>))"
proof -
  let ?s = "s\<lparr>later := fs\<rparr>"
  obtain k where k: "conns s c = Some k" and ok: "conns_ok None ?s" and xok: "conns_ok None (give_xptr c k ?s)"
    using start_popped [OF assms] by auto
  let ?s2 = "uses (h_on_open (handlers s ! k_handler k)) (OnOpen c) us (give_xptr c k ?s)"
  have ok2: "conns_ok None ?s2" and keep: "keeps (give_xptr c k ?s) ?s2"
    using uses_ok [OF xok, of "OnOpen c"] by auto
  obtain k2 where k2: "conns ?s2 c = Some k2" "k_xptr k2"
    using keeps_conn [OF keep, of c "k\<lparr>k_xptr := True\<rparr>"] k by auto
  let ?s3 = "sdo [Recv c] (set_conn c (k2\<lparr>k_recv := True\<rparr>) ?s2)"
  have ok3: "conns_ok None ?s3"
    using conns_ok_recv [OF ok2 k2(1), of True] k2(2) by (simp add: conns_ok_sdo)
  have fr2: "frame ?s ?s2"
    by (rule frame_trans [OF frame_xptr frame_keeps [OF keep]]) (simp add: k)
  have "frame ?s2 ?s3"
    by (rule frame_trans [OF frame_set_conn [OF k2(1)] frame_sdo]) simp_all
  then have fr3: "frame ?s ?s3"
    by (rule frame_trans [OF fr2])
  have "ws_invoke_onopen (closes us) c ?s \<in> {?s, ?s2, ?s3}"
    using k k2 by (auto simp: ws_invoke_onopen_def with_conn_def Let_def uses_def)
  with ok ok2 ok3 fr2 fr3 frame_refl [of ?s] show "conns_ok None (ws_invoke_onopen (closes us) c ?s)"
    "frame ?s (ws_invoke_onopen (closes us) c ?s)"
    by auto
qed

lemma stream_invoke_onrequest_ok:
  assumes "conns_ok None s" "later s = LaterRequest c # fs"
  shows "conns_ok None (stream_invoke_onrequest (closes us) c (s\<lparr>later := fs\<rparr>))"
    "frame (s\<lparr>later := fs\<rparr>) (stream_invoke_onrequest (closes us) c (s\<lparr>later := fs\<rparr>))"
proof -
  let ?s = "s\<lparr>later := fs\<rparr>"
  obtain k where k: "conns s c = Some k" "k_state k = CONN_STATE_OPEN" and xok: "conns_ok None (give_xptr c k ?s)"
    using start_popped [OF assms] by auto
  let ?s2 = "uses (h_callback (handlers s ! k_handler k)) (OnRequest c) us (give_xptr c k ?s)"
  have ok2: "conns_ok None ?s2" and keep: "keeps (give_xptr c k ?s) ?s2"
    using uses_ok [OF xok, of "OnRequest c"] by auto
  have fr: "frame ?s ?s2"
    by (rule frame_trans [OF frame_xptr frame_keeps [OF keep]]) (simp add: k)
  have "stream_invoke_onrequest (closes us) c ?s = ?s2"
    using k by (simp add: stream_invoke_onrequest_def with_conn_def Let_def uses_def conn_is_open_def)
  with ok2 fr show "conns_ok None (stream_invoke_onrequest (closes us) c ?s)"
    "frame ?s (stream_invoke_onrequest (closes us) c ?s)"
    by auto
qed

lemma ws_invoke_onmessage_ok:
  assumes "conns_ok None s" "later s = LaterMessage c msg # fs"
  shows "conns_ok None (ws_invoke_onmessage (closes us) c msg (s\<lparr>later := fs\<rparr>))"
    "frame (s\<lparr>later := fs\<rparr>) (ws_invoke_onmessage (closes us) c msg (s\<lparr>later := fs\<rparr>))"
proof -
  let ?s = "s\<lparr>later := fs\<rparr>"
  obtain k where k: "conns s c = Some k"
    using popped_live [OF assms(1,2)] by auto
  have ok: "conns_ok None ?s"
    by (rule conns_ok_pop [OF assms]) simp
  let ?info = "handlers s ! k_handler k"
  let ?call = "OnMessage c (if h_textframes ?info then StrSXP [msg] else RawSXP msg, False)"
  let ?s2 = "uses (h_callback ?info) ?call us ?s"
  have ok2: "conns_ok None ?s2" and fr: "frame ?s ?s2"
    using uses_ok [OF ok, of ?call] frame_uses [OF ok, of ?call] by auto
  have "ws_invoke_onmessage (closes us) c msg ?s \<in> {sdo [FreeMsg] ?s, sdo [FreeMsg] ?s2}"
    using k by (auto simp: ws_invoke_onmessage_def with_conn_def Let_def uses_def conn_is_open_def)
  with conns_ok_sdo [OF ok, of "[FreeMsg]"] conns_ok_sdo [OF ok2, of "[FreeMsg]"] frame_sdo [of "[FreeMsg]"]
    frame_trans [OF fr frame_sdo [of "[FreeMsg]"]]
  show "conns_ok None (ws_invoke_onmessage (closes us) c msg ?s)" "frame ?s (ws_invoke_onmessage (closes us) c msg ?s)"
    by auto
qed

section \<open>The last callback\<close>

text \<open>\<open>conn_invoke_onclose\<close> takes the last callback of a connection off the queue.\<close>

lemma close_popped:
  assumes "conns_ok None s" "later s = LaterClose c # fs"
  obtains k where "conns s c = Some k" "k_state k = CONN_STATE_CLOSING" "conns_ok (Some c) (s\<lparr>later := fs\<rparr>)"
proof -
  let ?s = "s\<lparr>later := fs\<rparr>"
  obtain k where k: "conns s c = Some k" and q: "queue_ok c k (LaterClose c # filter (\<lambda>f. cb_conn f = Some c) fs)"
    using popped_live [OF assms] by auto
  have st: "k_state k = CONN_STATE_CLOSING" "k_onclose k" and empty: "filter (\<lambda>f. cb_conn f = Some c) fs = []"
    using q by (cases "k_state k"; auto simp: queue_ok_def split: if_splits)+
  have "conn_ok (Some c) (conn_counter s) d (view_of ?s d)" for d
  proof (cases "d = c")
    case True
    then show ?thesis
      using conns_okD [OF assms(1), of c] k st empty by (simp add: conn_ok_def view_of_def)
  next
    case False
    then have "view_of ?s d = view_of s d"
      by (simp add: view_of_def assms(2))
    then show ?thesis
      using conns_okD [OF assms(1), of d] False by (cases "v_conn (view_of s d)") (auto simp: conn_ok_def)
  qed
  then show thesis
    using that [OF k st(1)] assms(1) by (simp add: conns_ok_def)
qed

lemma conns_ok_onclose:
  assumes "conns_ok (Some c) s" "conns s c = Some k" "OnClose c \<notin> set (scalls s)"
  shows "conns_ok (Some c) (sdo [OnClose c] s)"
proof (rule conns_ok_one [OF assms(1), where c = c])
  have "count_list (scalls s) (OnClose c) = 0"
    using assms(3) by (simp add: count_list_0_iff)
  then show "conn_ok (Some c) (conn_counter s) c (view_of (sdo [OnClose c] s) c)"
    using conns_okD [OF assms(1), of c] assms(2) by (simp add: conn_ok_def view_of_def)
qed (simp_all add: view_of_def)

lemma conn_cleanup_ok:
  assumes "conns_ok (Some c) s" "conns s c = Some k"
  shows "conns_ok None (conn_cleanup c s)"
proof -
  have "conn_ok None (conn_counter s) d (view_of (conn_cleanup c s) d)" for d
    using conns_okD [OF assms(1), of d] conns_okD [OF assms(1), of c] assms(2)
    by (cases "d = c"; cases "conns s d")
      (auto simp: conn_cleanup_def with_conn_def Let_def conn_ok_def view_of_def count_list_remove1
        count_list_prot_remove fun_eq_iff)
  moreover have "bad (conn_cleanup c s) = bad s" "conn_counter (conn_cleanup c s) = conn_counter s"
    using assms(2) by (simp_all add: conn_cleanup_def with_conn_def Let_def)
  ultimately show ?thesis
    using assms(1) by (simp add: conns_ok_def)
qed

lemma conn_invoke_onclose_ok:
  assumes "conns_ok None s" "later s = LaterClose c # fs"
  shows "conns_ok None (conn_invoke_onclose (closes us) c (s\<lparr>later := fs\<rparr>))"
    "frame (s\<lparr>later := fs\<rparr>) (conn_invoke_onclose (closes us) c (s\<lparr>later := fs\<rparr>))"
proof -
  let ?s = "s\<lparr>later := fs\<rparr>"
  obtain k where k: "conns s c = Some k" and ok: "conns_ok (Some c) ?s"
    using close_popped [OF assms] by auto
  have "OnClose c \<notin> set (scalls ?s)"
    using conns_okD [OF assms(1), of c] k by (simp add: conn_ok_def view_of_def count_list_0_iff)
  then have ok1: "conns_ok (Some c) (sdo [OnClose c] ?s)"
    using conns_ok_onclose [OF ok] k by simp
  have ok2: "conns_ok (Some c) (closes us (sdo [OnClose c] ?s))"
    and keep: "keeps (sdo [OnClose c] ?s) (closes us (sdo [OnClose c] ?s))"
    using closes_ok [OF ok1] by auto
  let ?s2 = "closes us (sdo [OnClose c] ?s)"
  obtain k2 where k2: "conns ?s2 c = Some k2"
    using keeps_conn [OF keep, of c k] k by auto
  have "frame ?s ?s2"
    by (rule frame_trans [OF frame_sdo frame_keeps [OF keep]]) simp
  then have fr2: "frame ?s (conn_cleanup c ?s2)"
    by (rule frame_trans [OF _ frame_cleanup [OF k2]])
  have fr: "frame ?s (conn_cleanup c ?s)"
    by (rule frame_cleanup) (simp add: k)
  have "conn_invoke_onclose (closes us) c ?s \<in> {conn_cleanup c ?s, conn_cleanup c ?s2}"
    using k by (simp add: conn_invoke_onclose_def with_conn_def)
  with conn_cleanup_ok [OF ok2 k2] conn_cleanup_ok [OF ok, of k] k fr fr2
  show "conns_ok None (conn_invoke_onclose (closes us) c ?s)" "frame ?s (conn_invoke_onclose (closes us) c ?s)"
    by auto
qed

section \<open>Stopping\<close>

lemma keeps_clists: "keeps s s' \<Longrightarrow> clists s' = clists s"
  and keeps_closed: "keeps s s' \<Longrightarrow> closed_conn c s \<Longrightarrow> closed_conn c s'"
  by (simp_all add: keeps_def)

text \<open>No stream connection waits for its request callback.\<close>

definition quiet :: "nano_http_server \<Rightarrow> bool" where
  "quiet s \<longleftrightarrow> (\<forall>c. LaterRequest c \<notin> set (later s))"

lemma quiet_keeps: "keeps s s' \<Longrightarrow> quiet s \<Longrightarrow> quiet s'"
  by (auto simp: keeps_def quiet_def)

lemma close_walk_ok:
  assumes "conns_ok None s" "quiet s" "\<forall>c \<in> set cs. conns s c \<noteq> None"
  shows "conns_ok None (close_walk cs s) \<and> keeps s (close_walk cs s) \<and> (\<forall>c \<in> set cs. closed_conn c (close_walk cs s))"
  using assms
proof (induction cs arbitrary: s)
  case (Cons c cs)
  obtain k where k: "conns s c = Some k"
    using Cons.prems(3) by auto
  have may: "may_close c s"
    using Cons.prems(2) by (simp add: quiet_def may_close_def)
  let ?s = "closing c k s"
  have eq: "close_walk (c # cs) s = close_walk cs ?s"
    using conn_close_closing [OF Cons.prems(1) k] by (simp add: conn_close_def)
  have ok: "conns_ok None ?s"
    by (rule closing_ok [OF Cons.prems(1) k may])
  have keep: "keeps s ?s"
    by (rule keeps_closing [OF k])
  have live: "\<forall>c \<in> set cs. conns ?s c \<noteq> None"
    using Cons.prems(3) by (auto simp: closing_def)
  have "closed_conn c ?s"
    using k by (simp add: closing_def) (simp add: closed_conn_def)
  moreover note IH = Cons.IH [OF ok quiet_keeps [OF keep Cons.prems(2)] live]
  ultimately have "closed_conn c (close_walk cs ?s)"
    using keeps_closed by blast
  with IH keeps_trans [OF keep, of "close_walk cs ?s"] eq show ?case
    by simp
qed simp

lemma listed_live: "conns_ok x s \<Longrightarrow> c \<in> set (clists s h) \<Longrightarrow> conns s c \<noteq> None"
proof
  assume "conns_ok x s" "c \<in> set (clists s h)" "conns s c = None"
  then have "count_list (clists s h) c = 0"
    using conns_okD [of x s c] by (simp add: view_defs fun_eq_iff)
  with \<open>c \<in> set (clists s h)\<close> show False
    by (simp add: count_list_0_iff)
qed

lemma live_listed: "conns_ok x s \<Longrightarrow> conns s c = Some k \<Longrightarrow> c \<in> set (clists s (k_handler k))"
proof -
  assume "conns_ok x s" "conns s c = Some k"
  then have "count_list (clists s (k_handler k)) c = 1"
    using conns_okD [of x s c] by (simp add: view_defs fun_eq_iff)
  then show ?thesis
    by (metis count_list_0_iff zero_neq_one)
qed

lemma stop_handlers_ok:
  assumes "conns_ok None s" "quiet s"
  shows "conns_ok None (stop_handlers hs s) \<and> keeps s (stop_handlers hs s)
    \<and> (\<forall>h \<in> set hs. \<forall>c \<in> set (clists s h). closed_conn c (stop_handlers hs s))"
  using assms
proof (induction hs arbitrary: s)
  case (Cons h hs)
  let ?s1 = "if h_listener (handlers s ! h) then sdo [AcceptStop h, ListenerClose h] s else s"
  have ok1: "conns_ok None ?s1" and keep1: "keeps s ?s1"
    using Cons.prems(1) keeps_sdo [of "[AcceptStop h, ListenerClose h]" s] by (auto simp: conns_ok_sdo)
  let ?s2 = "close_walk (clists s h) ?s1"
  have live: "\<forall>c \<in> set (clists s h). conns ?s1 c \<noteq> None"
    using listed_live [OF Cons.prems(1)] by auto
  have ok2: "conns_ok None ?s2" and keep12: "keeps ?s1 ?s2" and closed: "\<forall>c \<in> set (clists s h). closed_conn c ?s2"
    using close_walk_ok [OF ok1 quiet_keeps [OF keep1 Cons.prems(2)] live] by auto
  have keep2: "keeps s ?s2"
    by (rule keeps_trans [OF keep1 keep12])
  note IH = Cons.IH [OF ok2 quiet_keeps [OF keep2 Cons.prems(2)]]
  let ?s3 = "stop_handlers hs ?s2"
  have "\<forall>c \<in> set (clists s h). closed_conn c ?s3"
    using closed IH keeps_closed by blast
  moreover have "\<forall>h \<in> set hs. \<forall>c \<in> set (clists s h). closed_conn c ?s3"
    using IH keeps_clists [OF keep2] by simp
  moreover have "stop_handlers (h # hs) s = ?s3"
    by simp
  ultimately show ?case
    using IH keeps_trans [OF keep2, of ?s3] by simp
qed simp

lemma cancel_walk_eq:
  "cancel_walk rs s = (sdo (map (\<lambda>r. Finish r NNG_ECANCELED) rs) s)
     \<lparr>reqs := (\<lambda>r. if r \<in> set rs then Some True else reqs s r)\<rparr>"
  by (induction rs arbitrary: s) (auto simp: sdo_def fun_eq_iff)

text \<open>The handlers with connections are handlers of the server.\<close>

definition handlers_ok :: "nano_http_server \<Rightarrow> bool" where
  "handlers_ok s \<longleftrightarrow> (\<forall>h \<ge> length (handlers s). clists s h = [])"

definition cancelled :: "nano_http_server \<Rightarrow> nano_http_server" where
  "cancelled s = http_cancel_pending_requests (sdo [ServerStop] s)"

lemma http_server_stop_ok:
  assumes "conns_ok None s" "quiet s" "handlers_ok s"
  shows "conns_ok None (http_server_stop s)" "all_closed (http_server_stop s)" "keeps (cancelled s) (http_server_stop s)"
proof -
  let ?s = "cancelled s"
  have quiet: "quiet ?s"
    using assms(2) by (simp add: cancelled_def http_cancel_pending_requests_def cancel_walk_eq quiet_def)
  have "conns_ok None (sdo (map (\<lambda>r. Finish r NNG_ECANCELED) (pending_reqs s)) (sdo [ServerStop] s))"
    using assms(1) by (simp add: conns_ok_sdo list_ex_iff)
  then have ok: "conns_ok None ?s"
    by (rule conns_ok_same)
      (simp_all add: cancelled_def http_cancel_pending_requests_def cancel_walk_eq view_of_def)
  have stop: "http_server_stop s = stop_handlers [0..<length (handlers s)] ?s"
    by (simp add: http_server_stop_def cancelled_def)
  note sh = stop_handlers_ok [OF ok quiet, of "[0..<length (handlers s)]", folded stop]
  show ok': "conns_ok None (http_server_stop s)" and keep: "keeps ?s (http_server_stop s)"
    using sh by auto
  have lists: "clists ?s = clists s"
    by (simp add: cancelled_def http_cancel_pending_requests_def cancel_walk_eq)
  have lists': "clists (http_server_stop s) = clists s"
    using keep lists by (simp add: keeps_def)
  have "closed_conn c (http_server_stop s)" for c
  proof (cases "conns (http_server_stop s) c")
    case None
    then show ?thesis
      by (simp add: closed_conn_def)
  next
    case (Some k)
    have "c \<in> set (clists s (k_handler k))"
      using live_listed [OF ok' Some] lists' by simp
    moreover from this have "k_handler k < length (handlers s)"
      using assms(3) by (force simp: handlers_ok_def not_less [symmetric])
    ultimately show ?thesis
      using sh lists by auto
  qed
  then show "all_closed (http_server_stop s)"
    by (simp add: all_closed_def)
qed

section \<open>Cleaning up\<close>

text \<open>Nothing but the server is left when \<open>http_server_cleanup\<close> runs.\<close>

lemma http_server_cleanup_ok:
  assumes "conns_ok None s" "later s = LaterCleanup # fs" "all_closed s" "\<forall>f \<in> set fs. cb_conn f = None"
  shows "conns s = Map.empty" "clists s h = []"
proof -
  show empty: "conns s = Map.empty"
  proof (rule ccontr)
    assume "conns s \<noteq> Map.empty"
    then obtain c k where k: "conns s c = Some k"
      by (meson not_Some_eq ext)
    then have "LaterClose c \<in> set (v_queue (view_of s c))"
      using conns_okD [OF assms(1), of c] all_closedD [OF assms(3) k]
      by (cases "k_state k") (auto simp: conn_ok_def queue_ok_def view_of_def simp del: set_filter dest: last_in_set)
    then show False
      using assms(2,4) by (auto simp: view_of_def)
  qed
  show "clists s h = []"
    using listed_live [OF assms(1), of _ h] empty by (cases "clists s h") auto
qed

end
