(* ===== verification/ServerSteps.thy ===== *)
theory ServerSteps
  imports ServerRun
begin

text \<open>
  The server as a transition system: NNG's callbacks, the event loop and the functions called from
  R, in any order, and what holds of every state they reach.
\<close>

section \<open>The steps\<close>

text \<open>The handle of the server is in R's hands until the finalizer has run.\<close>

definition held :: "nano_http_server \<Rightarrow> bool" where
  "held s \<longleftrightarrow> LaterCleanup \<notin> set (later s) \<and> ReleaseServer \<notin> set (scalls s)"

fun finish_of :: "nat \<Rightarrow> server_call \<Rightarrow> bool" where
  "finish_of r (Finish r' xc) = (r' = r)"
| "finish_of r _ = False"

definition finishes :: "nano_http_server \<Rightarrow> nat \<Rightarrow> nat" where
  "finishes s r = length (filter (finish_of r) (scalls s))"

definition frees :: "nano_http_server \<Rightarrow> nat \<Rightarrow> nat" where
  "frees s r = count_list (scalls s) (FreeRequest r)"

definition handled :: "nano_http_server \<Rightarrow> nat \<Rightarrow> nat" where
  "handled s r = count_list (scalls s) (OnHttp r)"

text \<open>NNG gives each request an aio of its own.\<close>

definition fresh :: "nat \<Rightarrow> nano_http_server \<Rightarrow> bool" where
  "fresh r s \<longleftrightarrow> reqs s r = None \<and> finishes s r = 0"

text \<open>
  A receive that succeeds finds its connection open, and the server is stopped only when no stream
  connection waits for its request callback: without these the code does touch freed connections.
\<close>

inductive sstep :: "nano_http_server \<Rightarrow> nano_http_server \<Rightarrow> bool" where
  Accepted: "s_state s = SERVER_STARTED \<Longrightarrow> h < length (handlers s) \<Longrightarrow>
     sstep s (ws_accept_cb xc calloc_ok aio_ok h s)"
| Streamed: "s_state s \<noteq> SERVER_CREATED \<Longrightarrow> h < length (handlers s) \<Longrightarrow> ReleaseServer \<notin> set (scalls s) \<Longrightarrow> fresh a s \<Longrightarrow>
     sstep s (stream_handler_cb calloc_ok aio_ok a h s)"
| Requested: "s_state s \<noteq> SERVER_CREATED \<Longrightarrow> ReleaseServer \<notin> set (scalls s) \<Longrightarrow> fresh r s \<Longrightarrow>
     sstep s (http_handler_cb calloc_ok r s)"
| Received: "conns s c = Some k \<Longrightarrow> k_recv k \<Longrightarrow> xc = 0 \<longrightarrow> k_state k = CONN_STATE_OPEN \<Longrightarrow>
     sstep s (ws_recv_cb xc malloc_ok msg c s)"
| Ran: "later s \<noteq> [] \<Longrightarrow> sstep s (run_later (closes us) s)"
| Closed: "sstep s (snd (rnng_conn_close c s))"
| WsClosed: "sstep s (snd (rnng_ws_close c s))"
| Started: "held s \<Longrightarrow> sstep s (snd (rnng_http_server_start start listen s))"
| Stopped: "held s \<Longrightarrow> quiet s \<Longrightarrow> sstep s (rnng_http_server_stop s)"
| Finalized: "held s \<Longrightarrow> quiet s \<Longrightarrow> sstep s (rnng_http_server_close s)"

definition server0 :: "nano_http_handler_info list \<Rightarrow> nano_http_server" where
  "server0 hs = \<lparr>s_state = SERVER_CREATED, handlers = hs, conns = Map.empty, clists = (\<lambda>h. []), conn_counter = 0,
     reqs = Map.empty, pending_reqs = [], prot = [], later = [], scalls = [], bad = False\<rparr>"

section \<open>The invariant of the requests and of the server's end\<close>

definition req_ok :: "nat \<Rightarrow> nano_http_server \<Rightarrow> bool" where
  "req_ok r s \<longleftrightarrow> count_list (pending_reqs s) r = of_bool (reqs s r \<noteq> None)
     \<and> count_list (later s) (LaterInvoke r) = of_bool (reqs s r \<noteq> None)
     \<and> (case reqs s r of
          Some b \<Rightarrow> finishes s r = of_bool b \<and> frees s r = 0 \<and> handled s r = 0 \<and> (b \<longrightarrow> s_state s = SERVER_STOPPED)
        | None \<Rightarrow> frees s r \<le> finishes s r \<and> finishes s r \<le> 1 \<and> handled s r \<le> frees s r)"

definition end_ok :: "nano_http_server \<Rightarrow> bool" where
  "end_ok s \<longleftrightarrow>
     (LaterCleanup \<in> set (later s) \<longrightarrow> s_state s \<noteq> SERVER_STARTED \<and> last (later s) = LaterCleanup
        \<and> LaterCleanup \<notin> set (butlast (later s)) \<and> ReleaseServer \<notin> set (scalls s))
     \<and> (ReleaseServer \<in> set (scalls s) \<longrightarrow> s_state s \<noteq> SERVER_STARTED \<and> later s = []
        \<and> count_list (scalls s) ReleaseServer = 1)"

definition rest_ok :: "nano_http_server \<Rightarrow> bool" where
  "rest_ok s \<longleftrightarrow> handlers_ok s \<and> (s_state s \<noteq> SERVER_STARTED \<longrightarrow> all_closed s) \<and> (\<forall>r. req_ok r s) \<and> end_ok s"

lemma quiet_calls:
  assumes "\<not> list_ex req_call cs"
  shows "filter (finish_of r) cs = [] \<and> count_list cs (FreeRequest r) = 0 \<and> count_list cs (OnHttp r) = 0
    \<and> count_list cs ReleaseServer = 0 \<and> ReleaseServer \<notin> set cs"
proof -
  have "\<not> finish_of r x \<and> x \<noteq> FreeRequest r \<and> x \<noteq> OnHttp r \<and> x \<noteq> ReleaseServer" if "x \<in> set cs" for x
    using assms that by (cases x) (auto simp: list_ex_iff)
  then show ?thesis
    by (auto simp: filter_empty_conv count_list_0_iff)
qed

lemma conn_callbacks:
  assumes "\<forall>f \<in> set q. \<exists>c. cb_conn f = Some c"
  shows "count_list q (LaterInvoke r) = 0" "LaterCleanup \<notin> set q"
proof -
  have "f \<noteq> LaterInvoke r \<and> f \<noteq> LaterCleanup" if "f \<in> set q" for f
    using assms that by force
  then show "count_list q (LaterInvoke r) = 0" "LaterCleanup \<notin> set q"
    by (auto simp: count_list_0_iff)
qed

lemma req_ok_cong:
  assumes "req_ok r s" "reqs s' r = reqs s r" "count_list (pending_reqs s') r = count_list (pending_reqs s) r"
    "count_list (later s') (LaterInvoke r) = count_list (later s) (LaterInvoke r)" "s_state s' = s_state s"
    "finishes s' r = finishes s r" "frees s' r = frees s r" "handled s' r = handled s r"
  shows "req_ok r s'"
  using assms by (cases "reqs s r") (simp_all add: req_ok_def)

lemma frame_counts:
  assumes "frame s s'"
  shows "finishes s' r = finishes s r" "frees s' r = frees s r" "handled s' r = handled s r"
    "count_list (later s') (LaterInvoke r) = count_list (later s) (LaterInvoke r)"
proof -
  obtain q where q: "later s' = later s @ q" "\<forall>f \<in> set q. \<exists>c. cb_conn f = Some c"
    using assms by (auto simp: frame_def)
  obtain cs where cs: "scalls s' = scalls s @ cs" "\<not> list_ex req_call cs"
    using assms by (auto simp: frame_def)
  show "finishes s' r = finishes s r" "frees s' r = frees s r" "handled s' r = handled s r"
    using cs(1) quiet_calls [OF cs(2), of r] by (simp_all add: finishes_def frees_def handled_def)
  show "count_list (later s') (LaterInvoke r) = count_list (later s) (LaterInvoke r)"
    using q(1) conn_callbacks(1) [OF q(2)] by simp
qed

lemma req_ok_frame: "req_ok r s \<Longrightarrow> frame s s' \<Longrightarrow> req_ok r s'"
  by (erule req_ok_cong) (simp_all add: frame_counts, simp_all add: frame_def)

lemma end_ok_frame:
  assumes "end_ok s" "s_state s \<noteq> SERVER_STARTED \<longrightarrow> all_closed s" "frame s s'"
  shows "end_ok s'"
proof -
  obtain q where q: "later s' = later s @ q" "\<forall>f \<in> set q. \<exists>c. cb_conn f = Some c"
    using assms(3) by (auto simp: frame_def)
  obtain cs where cs: "scalls s' = scalls s @ cs" "\<not> list_ex req_call cs"
    using assms(3) by (auto simp: frame_def)
  have st: "s_state s' = s_state s" and same: "s_state s \<noteq> SERVER_STARTED \<Longrightarrow> q = []"
    using assms(2,3) q(1) by (auto simp: frame_def)
  have calls: "ReleaseServer \<in> set (scalls s') \<longleftrightarrow> ReleaseServer \<in> set (scalls s)"
    "count_list (scalls s') ReleaseServer = count_list (scalls s) ReleaseServer"
    using cs(1) quiet_calls [OF cs(2)] by auto
  show ?thesis
  proof (cases "s_state s = SERVER_STARTED")
    case True
    then have "LaterCleanup \<notin> set (later s)" "ReleaseServer \<notin> set (scalls s)"
      using assms(1) by (auto simp: end_ok_def)
    then show ?thesis
      using calls q(1) conn_callbacks(2) [OF q(2)] by (simp add: end_ok_def)
  next
    case False
    then show ?thesis
      using assms(1) st calls q(1) same by (simp add: end_ok_def)
  qed
qed

definition base_ok :: "nano_http_server \<Rightarrow> bool" where
  "base_ok s \<longleftrightarrow> handlers_ok s \<and> (s_state s \<noteq> SERVER_STARTED \<longrightarrow> all_closed s) \<and> end_ok s"

lemma rest_ok_base: "rest_ok s \<longleftrightarrow> base_ok s \<and> (\<forall>r. req_ok r s)"
  by (auto simp: rest_ok_def base_ok_def)

lemma base_ok_frame:
  assumes "base_ok s" "frame s s'"
  shows "base_ok s'"
proof -
  have sub: "set (clists s' h) \<subseteq> set (clists s h)" "handlers s' = handlers s" for h
    using assms(2) by (simp_all add: frame_def)
  have "clists s' h = []" if "length (handlers s) \<le> h" for h
    using assms(1) sub(1) [of h] that by (simp add: base_ok_def handlers_ok_def)
  then have "handlers_ok s'"
    using sub(2) by (simp add: handlers_ok_def)
  moreover have "s_state s' \<noteq> SERVER_STARTED \<longrightarrow> all_closed s'"
    using assms by (simp add: base_ok_def frame_def all_closed_def)
  ultimately show ?thesis
    using assms end_ok_frame [OF _ _ assms(2)] by (simp add: base_ok_def)
qed

lemma rest_ok_frame: "rest_ok s \<Longrightarrow> frame s s' \<Longrightarrow> rest_ok s'"
  unfolding rest_ok_base using base_ok_frame req_ok_frame by blast

text \<open>A callback on a connection leaves the queue.\<close>

lemma rest_ok_pop:
  assumes "rest_ok s" "later s = f # fs" "cb_conn f = Some c"
  shows "rest_ok (s\<lparr>later := fs\<rparr>)"
proof -
  have f: "f \<noteq> LaterInvoke r" "f \<noteq> LaterCleanup" for r
    using assms(3) by auto
  let ?s = "s\<lparr>later := fs\<rparr>"
  have "req_ok r ?s" for r
    by (rule req_ok_cong [of r s])
      (use assms(1,2) f(1) [of r] in \<open>auto simp: rest_ok_def finishes_def frees_def handled_def\<close>)
  moreover have "end_ok ?s"
    using assms(1,2) f(2) by (auto simp: rest_ok_def end_ok_def split: if_splits)
  ultimately show ?thesis
    using assms(1) by (simp add: rest_ok_def handlers_ok_def all_closed_def closed_conn_def)
qed

section \<open>Steps of NNG's threads\<close>

lemma started_ends: "end_ok s \<Longrightarrow> s_state s = SERVER_STARTED \<Longrightarrow> LaterCleanup \<notin> set (later s) \<and> ReleaseServer \<notin> set (scalls s)"
  by (auto simp: end_ok_def)

text \<open>While the server is started, adding to the lists, the queue and the calls is harmless.\<close>

lemma rest_ok_started:
  assumes "rest_ok s" "s_state s = SERVER_STARTED" "s_state s' = SERVER_STARTED" "handlers_ok s'"
    and "later s' = later s @ q" "LaterCleanup \<notin> set q" "scalls s' = scalls s @ cs" "ReleaseServer \<notin> set cs"
    and "\<And>r. req_ok r s'"
  shows "rest_ok s'"
proof -
  have "LaterCleanup \<notin> set (later s')" "ReleaseServer \<notin> set (scalls s')"
    using started_ends [of s] assms(1,2,5-8) by (auto simp: rest_ok_def)
  then have "end_ok s'"
    by (simp add: end_ok_def)
  with assms(3,4,9) show ?thesis
    by (simp add: rest_ok_def)
qed

lemma handlers_ok_add:
  "handlers_ok s \<Longrightarrow> h < length (handlers s) \<Longrightarrow> handlers_ok (s\<lparr>clists := (clists s)(h := l)\<rparr>)"
  by (auto simp: handlers_ok_def)

lemma add_conn_simps [simp]:
  "handlers (snd (add_conn t h s)) = handlers s" "s_state (snd (add_conn t h s)) = s_state s"
  "later (snd (add_conn t h s)) = later s" "scalls (snd (add_conn t h s)) = scalls s"
  "reqs (snd (add_conn t h s)) = reqs s" "pending_reqs (snd (add_conn t h s)) = pending_reqs s"
  "clists (snd (add_conn t h s)) = (clists s)(h := Suc (conn_counter s) # clists s h)"
  "fst (add_conn t h s) = Suc (conn_counter s)"
  by (simp_all add: add_conn_def Let_def)

lemma rest_ok_new:
  assumes "rest_ok s" "s_state s = SERVER_STARTED" "h < length (handlers s)" "cb_conn f = Some c"
  shows "rest_ok (later2 f (snd (add_conn t h s)))"
proof (rule rest_ok_started [OF assms(1,2), where q = "[f]" and cs = "[]"])
  have f: "f \<noteq> LaterInvoke r" "f \<noteq> LaterCleanup" for r
    using assms(4) by auto
  then show "LaterCleanup \<notin> set [f]"
    by auto
  show "req_ok r (later2 f (snd (add_conn t h s)))" for r
    by (rule req_ok_cong [of r s]) (use assms(1) f in \<open>auto simp: rest_ok_def finishes_def frees_def handled_def\<close>)
  show "handlers_ok (later2 f (snd (add_conn t h s)))"
    using assms(1,3) by (auto simp: rest_ok_def handlers_ok_def)
qed (use assms(2) in simp_all)

lemma rest_ok_sdo: "rest_ok s \<Longrightarrow> \<not> list_ex req_call cs \<Longrightarrow> rest_ok (sdo cs s)"
  by (rule rest_ok_frame [OF _ frame_sdo])

lemma accept_step:
  assumes "rest_ok s" "s_state s = SERVER_STARTED" "h < length (handlers s)"
  shows "rest_ok (ws_accept_cb xc calloc_ok aio_ok h s)"
  using assms rest_ok_new [OF assms, of "LaterOpen (Suc (conn_counter s))" _ NANO_CONN_WEBSOCKET]
  by (simp add: ws_accept_cb_def case_prod_beta Let_def rest_ok_sdo)

text \<open>A request is answered at once, or waits.\<close>

lemma fresh_unseen:
  assumes "req_ok r s" "fresh r s"
  shows "frees s r = 0" "handled s r = 0" "count_list (pending_reqs s) r = 0" "count_list (later s) (LaterInvoke r) = 0"
    "reqs s r = None" "finishes s r = 0"
  using assms by (simp_all add: req_ok_def fresh_def)

lemma counts_sdo [simp]:
  "finishes (sdo cs s) r = finishes s r + length (filter (finish_of r) cs)"
  "frees (sdo cs s) r = frees s r + count_list cs (FreeRequest r)"
  "handled (sdo cs s) r = handled s r + count_list cs (OnHttp r)"
  by (simp_all add: finishes_def frees_def handled_def)

lemma counts_later2 [simp]:
  "finishes (later2 f s) r = finishes s r" "frees (later2 f s) r = frees s r" "handled (later2 f s) r = handled s r"
  by (simp_all add: finishes_def frees_def handled_def)

lemma rest_ok_finish:
  assumes "rest_ok s" "fresh a s" "ReleaseServer \<notin> set (scalls s)"
  shows "rest_ok (sdo [Finish a xc] s)"
proof -
  have "req_ok r (sdo [Finish a xc] s)" for r
  proof (cases "r = a")
    case True
    have "req_ok a s"
      using assms(1) by (simp add: rest_ok_def)
    from fresh_unseen [OF this assms(2)] True show ?thesis
      by (simp add: req_ok_def)
  next
    case False
    show ?thesis
      by (rule req_ok_cong [of r s])
        (use assms(1) False in \<open>auto simp: rest_ok_def finishes_def frees_def handled_def\<close>)
  qed
  moreover have "end_ok (sdo [Finish a xc] s)"
    using assms(1,3) by (auto simp: rest_ok_def end_ok_def)
  ultimately show ?thesis
    using assms(1) by (simp add: rest_ok_def handlers_ok_def all_closed_def)
qed

lemma request_step:
  assumes "rest_ok s" "s_state s \<noteq> SERVER_CREATED" "ReleaseServer \<notin> set (scalls s)" "fresh r s"
  shows "rest_ok (http_handler_cb calloc_ok r s)"
proof (cases "s_state s = SERVER_STOPPED \<or> \<not> calloc_ok")
  case True
  then show ?thesis
    using rest_ok_finish [OF assms(1,4,3)] by (auto simp: http_handler_cb_def)
next
  case False
  let ?s = "later2 (LaterInvoke r) (s\<lparr>reqs := (reqs s)(r \<mapsto> False), pending_reqs := r # pending_reqs s\<rparr>)"
  have st: "s_state s = SERVER_STARTED"
    using False assms(2) by (cases "s_state s") auto
  have "rest_ok ?s"
  proof (rule rest_ok_started [OF assms(1) st, where q = "[LaterInvoke r]" and cs = "[]"])
    show "req_ok r' ?s" for r'
    proof (cases "r' = r")
      case True
      have "req_ok r s"
        using assms(1) by (simp add: rest_ok_def)
      from fresh_unseen [OF this assms(4)] True show ?thesis
        by (simp add: req_ok_def finishes_def frees_def handled_def)
    next
      case False
      show ?thesis
        by (rule req_ok_cong [of r' s])
          (use assms(1) False in \<open>auto simp: rest_ok_def finishes_def frees_def handled_def\<close>)
    qed
    show "handlers_ok ?s"
      using assms(1) by (simp add: rest_ok_def handlers_ok_def)
  qed (use st in simp_all)
  with False show ?thesis
    by (simp add: http_handler_cb_def)
qed

lemma stream_step:
  assumes "rest_ok s" "s_state s \<noteq> SERVER_CREATED" "h < length (handlers s)" "ReleaseServer \<notin> set (scalls s)" "fresh a s"
  shows "rest_ok (stream_handler_cb calloc_ok aio_ok a h s)"
proof -
  have fin: "rest_ok (sdo [Finish a xc] (sdo cs s))" if "\<not> list_ex req_call cs" "ReleaseServer \<notin> set cs" for cs xc
    by (rule rest_ok_finish)
      (use assms that quiet_calls [OF that(1), of a] in \<open>simp_all add: rest_ok_sdo fresh_def\<close>)
  have one: "rest_ok (sdo (cs @ [Finish a xc]) s)" if "\<not> list_ex req_call cs" "ReleaseServer \<notin> set cs" for cs xc
    using fin [OF that] by (simp add: sdo_def)
  show ?thesis
  proof (cases "s_state s = SERVER_STOPPED \<or> \<not> calloc_ok \<or> \<not> aio_ok")
    case True
    then show ?thesis
      using one [of "[]"] one [of "[Hijack a, HttpClose 0, FreeReq 0]"] one [of "[Hijack a, HttpClose 0, FreeReq 0, FreeNew]"]
      by (auto simp: stream_handler_cb_def Let_def sdo_def)
  next
    case False
    let ?s1 = "sdo [Hijack a] s"
    let ?s2 = "later2 (LaterRequest (Suc (conn_counter s))) (snd (add_conn NANO_CONN_HTTP_STREAM h ?s1))"
    have st: "s_state s = SERVER_STARTED"
      using False assms(2) by (cases "s_state s") auto
    have ok1: "rest_ok ?s1"
      by (rule rest_ok_sdo [OF assms(1)]) simp
    have ok2: "rest_ok ?s2"
      by (rule rest_ok_new [OF ok1]) (use st assms(3) in simp_all)
    have "rest_ok (sdo [Finish a 0] ?s2)"
      by (rule rest_ok_finish [OF ok2]) (use assms(4,5) in \<open>simp_all add: fresh_def finishes_def\<close>)
    with False show ?thesis
      by (simp add: stream_handler_cb_def case_prod_beta Let_def)
  qed
qed

lemma recv_step:
  assumes "conns_ok None s" "rest_ok s" "conns s c = Some k" "k_recv k" "xc = 0 \<longrightarrow> k_state k = CONN_STATE_OPEN"
  shows "rest_ok (ws_recv_cb xc malloc_ok msg c s)"
proof -
  let ?s = "set_conn c (k\<lparr>k_recv := False\<rparr>) s"
  have ok: "conns_ok None ?s"
    by (rule conns_ok_recv [OF assms(1,3)]) simp
  have rest: "rest_ok ?s"
    by (rule rest_ok_frame [OF assms(2) frame_set_conn [OF assms(3)]]) simp
  show ?thesis
  proof (cases "xc = 0")
    case True
    have st: "k_state k = CONN_STATE_OPEN"
      using True assms(5) by simp
    then have "\<not> all_closed s"
      using all_closedD [OF _ assms(3)] by auto
    then have started: "s_state s = SERVER_STARTED"
      using assms(2) by (auto simp: rest_ok_def)
    let ?m = "if malloc_ok then later2 (LaterMessage c msg) ?s else sdo [FreeMsg] ?s"
    have "rest_ok (later2 (LaterMessage c msg) ?s)"
    proof (rule rest_ok_started [OF rest, where q = "[LaterMessage c msg]" and cs = "[]"])
      show "handlers_ok (later2 (LaterMessage c msg) ?s)"
        using rest by (simp add: rest_ok_def handlers_ok_def)
      show "req_ok r (later2 (LaterMessage c msg) ?s)" for r
        by (rule req_ok_cong [of r ?s]) (use rest in \<open>simp_all add: rest_ok_def\<close>)
    qed (use started in simp_all)
    then have m: "rest_ok ?m"
      using rest rest_ok_sdo by simp
    have "conns ?m c = Some (k\<lparr>k_recv := False\<rparr>)"
      by simp
    from frame_set_conn [OF this, of "k\<lparr>k_recv := True\<rparr>"]
    have "rest_ok (set_conn c (k\<lparr>k_recv := True\<rparr>) ?m)"
      using rest_ok_frame [OF m] by simp
    then have "rest_ok (sdo [Recv c] (set_conn c (k\<lparr>k_recv := True\<rparr>) ?m))"
      by (rule rest_ok_sdo) simp
    with True st assms(3) show ?thesis
      by (simp add: ws_recv_cb_def with_conn_def Let_def)
  next
    case False
    have "conn_close c ?s = closing c (k\<lparr>k_recv := False\<rparr>) ?s"
      by (rule conn_close_closing [OF ok]) simp
    moreover have "frame ?s (closing c (k\<lparr>k_recv := False\<rparr>) ?s)"
      by (rule frame_keeps, rule keeps_closing) simp
    ultimately show ?thesis
      using rest_ok_frame [OF rest] False assms(3) by (simp add: ws_recv_cb_def with_conn_def)
  qed
qed

section \<open>Steps of R's thread\<close>

lemma keeps_ws_close: "conns_ok x s \<Longrightarrow> keeps s (snd (rnng_ws_close c s))"
  using keeps_closing [of s c] conn_close_closing [of x s c]
  by (auto simp: rnng_ws_close_def split: option.splits)

lemma conns_ok_fields:
  assumes "conns_ok x s" "conns s' = conns s" "clists s' = clists s" "prot s' = prot s" "scalls s' = scalls s"
    "filter (\<lambda>f. cb_conn f \<noteq> None) (later s') = filter (\<lambda>f. cb_conn f \<noteq> None) (later s)"
    "bad s' = bad s" "conn_counter s' = conn_counter s"
  shows "conns_ok x s'"
proof (rule conns_ok_same [OF assms(1,7,8)])
  have sub: "filter (\<lambda>f. cb_conn f = Some c) fs = filter (\<lambda>f. cb_conn f = Some c) (filter (\<lambda>f. cb_conn f \<noteq> None) fs)" for c fs
    by (auto intro: filter_cong)
  show "view_of s' c = view_of s c" for c
  proof -
    have "filter (\<lambda>f. cb_conn f = Some c) (later s') = filter (\<lambda>f. cb_conn f = Some c) (later s)"
      using sub [of c "later s"] sub [of c "later s'"] assms(6) by metis
    then show ?thesis
      using assms(2-5) by (simp add: view_of_def)
  qed
qed

text \<open>The handler's turn comes for a request.\<close>

lemma end_ok_pop: "end_ok s \<Longrightarrow> later s = f # fs \<Longrightarrow> f \<noteq> LaterCleanup \<Longrightarrow> end_ok (s\<lparr>later := fs\<rparr>)"
  by (auto simp: end_ok_def split: if_splits)

lemma end_ok_cong:
  "end_ok s \<Longrightarrow> later s' = later s \<Longrightarrow> s_state s' = s_state s
    \<Longrightarrow> count_list (scalls s') ReleaseServer = count_list (scalls s) ReleaseServer \<Longrightarrow> end_ok s'"
  by (simp add: end_ok_def) (metis count_list_0_iff)

lemma base_ok_fields:
  assumes "base_ok s" "handlers s' = handlers s" "clists s' = clists s" "conns s' = conns s" "s_state s' = s_state s"
    "end_ok s'"
  shows "base_ok s'"
  using assms by (simp add: base_ok_def handlers_ok_def all_closed_def closed_conn_def)

text \<open>A request is done with.\<close>

definition drop_req :: "nat \<Rightarrow> nano_http_server \<Rightarrow> nano_http_server" where
  "drop_req r s = s\<lparr>reqs := (reqs s)(r := None)\<rparr>"

lemma drop_req_simps [simp]:
  "conns (drop_req r s) = conns s" "clists (drop_req r s) = clists s" "prot (drop_req r s) = prot s"
  "later (drop_req r s) = later s" "bad (drop_req r s) = bad s" "conn_counter (drop_req r s) = conn_counter s"
  "s_state (drop_req r s) = s_state s" "handlers (drop_req r s) = handlers s"
  "reqs (drop_req r s) = (reqs s)(r := None)" "pending_reqs (drop_req r s) = pending_reqs s"
  "scalls (drop_req r s) = scalls s" "finishes (drop_req r s) r' = finishes s r'"
  "frees (drop_req r s) r' = frees s r'" "handled (drop_req r s) r' = handled s r'"
  by (simp_all add: drop_req_def finishes_def frees_def handled_def)

lemma rest_ok_drop:
  assumes "base_ok s" "\<And>r'. r' \<noteq> r \<Longrightarrow> req_ok r' s"
    and "count_list (pending_reqs s) r = 0" "count_list (later s) (LaterInvoke r) = 0"
    and "frees s r = 0" "handled s r \<le> 1"
    and "finishes s r = 1 \<and> cs = [FreeRequest r] \<or> finishes s r = 0 \<and> cs = [Finish r 0, FreeRequest r]"
  shows "rest_ok (sdo cs (drop_req r s))"
proof -
  let ?s = "sdo cs (drop_req r s)"
  have "end_ok ?s"
    by (rule end_ok_cong [of s]) (use assms(1,7) in \<open>auto simp: base_ok_def\<close>)
  then have "base_ok ?s"
    by (rule base_ok_fields [OF assms(1), rotated -1]) simp_all
  moreover have "req_ok r' ?s" for r'
  proof (cases "r' = r")
    case True
    then show ?thesis
      using assms(3-7) by (auto simp: req_ok_def)
  next
    case False
    show ?thesis
      by (rule req_ok_cong [OF assms(2) [OF False]]) (use False assms(7) in auto)
  qed
  ultimately show ?thesis
    by (simp add: rest_ok_base)
qed

lemma conns_ok_drop: "conns_ok x s \<Longrightarrow> conns_ok x (drop_req r s)"
  by (rule conns_ok_fields) simp_all

text \<open>The state in which the callback of a request has left the queue and the list.\<close>

definition unlinked :: "nat \<Rightarrow> later_cb list \<Rightarrow> nano_http_server \<Rightarrow> nano_http_server" where
  "unlinked r fs s = s\<lparr>later := fs, pending_reqs := remove1 r (pending_reqs s)\<rparr>"

lemma unlinked_ok:
  assumes "conns_ok None s" "rest_ok s" "later s = LaterInvoke r # fs"
  shows "conns_ok None (unlinked r fs s)" "base_ok (unlinked r fs s)" "r' \<noteq> r \<Longrightarrow> req_ok r' (unlinked r fs s)"
    "count_list (pending_reqs (unlinked r fs s)) r = 0" "count_list (later (unlinked r fs s)) (LaterInvoke r) = 0"
    "frees (unlinked r fs s) r = 0" "handled (unlinked r fs s) r = 0"
    "reqs s r = Some b \<Longrightarrow> finishes (unlinked r fs s) r = of_bool b" "reqs s r \<noteq> None"
proof -
  let ?s = "unlinked r fs s"
  show "conns_ok None ?s"
    by (rule conns_ok_fields [OF assms(1)]) (simp_all add: unlinked_def assms(3))
  have eok: "end_ok s" and bok: "base_ok s" and rok: "req_ok r s"
    using assms(2) by (simp_all add: rest_ok_base base_ok_def)
  have "end_ok ?s"
    using end_ok_cong [OF end_ok_pop [OF eok assms(3)], of ?s] by (simp add: unlinked_def)
  then show "base_ok ?s"
    by (rule base_ok_fields [OF bok, rotated -1]) (simp_all add: unlinked_def)
  have counts [simp]: "finishes ?s r' = finishes s r'" "frees ?s r' = frees s r'" "handled ?s r' = handled s r'" for r'
    by (simp_all add: unlinked_def finishes_def frees_def handled_def)
  show some: "reqs s r \<noteq> None"
    using rok assms(3) by (cases "reqs s r") (auto simp: req_ok_def)
  then show "count_list (pending_reqs ?s) r = 0" "count_list (later ?s) (LaterInvoke r) = 0"
    using rok assms(3) by (auto simp: req_ok_def unlinked_def count_list_remove1)
  show "frees ?s r = 0" "handled ?s r = 0"
    using rok some by (auto simp: req_ok_def)
  show "finishes ?s r = of_bool b" if "reqs s r = Some b"
    using rok that by (simp add: req_ok_def)
  show "req_ok r' ?s" if "r' \<noteq> r"
    by (rule req_ok_cong [of r' s])
      (use assms(2,3) that in \<open>simp_all add: rest_ok_base\<close>, simp_all add: unlinked_def count_list_remove1)
qed

lemma invoke_step:
  assumes "conns_ok None s" "rest_ok s" "later s = LaterInvoke r # fs"
  shows "conns_ok None (http_invoke_callback (closes us) r (s\<lparr>later := fs\<rparr>))"
    "rest_ok (http_invoke_callback (closes us) r (s\<lparr>later := fs\<rparr>))"
proof -
  note un = unlinked_ok [OF assms]
  let ?s = "unlinked r fs s"
  let ?t = "http_invoke_callback (closes us) r (s\<lparr>later := fs\<rparr>)"
  obtain b where b: "reqs s r = Some b"
    using un(9) by auto
  show "conns_ok None ?t" "rest_ok ?t"
  proof (atomize (full), cases b)
    case True
    have "?t = sdo [FreeRequest r] (drop_req r ?s)"
      using b True by (simp add: http_invoke_callback_def http_request_unlink_def unlinked_def drop_req_def sdo_def)
    moreover have "rest_ok (sdo [FreeRequest r] (drop_req r ?s))"
      by (rule rest_ok_drop) (use un(2-8) b True in auto)
    ultimately show "conns_ok None ?t \<and> rest_ok ?t"
      using conns_ok_drop [OF un(1)] by (simp add: conns_ok_sdo)
  next
    case False
    let ?s1 = "sdo [OnHttp r] ?s"
    let ?s2 = "closes us ?s1"
    have ok1: "conns_ok None ?s1"
      using un(1) by (simp add: conns_ok_sdo)
    have ok2: "conns_ok None ?s2" and fr: "frame ?s1 ?s2"
      using closes_ok [OF ok1] frame_keeps by auto
    have base: "base_ok ?s1"
      by (rule base_ok_fields [OF un(2)]) (use end_ok_cong [of ?s ?s1] un(2) in \<open>simp_all add: base_ok_def\<close>)
    have other: "req_ok r' ?s1" if "r' \<noteq> r" for r'
      by (rule req_ok_cong [OF un(3) [OF that]]) (use that in auto)
    have pend: "pending_reqs ?s2 = pending_reqs ?s"
      using fr by (simp add: frame_def)
    have "sdo [OnHttp r] (s\<lparr>later := fs, pending_reqs := remove1 r (pending_reqs s)\<rparr>) = ?s1"
      by (simp add: unlinked_def)
    then have "?t = sdo [Finish r 0, FreeRequest r] (drop_req r ?s2)"
      using b False by (simp add: http_invoke_callback_def http_request_unlink_def drop_req_def Let_def)
    moreover have "rest_ok (sdo [Finish r 0, FreeRequest r] (drop_req r ?s2))"
      by (rule rest_ok_drop [OF base_ok_frame [OF base fr]])
        (use req_ok_frame [OF other fr] un(4-8) b False pend frame_counts [OF fr, of r] in auto)
    ultimately show "conns_ok None ?t \<and> rest_ok ?t"
      using conns_ok_drop [OF ok2] by (simp add: conns_ok_sdo)
  qed
qed

text \<open>The last callback of the server.\<close>

definition calm :: "nano_http_server \<Rightarrow> nano_http_server \<Rightarrow> bool" where
  "calm s s' \<longleftrightarrow> (\<exists>cs. s' = sdo cs s \<and> \<not> list_ex conn_call cs \<and> \<not> list_ex req_call cs)"

lemma calm_refl: "calm s s"
  unfolding calm_def by (intro exI [of _ "[]"]) (simp add: sdo_def)

lemma calm_sdo: "\<not> list_ex conn_call cs \<Longrightarrow> \<not> list_ex req_call cs \<Longrightarrow> calm s (sdo cs s)"
  unfolding calm_def by blast

lemma calm_trans:
  assumes "calm s s'" "calm s' s''"
  shows "calm s s''"
proof -
  obtain as where a: "s' = sdo as s" "\<not> list_ex conn_call as" "\<not> list_ex req_call as"
    using assms(1) by (auto simp: calm_def)
  obtain bs where b: "s'' = sdo bs s'" "\<not> list_ex conn_call bs" "\<not> list_ex req_call bs"
    using assms(2) by (auto simp: calm_def)
  show ?thesis
    unfolding calm_def using a b by (intro exI [of _ "as @ bs"]) (simp add: sdo_def)
qed

lemma calm_ok:
  assumes "calm s s'" "conns_ok x s" "rest_ok s"
  shows "conns_ok x s'" "rest_ok s'"
  using assms by (auto simp: calm_def conns_ok_sdo rest_ok_sdo)

lemma cleanup_handlers_calm:
  assumes "\<And>h. clists s h = []"
  shows "calm s (cleanup_handlers hs s)"
  using assms
proof (induction hs arbitrary: s)
  case (Cons h hs)
  let ?s = "sdo (if h_listener (handlers s ! h) then [ListenerFree h] else [DelHandler h]) s"
  have "calm s ?s"
    by (rule calm_sdo) simp_all
  moreover have "calm ?s (cleanup_handlers hs ?s)"
    by (rule Cons.IH) (simp add: Cons.prems)
  ultimately have "calm s (cleanup_handlers hs ?s)"
    by (rule calm_trans)
  then show ?case
    using Cons.prems by simp
qed (simp add: calm_refl)

lemma cleanup_step:
  assumes "conns_ok None s" "rest_ok s" "later s = LaterCleanup # fs"
  shows "conns_ok None (http_server_cleanup (s\<lparr>later := fs\<rparr>))" "rest_ok (http_server_cleanup (s\<lparr>later := fs\<rparr>))"
    "conns s = Map.empty" "\<exists>cs. http_server_cleanup (s\<lparr>later := fs\<rparr>) = sdo (cs @ [ReleaseServer]) (s\<lparr>later := fs\<rparr>)"
proof -
  have eok: "end_ok s" and bok: "base_ok s" and rok: "req_ok r s" for r
    using assms(2) by (auto simp: rest_ok_base base_ok_def)
  have fs: "fs = []" and st: "s_state s \<noteq> SERVER_STARTED" and rel: "ReleaseServer \<notin> set (scalls s)"
    using eok assms(3) by (auto simp: end_ok_def split: if_splits)
  have closed: "all_closed s"
    using bok st by (simp add: base_ok_def)
  have "\<forall>f \<in> set fs. cb_conn f = None"
    by (simp add: fs)
  note empty = http_server_cleanup_ok [OF assms(1,3) closed this]
  show "conns s = Map.empty"
    by (rule empty(1))
  obtain cs where cs: "cleanup_handlers [0..<length (handlers s)] (s\<lparr>later := fs\<rparr>) = sdo cs (s\<lparr>later := fs\<rparr>)"
    "\<not> list_ex conn_call cs" "\<not> list_ex req_call cs"
    using cleanup_handlers_calm [of "s\<lparr>later := fs\<rparr>" "[0..<length (handlers s)]"] empty(2) by (auto simp: calm_def)
  let ?t = "sdo (cs @ [ReleaseServer]) (s\<lparr>later := fs\<rparr>)"
  have t: "http_server_cleanup (s\<lparr>later := fs\<rparr>) = ?t"
    using cs(1) by (simp add: http_server_cleanup_def)
  then show "\<exists>cs. http_server_cleanup (s\<lparr>later := fs\<rparr>) = sdo (cs @ [ReleaseServer]) (s\<lparr>later := fs\<rparr>)"
    by blast
  have "conns_ok None (s\<lparr>later := fs\<rparr>)"
    by (rule conns_ok_fields [OF assms(1)]) (simp_all add: assms(3))
  then show "conns_ok None (http_server_cleanup (s\<lparr>later := fs\<rparr>))"
    unfolding t by (rule conns_ok_sdo) (use cs(2) in simp)
  have "count_list (scalls s) ReleaseServer = 0"
    using rel by (simp add: count_list_0_iff)
  then have "end_ok ?t"
    using st quiet_calls [OF cs(3)] fs by (simp add: end_ok_def)
  then have "base_ok ?t"
    by (rule base_ok_fields [OF bok, rotated -1]) simp_all
  moreover have "req_ok r ?t" for r
    by (rule req_ok_cong [OF rok])
      (use quiet_calls [OF cs(3), of r] assms(3) in \<open>simp_all add: finishes_def frees_def handled_def\<close>)
  ultimately show "rest_ok (http_server_cleanup (s\<lparr>later := fs\<rparr>))"
    unfolding t by (simp add: rest_ok_base)
qed

lemma run_step:
  assumes "conns_ok None s" "rest_ok s"
  shows "conns_ok None (run_later (closes us) s)" "rest_ok (run_later (closes us) s)"
proof (atomize (full), cases "later s")
  case Nil
  then show "conns_ok None (run_later (closes us) s) \<and> rest_ok (run_later (closes us) s)"
    using assms by (simp add: run_later_def)
next
  case (Cons f fs)
  show "conns_ok None (run_later (closes us) s) \<and> rest_ok (run_later (closes us) s)"
  proof (cases f)
    case (LaterOpen c)
    note l = Cons [unfolded LaterOpen]
    show ?thesis
      using ws_invoke_onopen_ok [OF assms(1) l] rest_ok_frame [OF rest_ok_pop [OF assms(2) l, of c]] l
      by (simp add: run_later_def run_cb_def)
  next
    case (LaterMessage c msg)
    note l = Cons [unfolded LaterMessage]
    show ?thesis
      using ws_invoke_onmessage_ok [OF assms(1) l] rest_ok_frame [OF rest_ok_pop [OF assms(2) l, of c]] l
      by (simp add: run_later_def run_cb_def)
  next
    case (LaterClose c)
    note l = Cons [unfolded LaterClose]
    show ?thesis
      using conn_invoke_onclose_ok [OF assms(1) l] rest_ok_frame [OF rest_ok_pop [OF assms(2) l, of c]] l
      by (simp add: run_later_def run_cb_def)
  next
    case (LaterRequest c)
    note l = Cons [unfolded LaterRequest]
    show ?thesis
      using stream_invoke_onrequest_ok [OF assms(1) l] rest_ok_frame [OF rest_ok_pop [OF assms(2) l, of c]] l
      by (simp add: run_later_def run_cb_def)
  next
    case (LaterInvoke r)
    note l = Cons [unfolded LaterInvoke]
    show ?thesis
      using invoke_step [OF assms l] l by (simp add: run_later_def run_cb_def)
  next
    case LaterCleanup
    note l = Cons [unfolded LaterCleanup]
    show ?thesis
      using cleanup_step [OF assms l] l by (simp add: run_later_def run_cb_def)
  qed
qed

text \<open>Starting only makes calls, and changes the state.\<close>

lemma start_listeners_calm: "calm s (snd (start_listeners listen hs s))"
proof (induction hs arbitrary: s)
  case (Cons h hs)
  have "calm s (sdo [Listen h, Accept h] s)" "calm s (sdo [Listen h] s)"
    by (simp_all add: calm_sdo)
  then show ?case
    using Cons.IH [of s] calm_trans [OF _ Cons.IH [of "sdo [Listen h, Accept h] s"]] by simp
qed (simp add: calm_refl)

lemma rest_ok_begin:
  assumes "conns_ok None s" "rest_ok s" "held s" "s_state s = SERVER_CREATED"
  shows "conns_ok None (s\<lparr>s_state := SERVER_STARTED\<rparr>) \<and> rest_ok (s\<lparr>s_state := SERVER_STARTED\<rparr>)"
proof
  let ?t = "s\<lparr>s_state := SERVER_STARTED\<rparr>"
  show "conns_ok None ?t"
    by (rule conns_ok_fields [OF assms(1)]) simp_all
  have counts: "finishes ?t r = finishes s r" "frees ?t r = frees s r" "handled ?t r = handled s r" for r
    by (simp_all add: finishes_def frees_def handled_def)
  have "req_ok r ?t" for r
  proof -
    have "req_ok r s"
      using assms(2) by (simp add: rest_ok_def)
    then show ?thesis
      using assms(4) counts by (cases "reqs s r") (simp_all add: req_ok_def)
  qed
  then show "rest_ok ?t"
    using assms(2,3) by (simp add: rest_ok_def handlers_ok_def end_ok_def held_def)
qed

lemma start_step:
  assumes "conns_ok None s" "rest_ok s" "held s"
  shows "conns_ok None (snd (rnng_http_server_start start listen s))" "rest_ok (snd (rnng_http_server_start start listen s))"
proof -
  let ?hs = "[0..<length (handlers s)]"
  let ?s1 = "snd (start_listeners listen ?hs (sdo [ServerStart] s))"
  let ?ls = "map ListenerClose (filter (\<lambda>h. h_listener (handlers s ! h)) ?hs) @ [ServerStop]"
  have calm1: "calm s ?s1"
    using calm_trans [OF _ start_listeners_calm] calm_sdo [of "[ServerStart]" s] by simp
  have calm2: "calm s (sdo ?ls ?s1)"
    by (rule calm_trans [OF calm1 calm_sdo]) (auto simp: list_ex_iff)
  let ?t = "?s1\<lparr>s_state := SERVER_STARTED\<rparr>"
  have held: "held ?s1"
    using assms(3) calm1 quiet_calls by (auto simp: held_def calm_def)
  have t: "conns_ok None ?t \<and> rest_ok ?t" if "s_state s = SERVER_CREATED"
  proof -
    have "s_state ?s1 = SERVER_CREATED"
      using calm1 that by (auto simp: calm_def)
    then show ?thesis
      using rest_ok_begin [OF calm_ok [OF calm1 assms(1,2)] held] by simp
  qed
  have "snd (rnng_http_server_start start listen s) \<in> {s, sdo ?ls ?s1} \<or>
      s_state s = SERVER_CREATED \<and> snd (rnng_http_server_start start listen s) = ?t"
    by (auto simp: rnng_http_server_start_def Let_def case_prod_beta split: nano_server_state.split)
  with t calm_ok [OF calm2 assms(1,2)] assms(1,2)
  show "conns_ok None (snd (rnng_http_server_start start listen s))" "rest_ok (snd (rnng_http_server_start start listen s))"
    by auto
qed

text \<open>Stopping, by hand or by the finalizer.\<close>

lemma cancelled_eq: "cancelled s =
    (sdo (ServerStop # map (\<lambda>r. Finish r NNG_ECANCELED) (pending_reqs s)) s)
      \<lparr>reqs := (\<lambda>r. if r \<in> set (pending_reqs s) then Some True else reqs s r)\<rparr>"
  by (simp add: cancelled_def http_cancel_pending_requests_def cancel_walk_eq sdo_def cong: if_cong)

lemma cancelled_counts:
  "finishes (cancelled s) r = finishes s r + count_list (pending_reqs s) r"
  "frees (cancelled s) r = frees s r" "handled (cancelled s) r = handled s r"
proof -
  have "length (filter (finish_of r) (map (\<lambda>r. Finish r NNG_ECANCELED) rs)) = count_list rs r"
    "count_list (map (\<lambda>r. Finish r NNG_ECANCELED) rs) (FreeRequest r) = 0"
    "count_list (map (\<lambda>r. Finish r NNG_ECANCELED) rs) (OnHttp r) = 0" for rs
    by (induction rs) auto
  then show "finishes (cancelled s) r = finishes s r + count_list (pending_reqs s) r"
    "frees (cancelled s) r = frees s r" "handled (cancelled s) r = handled s r"
    by (simp_all add: cancelled_eq finishes_def frees_def handled_def)
qed

text \<open>Stopping answers what is pending.\<close>

lemma req_ok_cancelled:
  assumes "req_ok r s" "s_state s = SERVER_STARTED"
  shows "req_ok r (cancelled (s\<lparr>s_state := SERVER_STOPPED\<rparr>))"
proof -
  let ?t = "cancelled (s\<lparr>s_state := SERVER_STOPPED\<rparr>)"
  have counts: "finishes ?t r = finishes s r + count_list (pending_reqs s) r" "frees ?t r = frees s r"
    "handled ?t r = handled s r"
    by (simp_all add: cancelled_counts) (simp_all add: finishes_def frees_def handled_def)
  have mem: "r \<in> set (pending_reqs s) \<longleftrightarrow> reqs s r \<noteq> None"
  proof -
    have "count_list (pending_reqs s) r = of_bool (reqs s r \<noteq> None)"
      using assms(1) by (simp add: req_ok_def)
    with count_list_0_iff [of "pending_reqs s" r] show ?thesis
      by (cases "reqs s r") auto
  qed
  have now: "reqs ?t r = (if reqs s r = None then None else Some True)" "pending_reqs ?t = pending_reqs s"
    "later ?t = later s" "s_state ?t = SERVER_STOPPED"
    using mem by (simp_all add: cancelled_eq)
  show ?thesis
    using assms counts now by (cases "reqs s r") (simp_all add: req_ok_def)
qed

lemma stop_step:
  assumes "conns_ok None s" "rest_ok s" "held s" "quiet s" "s_state s = SERVER_STARTED"
  shows "conns_ok None (http_server_stop (s\<lparr>s_state := SERVER_STOPPED\<rparr>))"
    "rest_ok (http_server_stop (s\<lparr>s_state := SERVER_STOPPED\<rparr>))"
    "held (http_server_stop (s\<lparr>s_state := SERVER_STOPPED\<rparr>))"
    "s_state (http_server_stop (s\<lparr>s_state := SERVER_STOPPED\<rparr>)) = SERVER_STOPPED"
proof -
  let ?s = "s\<lparr>s_state := SERVER_STOPPED\<rparr>"
  let ?t = "http_server_stop ?s"
  have ok: "conns_ok None ?s"
    by (rule conns_ok_fields [OF assms(1)]) simp_all
  have "handlers_ok ?s" "quiet ?s"
    using assms(2,4) by (simp_all add: rest_ok_def handlers_ok_def quiet_def)
  note stop = http_server_stop_ok [OF ok this(2,1)]
  show "conns_ok None ?t"
    by (rule stop(1))
  have fr: "frame (cancelled ?s) ?t"
    by (rule frame_keeps [OF stop(3)])
  show st: "s_state ?t = SERVER_STOPPED"
    using fr by (simp add: frame_def cancelled_eq)
  have "req_ok r (cancelled ?s)" for r
    by (rule req_ok_cancelled [OF _ assms(5)]) (use assms(2) in \<open>simp add: rest_ok_def\<close>)
  then have req: "req_ok r ?t" for r
    using req_ok_frame [OF _ fr] by blast
  obtain q where q: "later ?t = later s @ q" "\<forall>f \<in> set q. \<exists>c. cb_conn f = Some c"
    using fr by (auto simp: frame_def cancelled_eq)
  obtain cs where cs: "scalls ?t = scalls (cancelled ?s) @ cs" "\<not> list_ex req_call cs"
    using fr by (auto simp: frame_def)
  have none: "LaterCleanup \<notin> set (later ?t)" "ReleaseServer \<notin> set (scalls ?t)"
    using assms(3) q conn_callbacks(2) [OF q(2)] cs quiet_calls [OF cs(2)] by (auto simp: held_def cancelled_eq)
  then show "held ?t"
    by (simp add: held_def)
  have "handlers ?t = handlers s" "clists ?t = clists s"
    using stop(3) by (simp_all add: keeps_def cancelled_eq)
  then have "handlers_ok ?t"
    using assms(2) by (simp add: rest_ok_def handlers_ok_def)
  with req none stop(2) show "rest_ok ?t"
    by (simp add: rest_ok_def end_ok_def)
qed

lemma final_step:
  assumes "conns_ok None s" "rest_ok s" "held s" "s_state s \<noteq> SERVER_STARTED"
  shows "conns_ok None (later2 LaterCleanup s)" "rest_ok (later2 LaterCleanup s)"
proof -
  show "conns_ok None (later2 LaterCleanup s)"
    by (rule conns_ok_other_later [OF assms(1)]) simp
  have "req_ok r (later2 LaterCleanup s)" for r
    by (rule req_ok_cong [of r s]) (use assms(2) in \<open>simp_all add: rest_ok_def\<close>)
  moreover have "end_ok (later2 LaterCleanup s)"
    using assms(3,4) by (simp add: end_ok_def held_def)
  ultimately show "rest_ok (later2 LaterCleanup s)"
    using assms(2) by (simp add: rest_ok_def handlers_ok_def all_closed_def)
qed

section \<open>Every reachable state\<close>

lemma server_init: "conns_ok None (server0 hs)" "rest_ok (server0 hs)"
  by (auto simp: server0_def conns_ok_def conn_ok_def view_of_def rest_ok_def handlers_ok_def all_closed_def
      closed_conn_def req_ok_def end_ok_def finishes_def frees_def handled_def)

lemma server_step:
  assumes "sstep s s'" "conns_ok None s" "rest_ok s"
  shows "conns_ok None s' \<and> rest_ok s'"
  using assms
proof (cases rule: sstep.cases)
  case (Accepted h xc calloc_ok aio_ok)
  then show ?thesis
    using ws_accept_cb_ok [OF assms(2)] accept_step [OF assms(3)] by simp
next
  case (Streamed h a calloc_ok aio_ok)
  then show ?thesis
    using stream_handler_cb_ok [OF assms(2)] stream_step [OF assms(3)] by simp
next
  case (Requested r calloc_ok)
  have "conns_ok None (http_handler_cb calloc_ok r s)"
    by (auto simp: http_handler_cb_def conns_ok_sdo assms(2) intro!: conns_ok_other_later conns_ok_fields [OF assms(2)])
  then show ?thesis
    using Requested request_step [OF assms(3)] by simp
next
  case (Received c k xc malloc_ok msg)
  then show ?thesis
    using ws_recv_cb_ok [OF assms(2)] recv_step [OF assms(2,3)] by simp
next
  case (Ran us)
  then show ?thesis
    using run_step [OF assms(2,3)] by simp
next
  case (Closed c)
  then show ?thesis
    using rnng_conn_close_ok [OF assms(2)] rest_ok_frame [OF assms(3) frame_keeps [OF keeps_close [OF assms(2)]]] by simp
next
  case (WsClosed c)
  then show ?thesis
    using rnng_ws_close_ok [OF assms(2)] rest_ok_frame [OF assms(3) frame_keeps [OF keeps_ws_close [OF assms(2)]]] by simp
next
  case (Started start listen)
  then show ?thesis
    using start_step [OF assms(2,3)] by simp
next
  case Stopped
  then show ?thesis
    using stop_step [OF assms(2,3)] assms(2,3) by (simp add: rnng_http_server_stop_def)
next
  case Finalized
  show ?thesis
  proof (cases "s_state s = SERVER_STARTED")
    case True
    note st = stop_step [OF assms(2,3) Finalized(2,3) True]
    show ?thesis
      using final_step [OF st(1-3)] st(4) True Finalized(1)
      by (simp add: rnng_http_server_close_def http_server_finalizer_def)
  next
    case False
    then show ?thesis
      using final_step [OF assms(2,3) Finalized(2)] Finalized(1)
      by (simp add: rnng_http_server_close_def http_server_finalizer_def)
  qed
qed

lemma server_reachable:
  assumes "sstep\<^sup>*\<^sup>* (server0 hs) s"
  shows "conns_ok None s \<and> rest_ok s"
  using assms by (induction rule: rtranclp_induct) (use server_init server_step in blast)+

end
