(* ===== verification/ServerProps.thy ===== *)
theory ServerProps
  imports ServerSteps
begin

text \<open>
  What the server promises in every state that it can reach: what becomes of its connections, of its
  requests, and of itself once it has been stopped. Two runs that the steps leave out, at the end,
  show what the code does to freed connections.
\<close>

section \<open>Connections\<close>

lemma queue_close:
  assumes "queue_ok c k q"
  shows "count_list q (LaterClose c) = of_bool (k_state k \<noteq> CONN_STATE_OPEN)"
proof (cases "k_state k")
  case CONN_STATE_CLOSING
  then have q: "q \<noteq> []" "last q = LaterClose c" "LaterClose c \<notin> set (butlast q)"
    using assms by (simp_all add: queue_ok_def)
  have "count_list (butlast q @ [last q]) (LaterClose c) = 1"
    using q(2,3) by (simp add: count_list_0_iff)
  with q(1) CONN_STATE_CLOSING show ?thesis
    by (simp add: append_butlast_last_id)
qed (use assms in \<open>auto simp: queue_ok_def count_list_0_iff\<close>)

lemma count_list_queue: "count_list (filter (\<lambda>f. cb_conn f = Some c) fs) (LaterClose c) = count_list fs (LaterClose c)"
  by (induction fs) auto


section \<open>Requests\<close>


section \<open>The end of a server\<close>

text \<open>\<open>uss\<close> is what the R functions called do, one callback after the other.\<close>

definition drain :: "nat list list \<Rightarrow> nano_http_server \<Rightarrow> nano_http_server" where
  "drain uss s = fold (\<lambda>us s. run_later (closes us) s) uss s"

text \<open>With no connection open, a callback queues no other.\<close>

definition drained :: "later_cb list \<Rightarrow> nano_http_server \<Rightarrow> nano_http_server \<Rightarrow> bool" where
  "drained fs s s' \<longleftrightarrow> later s' = fs \<and> s_state s' = s_state s \<and> (held s' \<longrightarrow> held s)"

lemma drained_frame:
  assumes "frame s1 s'" "later s1 = fs" "s_state s1 = s_state s" "scalls s1 = scalls s @ cs" "all_closed s1"
    "later s = f # fs" "f \<noteq> LaterCleanup"
  shows "drained fs s s'"
proof -
  obtain cs' where "scalls s' = scalls s1 @ cs'"
    using assms(1) unfolding frame_def by blast
  then show ?thesis
    using assms by (auto simp: drained_def frame_def held_def)
qed

lemma drained_run:
  assumes "conns_ok None s" "rest_ok s" "s_state s \<noteq> SERVER_STARTED" "later s = f # fs"
  shows "drained fs s (run_later (closes us) s)"
proof -
  let ?s = "s\<lparr>later := fs\<rparr>"
  have closed: "all_closed ?s"
    using assms(2,3) by (simp add: rest_ok_def all_closed_def closed_conn_def)
  have framed: "drained fs s s'" if "frame ?s s'" "f \<noteq> LaterCleanup" for s'
    by (rule drained_frame [OF that(1), where cs = "[]"]) (use closed assms(4) that(2) in simp_all)
  show ?thesis
  proof (cases f)
    case (LaterOpen c)
    then show ?thesis
      using framed ws_invoke_onopen_ok(2) [OF assms(1) assms(4) [unfolded LaterOpen]] assms(4)
      by (simp add: run_later_def run_cb_def)
  next
    case (LaterMessage c msg)
    then show ?thesis
      using framed ws_invoke_onmessage_ok(2) [OF assms(1) assms(4) [unfolded LaterMessage]] assms(4)
      by (simp add: run_later_def run_cb_def)
  next
    case (LaterClose c)
    then show ?thesis
      using framed conn_invoke_onclose_ok(2) [OF assms(1) assms(4) [unfolded LaterClose]] assms(4)
      by (simp add: run_later_def run_cb_def)
  next
    case (LaterRequest c)
    then show ?thesis
      using framed stream_invoke_onrequest_ok(2) [OF assms(1) assms(4) [unfolded LaterRequest]] assms(4)
      by (simp add: run_later_def run_cb_def)
  next
    case (LaterInvoke r)
    note un = unlinked_ok [OF assms(1,2) assms(4) [unfolded LaterInvoke]]
    let ?u = "unlinked r fs s" and ?u1 = "sdo [OnHttp r] (unlinked r fs s)"
    have u: "s\<lparr>later := fs, pending_reqs := remove1 r (pending_reqs s)\<rparr> = ?u"
      by (simp add: unlinked_def)
    have "frame ?u1 (closes us ?u1)"
      using closes_ok [of None ?u1 us] un(1) frame_keeps by (simp add: conns_ok_sdo)
    then have "drained fs s (closes us ?u1)"
      by (rule drained_frame [where cs = "[OnHttp r]"])
        (use closed assms(4) LaterInvoke in \<open>auto simp: unlinked_def all_closed_def closed_conn_def\<close>)
    then have d: "drained fs s (sdo [Finish r 0, FreeRequest r] (drop_req r (closes us ?u1)))"
      by (simp add: drained_def held_def)
    have run: "run_later (closes us) s = http_invoke_callback (closes us) r ?s"
      using assms(4) LaterInvoke by (simp add: run_later_def run_cb_def)
    obtain b where b: "reqs s r = Some b"
      using un(9) by auto
    show ?thesis
    proof (cases b)
      case True
      then have "run_later (closes us) s = sdo [FreeRequest r] (drop_req r ?u)"
        using b by (simp add: run http_invoke_callback_def http_request_unlink_def Let_def u drop_req_def)
      then show ?thesis
        using assms(4) LaterInvoke by (simp add: drained_def held_def) (simp add: unlinked_def)
    next
      case False
      then have "run_later (closes us) s = sdo [Finish r 0, FreeRequest r] (drop_req r (closes us ?u1))"
        using b by (simp add: run http_invoke_callback_def http_request_unlink_def Let_def u drop_req_def)
      with d show ?thesis
        by simp
    qed
  next
    case LaterCleanup
    obtain cs where "http_server_cleanup ?s = sdo (cs @ [ReleaseServer]) ?s"
      using cleanup_step(4) [OF assms(1,2) assms(4) [unfolded LaterCleanup]] by blast
    then show ?thesis
      using LaterCleanup assms(4) by (simp add: run_later_def run_cb_def drained_def held_def)
  qed
qed

lemma drain_ends:
  assumes "conns_ok None s" "rest_ok s" "s_state s \<noteq> SERVER_STARTED" "length uss = length (later s)"
  shows "conns_ok None (drain uss s) \<and> rest_ok (drain uss s) \<and> later (drain uss s) = []
    \<and> s_state (drain uss s) = s_state s \<and> (held (drain uss s) \<longrightarrow> held s)"
  using assms
proof (induction uss arbitrary: s)
  case (Cons us uss)
  then obtain f fs where l: "later s = f # fs"
    by (cases "later s") auto
  let ?s = "run_later (closes us) s"
  have d: "drained fs s ?s"
    by (rule drained_run [OF Cons.prems(1-3) l])
  have "conns_ok None (drain uss ?s) \<and> rest_ok (drain uss ?s) \<and> later (drain uss ?s) = []
      \<and> s_state (drain uss ?s) = s_state ?s \<and> (held (drain uss ?s) \<longrightarrow> held ?s)"
    using Cons.IH [OF run_step [OF Cons.prems(1,2)]] d Cons.prems(3,4) l by (simp add: drained_def)
  then show ?case
    using d by (auto simp: drained_def drain_def)
qed (simp add: drain_def)

lemma drained_empty:
  assumes "conns_ok None s" "rest_ok s" "s_state s \<noteq> SERVER_STARTED" "later s = []"
  shows "conns s = Map.empty" "reqs s = Map.empty" "clists s h = []" "prot s = []"
proof -
  have closed: "all_closed s"
    using assms(2,3) by (simp add: rest_ok_def)
  show empty: "conns s = Map.empty"
  proof
    fix c
    have "v_queue (view_of s c) = []"
      using assms(4) by (simp add: view_of_def)
    moreover have "v_conn (view_of s c) = conns s c"
      by (simp add: view_of_def)
    ultimately show "conns s c = None"
      using conns_okD [OF assms(1), of c] all_closedD [OF closed, of c]
      by (cases "conns s c") (auto simp: conn_ok_def queue_ok_def elim: state_ok.elims)
  qed
  show "clists s h = []"
    using listed_live [OF assms(1), of _ h] empty by (cases "clists s h") auto
  have "c \<notin> set (prot s)" for c
    using conns_okD [OF assms(1), of c] empty by (simp add: conn_ok_def view_of_def count_list_0_iff)
  then show "prot s = []"
    by (metis list.set_intros(1) neq_Nil_conv)
  show "reqs s = Map.empty"
  proof
    fix r
    have "req_ok r s"
      using assms(2) by (simp add: rest_ok_def)
    then show "reqs s r = None"
      using assms(4) by (cases "reqs s r") (auto simp: req_ok_def)
  qed
qed


section \<open>A run\<close>

text \<open>
  A server with one WebSocket handler is started, accepts a connection, opens it, gets an HTTP request
  and a message, and is closed.
\<close>

definition demo_handler :: nano_http_handler_info where
  "demo_handler = \<lparr>h_on_open = True, h_on_close = True, h_callback = True, h_textframes = False, h_listener = True\<rparr>"

definition demo_started :: nano_http_server where
  "demo_started = snd (rnng_http_server_start 0 (\<lambda>h. 0) (server0 [demo_handler]))"

definition demo_opened :: nano_http_server where
  "demo_opened = run_later (closes []) (ws_accept_cb 0 True True 0 demo_started)"

definition demo_busy :: nano_http_server where
  "demo_busy = ws_recv_cb 0 True [1, 2] 1 (http_handler_cb True 7 demo_opened)"

definition demo_closed :: nano_http_server where
  "demo_closed = rnng_http_server_close demo_busy"

lemma demo_started_reached: "sstep\<^sup>*\<^sup>* (server0 [demo_handler]) demo_started"
proof -
  have "held (server0 [demo_handler])"
    by (simp add: held_def server0_def)
  then show ?thesis
    unfolding demo_started_def by (intro r_into_rtranclp sstep.Started)
qed

lemma demo_opened_reached: "sstep\<^sup>*\<^sup>* (server0 [demo_handler]) demo_opened"
proof -
  have "s_state demo_started = SERVER_STARTED \<and> 0 < length (handlers demo_started)"
    by code_simp
  then have "sstep demo_started (ws_accept_cb 0 True True 0 demo_started)"
    by (auto intro: sstep.Accepted)
  moreover have "later (ws_accept_cb 0 True True 0 demo_started) \<noteq> []"
    by code_simp
  then have "sstep (ws_accept_cb 0 True True 0 demo_started) demo_opened"
    unfolding demo_opened_def by (rule sstep.Ran)
  ultimately show ?thesis
    using demo_started_reached by (meson rtranclp.rtrancl_into_rtrancl)
qed

lemma demo_busy_reached: "sstep\<^sup>*\<^sup>* (server0 [demo_handler]) demo_busy"
proof -
  have "s_state demo_opened = SERVER_STARTED \<and> scalls demo_opened = [ServerStart, Listen 0, Accept 0, Accept 0, OnOpen 1, Recv 1]
      \<and> reqs demo_opened 7 = None"
    by code_simp
  then have "sstep demo_opened (http_handler_cb True 7 demo_opened)"
    by (intro sstep.Requested) (simp_all add: fresh_def finishes_def)
  moreover have "conns (http_handler_cb True 7 demo_opened) 1 = Some (\<lparr>k_type = NANO_CONN_WEBSOCKET, k_state = CONN_STATE_OPEN,
      k_handler = 0, k_xptr = True, k_onclose = False, k_recv = True, k_headers_sent = False\<rparr>)"
    by code_simp
  then have "sstep (http_handler_cb True 7 demo_opened) demo_busy"
    unfolding demo_busy_def by (rule sstep.Received) simp_all
  ultimately show ?thesis
    using demo_opened_reached by (meson rtranclp.rtrancl_into_rtrancl)
qed

lemma demo_busy_queue: "later demo_busy = [LaterInvoke 7, LaterMessage 1 [1, 2]] \<and> ReleaseServer \<notin> set (scalls demo_busy)"
  by code_simp

lemma demo_closed_reached: "sstep\<^sup>*\<^sup>* (server0 [demo_handler]) demo_closed"
proof -
  have "sstep demo_busy demo_closed"
    unfolding demo_closed_def using demo_busy_queue by (intro sstep.Finalized) (simp_all add: held_def quiet_def)
  then show ?thesis
    using demo_busy_reached by (meson rtranclp.rtrancl_into_rtrancl)
qed

lemma demo_closed_facts:
  "conn_counter demo_closed = 1 \<and> s_state demo_closed = SERVER_STOPPED
    \<and> later demo_closed = [LaterInvoke 7, LaterMessage 1 [1, 2], LaterClose 1, LaterCleanup]"
  by code_simp




section \<open>What the guards of the steps leave out\<close>

text \<open>
  A server stopped between the arrival of a streaming request and its callback: \<open>http_server_stop\<close>
  queues the close callback behind the request callback, which finds the connection closing and frees
  it; the close callback then runs on a freed connection.
\<close>

lemma stop_frees_stream_early:
  "let s = rnng_http_server_stop (stream_handler_cb True True 5 0 demo_started);
       s1 = run_later (closes []) s
   in later s = [LaterRequest 1, LaterClose 1] \<and> FreeConn 1 \<in> set (scalls s1) \<and> \<not> bad s1 \<and> bad (run_later (closes []) s1)"
  by code_simp

text \<open>
  A message whose receive has completed while its connection is closed from R: its callback is queued
  behind the one that frees the connection.
\<close>

lemma message_behind_close:
  "let s = ws_recv_cb 0 True [1] 1 (snd (rnng_ws_close 1 demo_opened));
       s1 = run_later (closes []) s
   in later s = [LaterClose 1, LaterMessage 1 [1]] \<and> FreeConn 1 \<in> set (scalls s1) \<and> \<not> bad s1 \<and> bad (run_later (closes []) s1)"
  by code_simp

end
