(* ===== verification/Chains.thy ===== *)
theory Chains
  imports Effects
begin

text \<open>
  The C idiom \<^verbatim>\<open>if ((xc = f ()) || (xc = g ()) || ...) goto fail;\<close>: a chain of calls, each with its
  result, that stops at the first failure, and the unwinding behind \<^verbatim>\<open>fail:\<close> that frees the
  pointers that are not \<open>NULL\<close>, that is, what the chain has acquired.
\<close>

fun chain_calls :: "(('o, 'e) effect \<times> int) list \<Rightarrow> ('o, 'e) effect list \<times> int" where
  "chain_calls [] = ([], 0)"
| "chain_calls ((e, xc) # cs) =
     (if xc \<noteq> 0 then (case e of Acq x \<Rightarrow> [] | _ \<Rightarrow> [e], xc)
      else (let (es, r) = chain_calls cs in (e # es, r)))"

text \<open>\<open>ask c\<close> is a call that acquires nothing, \<open>acquire c x\<close> one that does, if it succeeds.\<close>

definition ask :: "('e \<Rightarrow> int) \<Rightarrow> 'e \<Rightarrow> (('o, 'e) effect \<times> int) list" where
  "ask ans c = [(Do c, ans c)]"

definition acquire :: "('e \<Rightarrow> int) \<Rightarrow> 'e \<Rightarrow> 'o \<Rightarrow> (('o, 'e) effect \<times> int) list" where
  "acquire ans c x = [(Do c, 0), (Acq x, ans c)]"

text \<open>Freeing a pointer that may be \<open>NULL\<close>.\<close>

definition free_if :: "('o, 'e) effect list \<Rightarrow> 'o \<Rightarrow> ('o, 'e) effect list" where
  "free_if es x = (if Acq x \<in> set es then [Rel x] else [])"

fun acqs :: "('o, 'e) effect list \<Rightarrow> 'o list" where
  "acqs [] = []"
| "acqs (Acq x # es) = x # acqs es"
| "acqs (_ # es) = acqs es"

fun gone :: "('o, 'e) effect list \<Rightarrow> 'o list" where
  "gone [] = []"
| "gone (Rel x # es) = x # gone es"
| "gone (Move x # es) = x # gone es"
| "gone (_ # es) = gone es"

text \<open>
  The code at \<^verbatim>\<open>fail:\<close>: the pointers that the chain may have set are freed in some order, and then what
  was allocated before the chain, last first.
\<close>

definition unwind :: "'o list \<Rightarrow> 'o list \<Rightarrow> ('o, 'e) effect list \<Rightarrow> ('o, 'e) effect list" where
  "unwind order outer es = concat (map (free_if es) order) @ map Rel (rev outer)"

lemma acqs_append [simp]: "acqs (es @ fs) = acqs es @ acqs fs"
  by (induction es rule: acqs.induct) auto

lemma gone_append [simp]: "gone (es @ fs) = gone es @ gone fs"
  by (induction es rule: gone.induct) auto

lemma acqs_iff: "x \<in> set (acqs es) \<longleftrightarrow> Acq x \<in> set es"
  by (induction es rule: acqs.induct) auto

lemma gone_free_if [simp]: "gone (free_if es x) = (if Acq x \<in> set es then [x] else [])"
  and acqs_free_if [simp]: "acqs (free_if es x) = []"
  by (simp_all add: free_if_def)

lemma gone_concat_free_if: "gone (concat (map (free_if es) xs)) = filter (\<lambda>x. Acq x \<in> set es) xs"
  by (induction xs) auto

lemma acqs_concat_free_if [simp]: "acqs (concat (map (free_if es) xs)) = []"
  by (induction xs) auto

lemma acqs_map [simp]: "acqs (map Acq xs) = xs" "acqs (map Rel xs) = []"
  and gone_map [simp]: "gone (map Acq xs) = []" "gone (map Rel xs) = xs"
  by (induction xs) auto

lemma settle_acqs: "gone es = [] \<Longrightarrow> settle es live = Some (rev (acqs es) @ live)"
  by (induction es live rule: settle.induct) auto

lemma settle_gone:
  "acqs es = [] \<Longrightarrow> mset (gone es) \<subseteq># mset live \<Longrightarrow>
     \<exists>live'. settle es live = Some live' \<and> mset live' = mset live - mset (gone es)"
proof (induction es live rule: settle.induct)
  case (3 x es live)
  then have x: "x \<in> set live"
    by (metis gone.simps(2) insert_subset_eq_iff mset.simps(2) set_mset_mset)
  then have "mset (gone es) \<subseteq># mset (remove1 x live)"
    using 3(3) by (simp add: insert_subset_eq_iff)
  from 3(1) [OF x _ this] 3(2) x show ?case
    by auto
next
  case (4 x es live)
  then have x: "x \<in> set live"
    by (metis gone.simps(3) insert_subset_eq_iff mset.simps(2) set_mset_mset)
  then have "mset (gone es) \<subseteq># mset (remove1 x live)"
    using 4(3) by (simp add: insert_subset_eq_iff)
  from 4(1) [OF x _ this] 4(2) x show ?case
    by auto
qed auto

text \<open>First everything is acquired, then some of it is given up: the rest is left.\<close>

lemma owns_split:
  assumes "gone es = []" "acqs fs = []" "mset (acqs es) = mset (gone fs) + mset xs"
  shows "owns (es @ fs) xs"
proof -
  have "settle (es @ fs) [] = settle fs (rev (acqs es))"
    using settle_acqs [OF assms(1), of "[]"] by simp
  moreover obtain live where "settle fs (rev (acqs es)) = Some live" "mset live = mset xs"
    using settle_gone [OF assms(2), of "rev (acqs es)"] assms(3) by auto
  ultimately show ?thesis
    by (simp add: owns_def)
qed

lemma owns_acquired: "gone es = [] \<Longrightarrow> mset (acqs es) = mset xs \<Longrightarrow> owns es xs"
  using owns_split [of es "[]" xs] by simp

text \<open>The unwinding frees every pointer once, in any order, if it forgets none.\<close>

lemma mset_filter_subset:
  assumes "distinct ys" "distinct xs" "set ys \<subseteq> set xs"
  shows "mset (filter (\<lambda>x. x \<in> set ys) xs) = mset ys"
proof -
  have "set (filter (\<lambda>x. x \<in> set ys) xs) = set ys"
    using assms(3) by auto
  then show ?thesis
    using set_eq_iff_mset_eq_distinct [of "filter (\<lambda>x. x \<in> set ys) xs" ys] assms(1,2) by simp
qed

lemma owns_unwind:
  assumes "gone es = []" "acqs fs = []" "distinct (acqs es)"
    and "gone fs = filter (\<lambda>x. Acq x \<in> set es) order" "distinct order" "set (acqs es) \<subseteq> set order"
  shows "owns (es @ fs) []"
proof (rule owns_split [OF assms(1,2)])
  show "mset (acqs es) = mset (gone fs) + mset []"
    using mset_filter_subset [OF assms(3,5,6)] assms(4) by (simp add: acqs_iff)
qed

section \<open>Chains\<close>

lemma chain_gone:
  assumes "\<forall>c \<in> set cs. gone [fst c] = []"
  shows "gone (fst (chain_calls cs)) = []"
  using assms
proof (induction cs rule: chain_calls.induct)
  case (2 e xc cs)
  then show ?case
    by (cases e) (auto simp: case_prod_beta Let_def)
qed simp

text \<open>What a chain acquires: all of it if it succeeds, else a beginning.\<close>

lemma chain_prefix: "\<exists>n. acqs (fst (chain_calls cs)) = take n (acqs (map fst cs))"
proof (induction cs rule: chain_calls.induct)
  case (2 e xc cs)
  show ?case
  proof (cases "xc \<noteq> 0")
    case True
    then show ?thesis
      by (cases e) (auto intro: exI [of _ 0])
  next
    case False
    then obtain n where n: "acqs (fst (chain_calls cs)) = take n (acqs (map fst cs))"
      using 2 by auto
    show ?thesis
    proof (cases e)
      case (Acq x)
      then show ?thesis
        using False n by (auto simp: case_prod_beta Let_def intro: exI [of _ "Suc n"])
    qed (use False n in \<open>auto simp: case_prod_beta Let_def\<close>)
  qed
qed simp

lemma chain_distinct: "distinct (acqs (map fst cs)) \<Longrightarrow> distinct (acqs (fst (chain_calls cs)))"
  using chain_prefix [of cs] by auto

lemma chain_subset: "set (acqs (fst (chain_calls cs))) \<subseteq> set (acqs (map fst cs))"
  using chain_prefix [of cs] by (metis set_take_subset)

lemma chain_ok: "snd (chain_calls cs) = 0 \<Longrightarrow> fst (chain_calls cs) = map fst cs"
proof (induction cs rule: chain_calls.induct)
  case (2 e xc cs)
  then show ?case
    by (cases "xc \<noteq> 0") (auto simp: case_prod_beta Let_def)
qed simp

lemma chain_ok_iff: "snd (chain_calls cs) = 0 \<longleftrightarrow> (\<forall>c \<in> set cs. snd c = 0)"
proof (induction cs rule: chain_calls.induct)
  case (2 e xc cs)
  then show ?case
    by (cases "xc \<noteq> 0") (auto simp: case_prod_beta Let_def)
qed simp

lemma chain_append:
  "chain_calls (cs @ ds) =
     (let (es, xc) = chain_calls cs in
      if xc \<noteq> 0 then (es, xc) else (let (fs, r) = chain_calls ds in (es @ fs, r)))"
  by (induction cs rule: chain_calls.induct) (auto simp: Let_def split: prod.splits)

section \<open>The contract of a constructor\<close>

text \<open>
  A function that builds something out of parts runs a chain behind what it has allocated before
  (\<open>outer\<close>), and at \<^verbatim>\<open>fail:\<close> frees, in some order, the parts that are there and then the outer ones.
  It must not give anything away on the way, acquire nothing twice, and forget no part in the order.
\<close>

locale unwinding =
  fixes chain :: "'a \<Rightarrow> (('o, 'e) effect \<times> int) list"
    and order :: "'a \<Rightarrow> 'o list"
    and outer :: "'a \<Rightarrow> 'o list"
  assumes keeps: "c \<in> set (chain a) \<Longrightarrow> gone [fst c] = []"
    and once: "distinct (acqs (map fst (chain a)))"
    and complete: "set (acqs (map fst (chain a))) \<subseteq> set (order a)"
    and separate: "distinct (order a @ outer a)"
begin

lemma keeps_all: "gone (fst (chain_calls (chain a))) = []"
  using keeps by (intro chain_gone) blast

text \<open>Wherever the chain stopped, also when it went through and something later failed: nothing is left.\<close>

lemma unwound:
  assumes "chain_calls (chain a) = (es, xc)" "acqs ds = []" "gone ds = []"
  shows "owns (map Acq (outer a) @ es @ ds @ unwind (order a) (outer a) (es @ ds)) []"
proof -
  have g: "gone es = []" and d: "distinct (acqs es)"
    using keeps_all [of a] chain_distinct [OF once] assms(1) by (metis fst_conv)+
  have sub: "set (acqs es) \<subseteq> set (order a)"
    using chain_subset [of "chain a"] complete [of a] assms(1) by auto
  have none: "Acq x \<notin> set ds" for x
    using assms(2) acqs_iff [of x ds] by simp
  have sep: "set (order a) \<inter> set (outer a) = {}" "distinct (order a)" "distinct (outer a)"
    using separate [of a] by auto
  let ?all = "map Acq (outer a) @ es @ ds"
  have "owns (?all @ unwind (order a) (outer a) (es @ ds)) []"
  proof (rule owns_unwind [where order = "order a @ rev (outer a)"])
    show "gone (unwind (order a) (outer a) (es @ ds)) = filter (\<lambda>x. Acq x \<in> set ?all) (order a @ rev (outer a))"
    proof -
      have "filter (\<lambda>x. Acq x \<in> set (es @ ds)) (order a) = filter (\<lambda>x. Acq x \<in> set ?all) (order a)"
        using sep(1) by (intro filter_cong) auto
      then show ?thesis
        by (simp add: unwind_def gone_concat_free_if)
    qed
  qed (use g d sub sep assms(2,3) in \<open>auto simp: unwind_def none\<close>)
  then show ?thesis
    by simp
qed

text \<open>A chain that went through has acquired all its parts, and they can be given up in any order.\<close>

lemma made:
  assumes "chain_calls (chain a) = (es, 0)"
  shows "acqs es = acqs (map fst (chain a)) \<and> gone es = []"
  using chain_ok [of "chain a"] keeps_all [of a] assms by simp

end

end
