(* ===== verification/ServerCreate.thy ===== *)
theory ServerCreate
  imports Chains ServerProps
begin

text \<open>
  Creating a server (\<open>rnng_http_server_create\<close> of \<^verbatim>\<open>server.c\<close>): the handlers of the seven kinds, the
  unwinding of a creation that fails half way, and the response an HTTP handler's result is turned
  into. What the code asks of NNG is a chain of calls with NNG's answers.
\<close>

section \<open>Handlers\<close>

datatype srv_obj = Srv | Mtx | Url | HttpServer | TlsHold | Handler nat | Listener nat | AcceptAio nat

datatype handler_kind =
    HttpCb | StreamCb | FileHandler string | DirHandler string | StaticHandler "byte list" string
  | RedirectHandler nat string

datatype srv_req =
    NewMtx | ParseUrl | HoldServer | SetTls
  | NewHandler nat handler_kind string | SetMethod nat "string option" | SetTree nat | SetData nat
  | AddHandler nat | RemoveHandler nat
  | NewListener nat string | SetBool nat string | SetTlsOption nat | NewAcceptAio nat | Rejected nat

text \<open>A handler as R gives it: the list that \<open>get_list_element\<close> takes apart, by its \<open>type\<close>.\<close>

datatype handler_spec =
    DynamicSpec string string bool
  | WebSocketSpec string bool bool bool
  | FileSpec string string bool
  | DirSpec string string
  | InlineSpec string "byte list" "byte list option" bool
  | RedirectSpec string int string bool
  | StreamSpec string string bool bool
  | OtherSpec int

record url_parts =
  u_scheme :: string
  u_hostname :: string
  u_port :: string

definition NANO_URL_MAX :: nat where "NANO_URL_MAX = 8192"

definition method_arg :: "string \<Rightarrow> string option" where
  "method_arg m = (if m = ''*'' then None else Some m)"

definition tree_ops :: "(srv_req \<Rightarrow> int) \<Rightarrow> nat \<Rightarrow> bool \<Rightarrow> ((srv_obj, srv_req) effect \<times> int) list" where
  "tree_ops ans i tree = (if tree then ask ans (SetTree i) else [])"

definition dynamic_ops where
  "dynamic_ops ans i kind path meth tree =
     acquire ans (NewHandler i kind path) (Handler i) @ ask ans (SetMethod i (method_arg meth)) @ tree_ops ans i tree
     @ [(Do (SetData i), 0)] @ ask ans (AddHandler i)"

text \<open>The WebSocket URL, built in a buffer of exactly its length.\<close>

definition ws_scheme :: "url_parts \<Rightarrow> string" where
  "ws_scheme up = (if u_scheme up = ''https'' then ''wss'' else ''ws'')"

definition ws_url_len :: "url_parts \<Rightarrow> string \<Rightarrow> nat" where
  "ws_url_len up path = length (ws_scheme up) + length (u_hostname up) + length (u_port up) + length path + 5"

definition ws_url :: "url_parts \<Rightarrow> string \<Rightarrow> string" where
  "ws_url up path =
     fst (snprintf (ws_url_len up path) (ws_scheme up @ ''://'' @ u_hostname up @ '':'' @ u_port up @ path))"

definition websocket_ops where
  "websocket_ops ans up tls i path textframes =
     (if ws_url_len up path > NANO_URL_MAX then [(Do (Rejected i), NNG_EINVAL)]
      else
        acquire ans (NewListener i (ws_url up path)) (Listener i) @ ask ans (SetBool i ''ws:msgmode'')
        @ (if textframes then ask ans (SetBool i ''ws:recv-text'') @ ask ans (SetBool i ''ws:send-text'') else [])
        @ (if tls then [(Do (SetTlsOption i), 0)] else [])
        @ acquire ans (NewAcceptAio i) (AcceptAio i))"

text \<open>The static handlers: NNG keeps what they serve.\<close>

definition static_ops where
  "static_ops ans i kind path tree =
     acquire ans (NewHandler i kind path) (Handler i) @ tree_ops ans i tree @ ask ans (AddHandler i)"

definition inline_type :: "byte list option \<Rightarrow> string" where
  "inline_type ct =
     (case ct of Some s \<Rightarrow> map (\<lambda>b. char_of (unat b)) s | None \<Rightarrow> ''application/octet-stream'')"

definition handler_ops ::
  "(srv_req \<Rightarrow> int) \<Rightarrow> url_parts \<Rightarrow> bool \<Rightarrow> nat \<Rightarrow> handler_spec \<Rightarrow> ((srv_obj, srv_req) effect \<times> int) list" where
  "handler_ops ans up tls i h =
     (case h of
        DynamicSpec path meth tree \<Rightarrow> dynamic_ops ans i HttpCb path meth tree
      | WebSocketSpec path textframes on_open on_close \<Rightarrow> websocket_ops ans up tls i path textframes
      | FileSpec path file tree \<Rightarrow> static_ops ans i (FileHandler file) path tree
      | DirSpec path dir \<Rightarrow> static_ops ans i (DirHandler dir) path False
      | InlineSpec path data ct tree \<Rightarrow> static_ops ans i (StaticHandler data (inline_type ct)) path tree
      | RedirectSpec path status location tree \<Rightarrow>
          static_ops ans i (RedirectHandler (nat (status mod 2 ^ 16)) location) path tree
      | StreamSpec path meth tree on_close \<Rightarrow> dynamic_ops ans i StreamCb path meth tree
      | OtherSpec type \<Rightarrow> [(Do (Rejected i), NNG_EINVAL)])"

text \<open>What a handler keeps of R, and what of it is protected.\<close>

datatype prot_obj = ProtTls | ProtCallback nat | ProtOnOpen nat | ProtOnClose nat

definition handler_info :: "handler_spec \<Rightarrow> nano_http_handler_info" where
  "handler_info h =
     (case h of
        WebSocketSpec path textframes on_open on_close \<Rightarrow>
          \<lparr>h_on_open = on_open, h_on_close = on_close, h_callback = True, h_textframes = textframes, h_listener = True\<rparr>
      | _ \<Rightarrow>
          \<lparr>h_on_open = False, h_on_close = (case h of StreamSpec path meth tree on_close \<Rightarrow> on_close | _ \<Rightarrow> False),
            h_callback = (case h of DynamicSpec path meth tree \<Rightarrow> True | StreamSpec path meth tree on_close \<Rightarrow> True | _ \<Rightarrow> False),
            h_textframes = False, h_listener = False\<rparr>)"

definition handler_prot :: "nat \<Rightarrow> handler_spec \<Rightarrow> prot_obj list \<Rightarrow> prot_obj list" where
  "handler_prot i h pl =
     (case h of
        DynamicSpec path meth tree \<Rightarrow> prot_add (ProtCallback i) pl
      | WebSocketSpec path textframes on_open on_close \<Rightarrow>
          (let p1 = prot_add (ProtCallback i) pl;
               p2 = (if on_open then prot_add (ProtOnOpen i) p1 else p1)
           in if on_close then prot_add (ProtOnClose i) p2 else p2)
      | StreamSpec path meth tree on_close \<Rightarrow>
          (let p1 = prot_add (ProtCallback i) pl in if on_close then prot_add (ProtOnClose i) p1 else p1)
      | _ \<Rightarrow> pl)"

section \<open>Creation\<close>

text \<open>The loop over the handlers: its calls, the result, and \<open>handlers_added\<close>.\<close>

fun add_handlers ::
  "(srv_req \<Rightarrow> int) \<Rightarrow> url_parts \<Rightarrow> bool \<Rightarrow> nat \<Rightarrow> handler_spec list \<Rightarrow> (srv_obj, srv_req) effect list \<times> int \<times> nat" where
  "add_handlers ans up tls i [] = ([], 0, i)"
| "add_handlers ans up tls i (h # hs) =
     (let (es, xc) = chain_calls (handler_ops ans up tls i h) in
      if xc \<noteq> 0 then (es, xc, i)
      else (let (es', r) = add_handlers ans up tls (i + 1) hs in (es @ es', r)))"

fun protect_handlers :: "nat \<Rightarrow> handler_spec list \<Rightarrow> prot_obj list \<Rightarrow> prot_obj list" where
  "protect_handlers i [] pl = pl"
| "protect_handlers i (h # hs) pl = protect_handlers (i + 1) hs (handler_prot i h pl)"

text \<open>Behind \<open>fail\<close>: \<open>es\<close> is what has been done, \<open>added\<close> the handlers completed, \<open>n\<close> all of them.\<close>

definition free_handler :: "(srv_obj, srv_req) effect list \<Rightarrow> nat \<Rightarrow> (srv_obj, srv_req) effect list" where
  "free_handler es i = free_if es (Handler i) @ free_if es (Listener i) @ free_if es (AcceptAio i)"

definition create_fail ::
  "(srv_obj, srv_req) effect list \<Rightarrow> nat \<Rightarrow> nat \<Rightarrow> (srv_obj, srv_req) effect list" where
  "create_fail es added n =
     free_if es TlsHold
     @ concat (map (\<lambda>i. (if Acq (Handler i) \<in> set es then [Do (RemoveHandler i)] else []) @ free_handler es i) [0..<added])
     @ (if added < n then free_handler es added else [])
     @ free_if es HttpServer @ free_if es Mtx @ [Rel Srv] @ free_if es Url"

text \<open>\<open>tls\<close>: a TLS configuration is given (and valid).\<close>

definition create_prefix :: "(srv_req \<Rightarrow> int) \<Rightarrow> bool \<Rightarrow> ((srv_obj, srv_req) effect \<times> int) list" where
  "create_prefix ans tls =
     acquire ans NewMtx Mtx @ acquire ans ParseUrl Url @ acquire ans HoldServer HttpServer
     @ (if tls then [(Acq TlsHold, 0)] @ ask ans SetTls else [])"

definition rnng_http_server_create ::
  "(srv_req \<Rightarrow> int) \<Rightarrow> bool \<Rightarrow> url_parts \<Rightarrow> bool \<Rightarrow> handler_spec list \<Rightarrow>
     (srv_obj, srv_req) effect list \<times> (nano_http_server \<times> prot_obj list) entry" where
  "rnng_http_server_create ans calloc_ok up tls hs =
     (if \<not> calloc_ok then ([], Failed 2)
      else
        (let (es, xc) = chain_calls (create_prefix ans tls) in
         if xc \<noteq> 0 then (Acq Srv # es @ create_fail (Acq Srv # es) 0 (length hs), Failed xc)
         else
           (let (es', xc, added) = add_handlers ans up tls 0 hs;
                all = Acq Srv # es @ es'
            in if xc \<noteq> 0 then (all @ create_fail all added (length hs), Failed xc)
               else (all @ [Rel Url],
                     Made (server0 (map handler_info hs),
                           protect_handlers 0 hs (if tls then prot_add ProtTls [] else []))))))"

section \<open>Nothing leaks\<close>

text \<open>What a handler holds of NNG once it has been added.\<close>

definition handler_objs :: "nat \<Rightarrow> handler_spec \<Rightarrow> srv_obj list" where
  "handler_objs i h =
     (case h of WebSocketSpec path textframes on_open on_close \<Rightarrow> [Listener i, AcceptAio i]
      | OtherSpec type \<Rightarrow> [] | _ \<Rightarrow> [Handler i])"

lemma acqs_ask [simp]: "acqs (map fst (ask ans c)) = []"
  and acqs_acquire [simp]: "acqs (map fst (acquire ans c x)) = [x]"
  and acqs_tree [simp]: "acqs (map fst (tree_ops ans i tree)) = []"
  by (simp_all add: ask_def acquire_def tree_ops_def)

lemmas ops_defs = handler_ops_def dynamic_ops_def websocket_ops_def static_ops_def

lemma acqs_handler_ops:
  "acqs (map fst (handler_ops ans up tls i h)) = handler_objs i h
    \<or> acqs (map fst (handler_ops ans up tls i h)) = [] \<and> snd (chain_calls (handler_ops ans up tls i h)) \<noteq> 0"
  by (cases h) (auto simp: ops_defs handler_objs_def NNG_EINVAL_def)

lemma gone_ask: "c \<in> set (ask ans r) \<Longrightarrow> gone [fst c] = []"
  and gone_acquire: "c \<in> set (acquire ans r x) \<Longrightarrow> gone [fst c] = []"
  by (auto simp: ask_def acquire_def)

lemma gone_handler_ops: "\<forall>c \<in> set (handler_ops ans up tls i h). gone [fst c] = []"
  by (cases h) (auto simp: ops_defs tree_ops_def ask_def acquire_def split: if_splits)

definition objs_of :: "nat \<Rightarrow> srv_obj list" where
  "objs_of i = [Handler i, Listener i, AcceptAio i]"

lemma handler_objs_of: "set (handler_objs i h) \<subseteq> set (objs_of i)" "distinct (handler_objs i h)"
  by (cases h; simp add: handler_objs_def objs_of_def) (cases h; simp add: handler_objs_def)

lemma objs_of_inj: "x \<in> set (objs_of i) \<Longrightarrow> x \<in> set (objs_of j) \<Longrightarrow> i = j"
  by (auto simp: objs_of_def)

lemma objs_of_distinct: "distinct (concat (map objs_of [m..<n]))"
proof (induction n)
  case (Suc n)
  have "distinct (objs_of n)"
    by (simp add: objs_of_def)
  moreover have "x \<notin> set (objs_of i)" if "x \<in> set (objs_of n)" "i < n" for x i
    using objs_of_inj that by blast
  ultimately show ?case
    using Suc by (cases "m \<le> n") (auto simp: Int_def)
qed simp

lemma chain_handler:
  fixes ans up tls i h
  defines "es \<equiv> fst (chain_calls (handler_ops ans up tls i h))"
  shows "gone es = []" "distinct (acqs es)" "set (acqs es) \<subseteq> set (objs_of i)"
    "snd (chain_calls (handler_ops ans up tls i h)) = 0 \<Longrightarrow> acqs es = handler_objs i h"
proof -
  let ?ops = "handler_ops ans up tls i h"
  have d: "distinct (acqs (map fst ?ops))" "set (acqs (map fst ?ops)) \<subseteq> set (objs_of i)"
    by (rule disjE [OF acqs_handler_ops [of ans up tls i h]]; use handler_objs_of [of i h] in simp)+
  show "gone es = []"
    unfolding es_def by (rule chain_gone [OF gone_handler_ops])
  show "distinct (acqs es)"
    unfolding es_def by (rule chain_distinct [OF d(1)])
  show "set (acqs es) \<subseteq> set (objs_of i)"
    unfolding es_def by (rule subset_trans [OF chain_subset d(2)])
  show "acqs es = handler_objs i h" if "snd (chain_calls ?ops) = 0"
    by (rule disjE [OF acqs_handler_ops [of ans up tls i h]]) (use chain_ok [OF that] that in \<open>simp_all add: es_def\<close>)
qed

fun objs_from :: "nat \<Rightarrow> handler_spec list \<Rightarrow> srv_obj list" where
  "objs_from i [] = []"
| "objs_from i (h # hs) = handler_objs i h @ objs_from (Suc i) hs"

lemma in_objs_range: "x \<in> set (concat (map objs_of [m..<n])) \<longleftrightarrow> (\<exists>i. m \<le> i \<and> i < n \<and> x \<in> set (objs_of i))"
  by auto

lemma add_handlers_acquires:
  assumes "add_handlers ans up tls i hs = (es, xc, added)"
  shows "gone es = [] \<and> distinct (acqs es) \<and> i \<le> added \<and> added + of_bool (xc \<noteq> 0) \<le> i + length hs
    \<and> set (acqs es) \<subseteq> set (concat (map objs_of [i..<added + of_bool (xc \<noteq> 0)]))
    \<and> (xc = 0 \<longrightarrow> acqs es = objs_from i hs)"
  using assms
proof (induction hs arbitrary: i es)
  case (Cons h hs)
  obtain es1 xc1 where c: "chain_calls (handler_ops ans up tls i h) = (es1, xc1)"
    by fastforce
  note one = chain_handler [of ans up tls i h, unfolded c fst_conv snd_conv]
  show ?case
  proof (cases "xc1 = 0")
    case False
    then have "es = es1" "xc = xc1" "added = i"
      using Cons.prems c by auto
    then show ?thesis
      using one False by simp
  next
    case True
    obtain es2 where es: "es = es1 @ es2" and r: "add_handlers ans up tls (Suc i) hs = (es2, xc, added)"
      using Cons.prems c True by (auto split: prod.splits)
    note IH = Cons.IH [OF r]
    have sub: "set (acqs es2) \<subseteq> set (concat (map objs_of [Suc i..<added + of_bool (xc \<noteq> 0)]))"
      using IH by blast
    have "set (acqs es1) \<inter> set (acqs es2) = {}"
      using one(3) sub by (fastforce simp: objs_of_def)
    moreover have "set (acqs es) \<subseteq> set (concat (map objs_of [i..<added + of_bool (xc \<noteq> 0)]))"
    proof
      fix x assume "x \<in> set (acqs es)"
      then consider "x \<in> set (objs_of i)" | "x \<in> set (concat (map objs_of [Suc i..<added + of_bool (xc \<noteq> 0)]))"
        using es one(3) sub by auto
      then show "x \<in> set (concat (map objs_of [i..<added + of_bool (xc \<noteq> 0)]))"
      proof cases
        case 1
        moreover have "i < added + of_bool (xc \<noteq> 0)"
          using IH by auto
        ultimately show ?thesis
          unfolding in_objs_range by blast
      next
        case 2
        then show ?thesis
          unfolding in_objs_range by (meson Suc_leD)
      qed
    qed
    ultimately show ?thesis
      using IH one True es by auto
  qed
qed simp

text \<open>The unwinding frees in this order what has been acquired.\<close>

definition unwind_order :: "nat \<Rightarrow> srv_obj list" where
  "unwind_order m = TlsHold # concat (map objs_of [0..<m]) @ [HttpServer, Mtx, Srv, Url]"

lemma unwind_order_distinct: "distinct (unwind_order m)"
  using objs_of_distinct [of 0 m] by (auto simp: unwind_order_def objs_of_def)

lemma gone_free_handler: "gone (free_handler es i) = filter (\<lambda>x. Acq x \<in> set es) (objs_of i)"
  by (simp add: free_handler_def objs_of_def)

lemma acqs_free_handler [simp]: "acqs (free_handler es i) = []"
  by (simp add: free_handler_def)

lemma gone_handlers:
  "gone (concat (map (\<lambda>i. (if P i then [Do (f i)] else []) @ free_handler es i) is)) =
     filter (\<lambda>x. Acq x \<in> set es) (concat (map objs_of is))"
  "acqs (concat (map (\<lambda>i. (if P i then [Do (f i)] else []) @ free_handler es i) is)) = []"
  by (induction "is") (auto simp: gone_free_handler)

lemma create_fail_gone:
  assumes "Acq Srv \<in> set es"
  shows "gone (create_fail es added n) = filter (\<lambda>x. Acq x \<in> set es) (unwind_order (if added < n then Suc added else added))"
    "acqs (create_fail es added n) = []"
  using assms by (simp_all add: create_fail_def gone_handlers gone_free_handler unwind_order_def)

definition prefix_objs :: "bool \<Rightarrow> srv_obj list" where
  "prefix_objs tls = [Mtx, Url, HttpServer] @ (if tls then [TlsHold] else [])"

lemma acqs_prefix: "acqs (map fst (create_prefix ans tls)) = prefix_objs tls"
  by (simp add: create_prefix_def prefix_objs_def)

lemma prefix_chain:
  "gone (fst (chain_calls (create_prefix ans tls))) = []"
  "distinct (acqs (fst (chain_calls (create_prefix ans tls))))"
  "set (acqs (fst (chain_calls (create_prefix ans tls)))) \<subseteq> set (prefix_objs tls)"
  "snd (chain_calls (create_prefix ans tls)) = 0 \<Longrightarrow> acqs (fst (chain_calls (create_prefix ans tls))) = prefix_objs tls"
proof -
  show "gone (fst (chain_calls (create_prefix ans tls))) = []"
    by (rule chain_gone) (auto simp: create_prefix_def ask_def acquire_def split: if_splits)
  have "distinct (prefix_objs tls)"
    by (simp add: prefix_objs_def)
  then show "distinct (acqs (fst (chain_calls (create_prefix ans tls))))"
    using chain_distinct [of "create_prefix ans tls"] by (simp add: acqs_prefix)
  show "set (acqs (fst (chain_calls (create_prefix ans tls)))) \<subseteq> set (prefix_objs tls)"
    using chain_subset [of "create_prefix ans tls"] by (simp only: acqs_prefix)
  show "snd (chain_calls (create_prefix ans tls)) = 0 \<Longrightarrow>
      acqs (fst (chain_calls (create_prefix ans tls))) = prefix_objs tls"
    using chain_ok [of "create_prefix ans tls"] by (simp only: acqs_prefix)
qed

definition server_objs :: "bool \<Rightarrow> handler_spec list \<Rightarrow> srv_obj list" where
  "server_objs tls hs = [Srv, Mtx, HttpServer] @ (if tls then [TlsHold] else []) @ objs_from 0 hs"

lemma fail_owns:
  assumes "gone es = []" "distinct (Srv # acqs es)" "added \<le> n"
    and "set (acqs es) \<subseteq> set (prefix_objs tls) \<union> set (concat (map objs_of [0..<if added < n then Suc added else added]))"
  shows "owns (Acq Srv # es @ create_fail (Acq Srv # es) added n) []"
proof -
  let ?all = "Acq Srv # es"
  have "owns (?all @ create_fail ?all added n) []"
  proof (rule owns_unwind)
    show "gone (create_fail ?all added n) = filter (\<lambda>x. Acq x \<in> set ?all) (unwind_order (if added < n then Suc added else added))"
      "acqs (create_fail ?all added n) = []"
      using create_fail_gone [of ?all] by simp_all
    show "set (acqs ?all) \<subseteq> set (unwind_order (if added < n then Suc added else added))"
      using assms(4) by (auto simp: unwind_order_def prefix_objs_def split: if_splits)
  qed (use assms(1,2) unwind_order_distinct in simp_all)
  then show ?thesis
    by simp
qed

text \<open>
  Creating a server never leaks and never frees twice, whatever handlers it is given and whichever
  call of NNG or the allocator fails. A server that is created owns exactly its structure, mutex, NNG
  server, TLS configuration and the handler or listener and accept aio of each of its handlers; it
  starts in the state CREATED with those handlers. A creation that fails leaves nothing.
\<close>

theorem server_create_accounts:
  "(case snd (rnng_http_server_create ans calloc_ok up tls hs) of
      Made (s, pl) \<Rightarrow> owns (fst (rnng_http_server_create ans calloc_ok up tls hs)) (server_objs tls hs)
        \<and> s = server0 (map handler_info hs)
    | _ \<Rightarrow> owns (fst (rnng_http_server_create ans calloc_ok up tls hs)) [])"
proof (cases calloc_ok)
  case False
  then show ?thesis
    by (simp add: rnng_http_server_create_def owns_def)
next
  case True
  obtain es xc where p: "chain_calls (create_prefix ans tls) = (es, xc)"
    by fastforce
  note pre = prefix_chain [of ans tls, unfolded p fst_conv snd_conv]
  show ?thesis
  proof (cases "xc = 0")
    case False
    have "owns (Acq Srv # es @ create_fail (Acq Srv # es) 0 (length hs)) []"
      by (rule fail_owns [where tls = tls]) (use pre in \<open>auto simp: prefix_objs_def\<close>)
    then show ?thesis
      using True False p by (simp add: rnng_http_server_create_def)
  next
    case ok: True
    obtain es' xc' added where a: "add_handlers ans up tls 0 hs = (es', xc', added)"
      by (metis prod_cases3)
    note add = add_handlers_acquires [OF a]
    have disj: "Srv \<notin> set (acqs es)" "Srv \<notin> set (acqs es')" "set (acqs es) \<inter> set (acqs es') = {}"
      using pre(3) add by (auto simp: prefix_objs_def objs_of_def)
    show ?thesis
    proof (cases "xc' = 0")
      case False
      have "added < length hs"
        using add False by simp
      moreover from this have "set (acqs es') \<subseteq> set (concat (map objs_of [0..<Suc added]))"
        using add False by simp
      ultimately have "owns (Acq Srv # (es @ es') @ create_fail (Acq Srv # es @ es') added (length hs)) []"
        by (intro fail_owns [where tls = tls and es = "es @ es'"]) (use pre add disj in auto)
      then show ?thesis
        using True ok False p a by (simp add: rnng_http_server_create_def)
    next
      case fin: True
      have "acqs es = prefix_objs tls" "acqs es' = objs_from 0 hs"
        using pre(4) ok add fin by auto
      then have "owns ((Acq Srv # es @ es') @ [Rel Url]) (server_objs tls hs)"
        by (intro owns_split) (use pre(1) add in \<open>auto simp: server_objs_def prefix_objs_def\<close>)
      then show ?thesis
        using True ok fin p a by (simp add: rnng_http_server_create_def)
    qed
  qed
qed

text \<open>The buffer of the WebSocket URL has exactly the length of what is printed.\<close>

lemma ws_url_fits:
  "ws_url up path = ws_scheme up @ ''://'' @ u_hostname up @ '':'' @ u_port up @ path"
  by (simp add: ws_url_def ws_url_len_def snprintf_def)

text \<open>Every R function that a handler keeps is protected from the garbage collector.\<close>

definition kept :: "nat \<Rightarrow> handler_spec \<Rightarrow> prot_obj set" where
  "kept i h =
     (if h_callback (handler_info h) then {ProtCallback i} else {})
     \<union> (if h_on_open (handler_info h) then {ProtOnOpen i} else {})
     \<union> (if h_on_close (handler_info h) then {ProtOnClose i} else {})"

lemma set_handler_prot: "set (handler_prot i h pl) = kept i h \<union> set pl"
  by (cases h) (auto simp: handler_prot_def kept_def handler_info_def prot_add_def Let_def)

lemma set_protect_handlers:
  "set (protect_handlers i hs pl) = (\<Union>j < length hs. kept (i + j) (hs ! j)) \<union> set pl"
proof (induction hs arbitrary: i pl)
  case (Cons h hs)
  have "{..<length (h # hs)} = insert 0 (Suc ` {..<length hs})"
    by (simp add: lessThan_Suc_eq_insert_0)
  then have "(\<Union>j < length (h # hs). kept (i + j) ((h # hs) ! j)) = kept i h \<union> (\<Union>j < length hs. kept (Suc i + j) (hs ! j))"
    by simp
  then show ?case
    using Cons.IH [of "Suc i" "handler_prot i h pl"] by (simp add: set_handler_prot) blast
qed simp

theorem handlers_protected:
  assumes "snd (rnng_http_server_create ans calloc_ok up tls hs) = Made (s, pl)" "i < length hs"
  shows "kept i (hs ! i) \<subseteq> set pl"
proof -
  have "pl = protect_handlers 0 hs (if tls then prot_add ProtTls [] else [])"
    using assms(1) by (auto simp: rnng_http_server_create_def Let_def split: if_splits prod.splits)
  then show ?thesis
    using assms(2) by (auto simp: set_protect_handlers)
qed

section \<open>Responses\<close>

text \<open>
  The value of an R handler, with the names of its elements: a list, or an atomic vector. An element
  has names of its own.
\<close>

type_synonym r_elem = "sexp \<times> byte list list option"

datatype r_result = RList "string list option" "r_elem list" | RAtomic "string list option" nat

record http_res =
  res_status :: int
  res_sets :: "(byte list \<times> byte list) list"
  res_data :: "byte list option"

definition c_str :: "byte list \<Rightarrow> byte list" where
  "c_str s = takeWhile (\<lambda>b. b \<noteq> 0) s"

text \<open>\<open>None\<close>: \<open>VECTOR_ELT\<close> of a vector that is not a list raises an R error.\<close>

definition result_element :: "r_result \<Rightarrow> string \<Rightarrow> r_elem option option" where
  "result_element r name =
     (case r of
        RList names xs \<Rightarrow> Some (get_list_element names xs name)
      | RAtomic names n \<Rightarrow> (if get_list_element names (replicate n ()) name = None then Some None else None))"

definition response_status :: "r_elem option \<Rightarrow> int option" where
  "response_status e =
     (case e of
        Some (IntSXP is, _) \<Rightarrow> (case is of [] \<Rightarrow> None | n # _ \<Rightarrow> Some (sint n mod 2 ^ 16))
      | _ \<Rightarrow> Some 200)"

definition response_headers :: "r_elem option \<Rightarrow> (byte list \<times> byte list) list" where
  "response_headers e =
     (case e of Some (StrSXP vs, Some ns) \<Rightarrow> zip (map c_str ns) (map c_str vs) | _ \<Rightarrow> [])"

text \<open>\<open>has_type\<close> is NNG's look-up of \<^verbatim>\<open>Content-Type\<close> among the headers set.\<close>

definition response_body ::
  "((byte list \<times> byte list) list \<Rightarrow> bool) \<Rightarrow> r_elem option \<Rightarrow> http_res \<Rightarrow> http_res" where
  "response_body has_type e res =
     (case e of
        Some (RawSXP bs, _) \<Rightarrow> res\<lparr>res_data := Some bs\<rparr>
      | Some (StrSXP (s # _), _) \<Rightarrow>
          res\<lparr>res_data := Some (c_str s),
              res_sets := res_sets res @ (if has_type (res_sets res) then []
                 else [(bytes_of ''Content-Type'', bytes_of ''text/plain; charset=utf-8'')])\<rparr>
      | _ \<Rightarrow> res)"

text \<open>
  The response to a request: 500 if the handler raised an error. \<open>None\<close>: an R error unwinds out of
  the callback (or memory outside a vector is read), and the request is not answered.
\<close>

definition http_response ::
  "((byte list \<times> byte list) list \<Rightarrow> bool) \<Rightarrow> r_result option \<Rightarrow> http_res option" where
  "http_response has_type result =
     (case result of
        None \<Rightarrow> Some \<lparr>res_status = 500, res_sets = [], res_data = None\<rparr>
      | Some r \<Rightarrow>
          Option.bind (Option.bind (result_element r ''status'') response_status) (\<lambda>code.
          Option.bind (result_element r ''headers'') (\<lambda>hs.
          Option.bind (result_element r ''body'') (\<lambda>body.
            Some (response_body has_type body
              \<lparr>res_status = code, res_sets = response_headers hs, res_data = None\<rparr>)))))"

text \<open>A list, whatever it holds, is answered unless its \<open>status\<close> is an empty integer vector.\<close>

lemma list_is_answered:
  assumes "\<And>ns. get_list_element names xs ''status'' \<noteq> Some (IntSXP [], ns)"
  shows "http_response has_type (Some (RList names xs)) \<noteq> None"
  using assms
  by (auto simp: http_response_def result_element_def response_status_def split: option.splits sexp.splits list.splits)

text \<open>A handler that returns \<open>c(status = 200L)\<close> leaves its client without an answer.\<close>

lemma atomic_result_escapes: "http_response has_type (Some (RAtomic (Some [''status'']) 1)) = None"
  by (simp add: http_response_def result_element_def get_list_element_def)

section \<open>Sending on a WebSocket\<close>

datatype ws_obj = WsMsg

datatype ws_call = WsSend "byte list"

text \<open>
  \<open>valid\<close>: the connection exists. \<open>alloc\<close> and \<open>sent\<close> are NNG's answers; a message that has been sent
  is NNG's. \<open>None\<close> is a read outside the data.
\<close>

definition rnng_ws_send ::
  "bool \<Rightarrow> int \<Rightarrow> int \<Rightarrow> sexp \<Rightarrow> ((ws_obj, ws_call) effect list \<times> unit entry) option" where
  "rnng_ws_send valid alloc sent data =
     (if \<not> valid then Some ([], Failed NNG_ECLOSED)
      else
        (case SEXP_TO_BUF data of
           None \<Rightarrow> None
         | Some (Inl (RError e)) \<Rightarrow> Some ([], Raise e)
         | Some (Inr buf) \<Rightarrow>
             Some (if alloc \<noteq> 0 then ([], Failed alloc)
                   else if sent \<noteq> 0 then ([Acq WsMsg, Do (WsSend buf), Rel WsMsg], Failed sent)
                   else ([Acq WsMsg, Do (WsSend buf), Move WsMsg], Made ()))))"

lemma ws_send_accounts: "rnng_ws_send valid alloc sent data = Some (es, r) \<Longrightarrow> owns es []"
  by (auto simp: rnng_ws_send_def owns_def split: option.splits sum.splits r_error.splits if_splits)

end
