(* ===== verification/Stdin.thy ===== *)
theory Stdin
  imports Chains Serial
begin

text \<open>
  Reading standard input in the background (\<open>nano_readline\<close>, \<open>nano_read_thread\<close> and
  \<open>rnng_read_stdin\<close> of \<^verbatim>\<open>thread.c\<close>): a thread reads lines into a growing buffer and sends each, as
  a C string, to the socket that R receives from.
\<close>

section \<open>Lines\<close>

text \<open>
  The loop over \<open>fgetc\<close>: \<open>sz\<close> is the capacity, \<open>buf\<close> what has been stored. The result is the buffer
  with its capacity, whether the end of the input was met, and the input that is left. A byte that
  has been read when the buffer cannot grow is lost.
\<close>

fun read_loop :: "(nat \<Rightarrow> bool) \<Rightarrow> nat \<Rightarrow> byte list \<Rightarrow> byte list \<Rightarrow> byte list \<times> nat \<times> bool \<times> byte list" where
  "read_loop realloc_ok sz buf [] = (buf, sz, True, [])"
| "read_loop realloc_ok sz buf (c # cs) =
     (let grow = length buf + 1 \<ge> sz; sz' = (if grow then sz + sz else sz) in
      if grow \<and> \<not> realloc_ok sz' then (buf, sz, False, cs)
      else if c = 10 then (buf @ [c], sz', False, cs)
      else read_loop realloc_ok sz' (buf @ [c]) cs)"

definition nano_readline :: "bool \<Rightarrow> (nat \<Rightarrow> bool) \<Rightarrow> byte list \<Rightarrow> byte list option \<times> byte list" where
  "nano_readline malloc_ok realloc_ok input =
     (if \<not> malloc_ok then (None, input)
      else
        (let (buf, sz, eof, rest) = read_loop realloc_ok NANONEXT_INIT_BUFSIZE [] input in
         if buf = [] \<and> eof then (None, rest) else (Some (buf @ [0]), rest)))"

lemma read_loop_rest: "read_loop ok sz buf input = (b, sz', eof, rest) \<Longrightarrow> length rest \<le> length input"
proof (induction input arbitrary: sz buf)
  case (Cons c cs)
  from Cons.prems show ?case
    by (auto simp: Let_def split: if_splits dest: Cons.IH intro: le_SucI)
qed simp

lemma read_loop_shrinks:
  "read_loop ok sz buf (c # cs) = (b, sz', eof, rest) \<Longrightarrow> length rest < length (c # cs)"
  by (auto simp: Let_def less_Suc_eq_le split: if_splits dest: read_loop_rest)

lemma nano_readline_shrinks:
  assumes "nano_readline m r input = (Some line, rest)"
  shows "length rest < length input"
proof (cases input)
  case Nil
  then show ?thesis
    using assms by (simp add: nano_readline_def split: if_splits)
next
  case (Cons c cs)
  obtain b sz eof rest' where l: "read_loop r NANONEXT_INIT_BUFSIZE [] (c # cs) = (b, sz, eof, rest')"
    by (metis prod_cases4)
  then have "rest' = rest"
    using assms Cons by (simp add: nano_readline_def del: read_loop.simps split: if_splits)
  then show ?thesis
    using read_loop_shrinks [OF l] Cons by simp
qed

text \<open>The bytes stored, with the terminator, are within the capacity.\<close>

lemma read_loop_bounds:
  "read_loop ok sz buf input = (b, sz', eof, rest) \<Longrightarrow> length buf < sz \<Longrightarrow> length b < sz'"
proof (induction input arbitrary: sz buf)
  case (Cons c cs)
  from Cons.prems show ?case
    by (auto simp: Let_def split: if_splits dest: Cons.IH)
qed simp

section \<open>The thread\<close>

text \<open>\<open>nng_send (sock, buf, strlen (buf) + 1, 0)\<close>\<close>

definition sent_line :: "byte list \<Rightarrow> byte list" where
  "sent_line buf = takeWhile (\<lambda>b. b \<noteq> 0) buf @ [0]"

text \<open>The loop, with the answers of \<open>malloc\<close> and of the sends; it ends because the input does.\<close>

function read_lines :: "(byte list \<Rightarrow> bool) \<Rightarrow> (nat \<Rightarrow> bool) \<Rightarrow> (byte list \<Rightarrow> int) \<Rightarrow> byte list \<Rightarrow> byte list list" where
  "read_lines malloc_ok realloc_ok sent input =
     (case nano_readline (malloc_ok input) realloc_ok input of
        (None, rest) \<Rightarrow> []
      | (Some buf, rest) \<Rightarrow>
          sent_line buf # (if sent buf \<noteq> 0 then [] else read_lines malloc_ok realloc_ok sent rest))"
  by pat_completeness auto
termination
  by (relation "measure (\<lambda>(_, _, _, input). length input)") (auto dest: nano_readline_shrinks [OF sym])

declare read_lines.simps [simp del]

text \<open>What a thread does that has its socket: \<open>fail\<close> is the result of opening and dialling it.\<close>

definition nano_read_thread :: "int \<Rightarrow> (byte list \<Rightarrow> bool) \<Rightarrow> (nat \<Rightarrow> bool) \<Rightarrow> (byte list \<Rightarrow> int) \<Rightarrow> byte list \<Rightarrow> byte list list" where
  "nano_read_thread opened malloc_ok realloc_ok sent input =
     (if opened \<noteq> 0 then [] else read_lines malloc_ok realloc_ok sent input)"

text \<open>A text is cut behind each newline.\<close>

fun lines :: "byte list \<Rightarrow> byte list \<Rightarrow> byte list list" where
  "lines acc [] = (if acc = [] then [] else [acc])"
| "lines acc (c # cs) = (if c = 10 then (acc @ [c]) # lines [] cs else lines (acc @ [c]) cs)"

lemma concat_lines: "concat (lines acc cs) = acc @ cs"
  by (induction acc cs rule: lines.induct) auto

lemma read_loop_lines:
  "read_loop (\<lambda>n. True) sz buf input = (b, sz', eof, rest) \<Longrightarrow>
     lines buf input = (if b = [] then [] else b # lines [] rest) \<and> (b = [] \<longrightarrow> eof)"
proof (induction input arbitrary: sz buf)
  case (Cons c cs)
  show ?case
  proof (cases "c = 10")
    case True
    then show ?thesis
      using Cons.prems by (auto simp: Let_def)
  next
    case False
    then obtain s where "read_loop (\<lambda>n. True) s (buf @ [c]) cs = (b, sz', eof, rest)"
      using Cons.prems by (auto simp: Let_def)
    from Cons.IH [OF this] False show ?thesis
      by simp
  qed
qed auto

lemma lines_nul_free: "0 \<notin> set acc \<Longrightarrow> 0 \<notin> set cs \<Longrightarrow> \<forall>l \<in> set (lines acc cs). 0 \<notin> set l"
  by (induction acc cs rule: lines.induct) auto

lemma read_lines_lines:
  "0 \<notin> set input \<Longrightarrow> read_lines (\<lambda>i. True) (\<lambda>n. True) (\<lambda>b. 0) input = map (\<lambda>l. l @ [0]) (lines [] input)"
proof (induction "length input" arbitrary: input rule: less_induct)
  case less
  obtain b sz eof rest where r: "read_loop (\<lambda>n. True) NANONEXT_INIT_BUFSIZE [] input = (b, sz, eof, rest)"
    by (metis prod_cases4)
  note l = read_loop_lines [OF r]
  show ?case
  proof (cases "b = []")
    case True
    then show ?thesis
      using l r by (simp add: read_lines.simps nano_readline_def)
  next
    case False
    then have "concat (lines [] input) = b @ rest"
      using l concat_lines [of "[]" rest] by simp
    then have input: "input = b @ rest"
      using concat_lines [of "[]" input] by simp
    have line: "nano_readline True (\<lambda>n. True) input = (Some (b @ [0]), rest)"
      using False r by (simp add: nano_readline_def)
    have "0 \<notin> set b" "0 \<notin> set rest"
      using less.prems input by auto
    have "takeWhile (\<lambda>b. b \<noteq> 0) (b @ [0]) = b"
      by (subst takeWhile_append2) (use \<open>0 \<notin> set b\<close> in auto)
    then have sent: "sent_line (b @ [0]) = b @ [0]"
      by (simp add: sent_line_def)
    have "length rest < length input"
      using nano_readline_shrinks [OF line] .
    from less.hyps [OF this \<open>0 \<notin> set rest\<close>] show ?thesis
      using False l line sent by (simp add: read_lines.simps [of "\<lambda>i. True" _ _ input])
  qed
qed

text \<open>
  C39: reading standard input loses and reorders nothing. As long as memory lasts and the sends
  succeed, an input without NUL bytes arrives as one message per line, each the line with its newline
  and a terminating NUL, and the lines put together are the input; and however the allocator behaves
  the line stays within its buffer.
\<close>

theorem stdin_roundtrip:
  assumes "0 \<notin> set input"
  shows "nano_read_thread 0 (\<lambda>i. True) (\<lambda>n. True) (\<lambda>b. 0) input = map (\<lambda>l. l @ [0]) (lines [] input)
    \<and> concat (map butlast (nano_read_thread 0 (\<lambda>i. True) (\<lambda>n. True) (\<lambda>b. 0) input)) = input
    \<and> (case read_loop ok NANONEXT_INIT_BUFSIZE [] t of (b, sz, _) \<Rightarrow> length (b @ [0]) \<le> sz)"
proof -
  have "concat (map butlast (map (\<lambda>l. l @ [0]) (lines [] input))) = input"
    by (simp add: comp_def concat_lines)
  moreover obtain b sz eof rest where r: "read_loop ok NANONEXT_INIT_BUFSIZE [] t = (b, sz, eof, rest)"
    by (metis prod_cases4)
  moreover have "length b < sz"
    using read_loop_bounds [OF r] by (simp add: NANONEXT_INIT_BUFSIZE_def)
  ultimately show ?thesis
    using read_lines_lines [OF assms] by (simp add: nano_read_thread_def)
qed

theorem stdin_roundtrip_witness:
  "concat (map butlast (nano_read_thread 0 (\<lambda>i. True) (\<lambda>n. True) (\<lambda>b. 0) [104, 105, 10, 120])) = [104, 105, 10, 120]"
  using stdin_roundtrip [of "[104, 105, 10, 120]"] by simp

section \<open>Opening\<close>

datatype stdin_obj = SockMem | ListenerMem | Socket | ReadThread

datatype stdin_call = PullOpen | ListenerCreate | ListenerStart | ThreadCreate | CloseSocket | RegisterFinalizers

text \<open>
  The two structures are owned by the R objects on success. A thread that cannot be created raises
  an error at once.
\<close>

definition rnng_read_stdin ::
  "bool \<Rightarrow> bool \<Rightarrow> bool \<Rightarrow> (stdin_call \<Rightarrow> int) \<Rightarrow> (stdin_obj, stdin_call) effect list \<times> unit entry" where
  "rnng_read_stdin interactive sock_ok lp_ok ans =
     (if interactive then ([], Raise ''can only be used in non-interactive sessions'')
      else if \<not> sock_ok then ([], Failed 2)
      else if \<not> lp_ok then ([Acq SockMem, Rel SockMem], Failed 2)
      else
        (let (es, xc) = chain_calls [(Acq Socket, ans PullOpen), (Do ListenerCreate, ans ListenerCreate),
                                     (Do ListenerStart, ans ListenerStart)];
             all = [Acq SockMem, Acq ListenerMem] @ es
         in if xc \<noteq> 0 then (all @ [Do CloseSocket] @ free_if es Socket @ [Rel ListenerMem, Rel SockMem], Failed xc)
            else if ans ThreadCreate \<noteq> 0 then (all @ [Do ThreadCreate], Failed (ans ThreadCreate))
            else (all @ [Do ThreadCreate, Acq ReadThread, Do RegisterFinalizers], Made ())))"

text \<open>Without its thread the socket and both structures are left behind.\<close>

lemma stdin_thread_leak:
  "let r = rnng_read_stdin False True True (\<lambda>c. if c = ThreadCreate then 2 else 0)
   in snd r = Failed 2 \<and> owns (fst r) [SockMem, ListenerMem, Socket]"
  by (simp add: rnng_read_stdin_def owns_def Let_def)

lemma stdin_accounts:
  assumes "interactive \<or> ans ThreadCreate = 0"
  shows "owns (fst (rnng_read_stdin interactive sock_ok lp_ok ans))
    (if snd (rnng_read_stdin interactive sock_ok lp_ok ans) = Made () then [SockMem, ListenerMem, Socket, ReadThread] else [])"
  using assms by (auto simp: rnng_read_stdin_def owns_def Let_def free_if_def)

end
