(* ===== verification/WaitThread.thy ===== *)
theory WaitThread
  imports Chains AioOps
begin

text \<open>
  The threads of \<^verbatim>\<open>thread.c\<close> that wait on R's behalf: the shared thread that waits for one aio at a
  time (\<open>rnng_wait_thread\<close>), its hand-shake with the function called from R
  (\<open>rnng_wait_thread_create\<close>), the thread for a single aio when the shared one is taken, and their
  shutdown. Every step is one section under the mutex, or one blocking call.
\<close>

section \<open>The hand-shake\<close>

text \<open>
  \<open>WTop\<close>: waiting for a condition other than 0; \<open>WRead\<close>: the mutex has been released, the shared aio
  not yet read; \<open>WAio a\<close>: in \<open>nng_aio_wait\<close>; \<open>WReset\<close>: about to hand back.
\<close>

datatype wait_pc = WTop | WRead | WAio nat | WReset | WExit

text \<open>R's thread: waiting for the shared thread, or for a single one, or for the thread to end.\<close>

datatype r_pc = RIdle | RShared nat | RSingle nat | RJoin

text \<open>\<open>finished\<close>: the aios that have completed; \<open>returned\<close>: those whose wait has returned to R.\<close>

record wait_state =
  nano_wait_condition :: int
  nano_shared_aio :: "nat option"
  wpc :: wait_pc
  rpc :: r_pc
  finished :: "nat list"
  returned :: "nat list"

definition wait0 :: wait_state where
  "wait0 = \<lparr>nano_wait_condition = 0, nano_shared_aio = None, wpc = WTop, rpc = RIdle, finished = [], returned = []\<rparr>"

text \<open>\<open>rnng_wait_thread_create\<close>: hand the aio over, or find out that the thread is busy with another.\<close>

definition wait_begin :: "nat \<Rightarrow> wait_state \<Rightarrow> wait_state" where
  "wait_begin a s =
     (if nano_wait_condition s = 0
      then s\<lparr>nano_shared_aio := Some a, nano_wait_condition := 1, rpc := RShared a\<rparr>
      else s\<lparr>rpc := (if nano_shared_aio s \<noteq> Some a then RSingle a else RShared a)\<rparr>)"

text \<open>A slice of 400 ms under the mutex: the condition is no longer 1, or R looks for interrupts.\<close>

definition wait_slice :: "bool \<Rightarrow> wait_state \<Rightarrow> wait_state" where
  "wait_slice interrupt s =
     (case rpc s of
        RShared a \<Rightarrow>
          if nano_wait_condition s \<noteq> 1 then s\<lparr>rpc := RIdle, returned := a # returned s\<rparr>
          else if interrupt then s\<lparr>rpc := RIdle\<rparr> else s
      | _ \<Rightarrow> s)"

text \<open>\<open>rnng_wait_thread\<close>; a step that has to wait changes nothing.\<close>

definition wait_thread_step :: "wait_state \<Rightarrow> wait_state" where
  "wait_thread_step s =
     (case wpc s of
        WTop \<Rightarrow>
          if nano_wait_condition s = 0 then s
          else if nano_wait_condition s = - 1 then s\<lparr>wpc := WExit\<rparr>
          else s\<lparr>wpc := WRead\<rparr>
      | WRead \<Rightarrow> (case nano_shared_aio s of Some a \<Rightarrow> s\<lparr>wpc := WAio a\<rparr> | None \<Rightarrow> s\<lparr>wpc := WReset\<rparr>)
      | WAio a \<Rightarrow> if a \<in> set (finished s) then s\<lparr>wpc := WReset\<rparr> else s
      | WReset \<Rightarrow> s\<lparr>nano_shared_aio := None, nano_wait_condition := 0, wpc := WTop\<rparr>
      | WExit \<Rightarrow> s)"

text \<open>The thread for a single aio: R returns when it has finished, or is interrupted.\<close>

definition single_slice :: "bool \<Rightarrow> wait_state \<Rightarrow> wait_state" where
  "single_slice interrupt s =
     (case rpc s of
        RSingle a \<Rightarrow>
          if a \<in> set (finished s) then s\<lparr>rpc := RIdle, returned := a # returned s\<rparr>
          else if interrupt then s\<lparr>rpc := RIdle\<rparr> else s
      | _ \<Rightarrow> s)"

definition aio_completes :: "nat \<Rightarrow> wait_state \<Rightarrow> wait_state" where
  "aio_completes a s = s\<lparr>finished := a # finished s\<rparr>"

text \<open>
  \<open>nano_thread_shutdown\<close>: \<open>nng_aio_stop\<close> completes the shared aio; then the condition is set under the
  mutex, and R waits for the thread to end. \<open>stop_read\<close> and \<open>stop_set\<close> are its two sections.
\<close>

definition stop_read :: "wait_state \<Rightarrow> wait_state" where
  "stop_read s = (case nano_shared_aio s of Some a \<Rightarrow> aio_completes a s | None \<Rightarrow> s)"

definition stop_set :: "wait_state \<Rightarrow> wait_state" where
  "stop_set s = s\<lparr>nano_wait_condition := - 1, rpc := RJoin\<rparr>"

inductive wstep :: "wait_state \<Rightarrow> wait_state \<Rightarrow> bool" where
  Begin: "rpc s = RIdle \<Longrightarrow> wstep s (wait_begin a s)"
| Slice: "wstep s (wait_slice interrupt s)"
| Single: "wstep s (single_slice interrupt s)"
| Thread: "wstep s (wait_thread_step s)"
| Complete: "wstep s (aio_completes a s)"

inductive_cases wstepE: "wstep s s'"

section \<open>A wait returns when its aio has finished\<close>

definition wait_inv :: "wait_state \<Rightarrow> bool" where
  "wait_inv s \<longleftrightarrow> set (returned s) \<subseteq> set (finished s) \<and> rpc s \<noteq> RJoin \<and> wpc s \<noteq> WExit
     \<and> (case wpc s of
          WTop \<Rightarrow> nano_wait_condition s = 0 \<and> nano_shared_aio s = None
            \<or> nano_wait_condition s = 1 \<and> nano_shared_aio s \<noteq> None
        | WRead \<Rightarrow> nano_wait_condition s = 1 \<and> nano_shared_aio s \<noteq> None
        | WAio a \<Rightarrow> nano_wait_condition s = 1 \<and> nano_shared_aio s = Some a
        | WReset \<Rightarrow> nano_wait_condition s = 1 \<and> (\<exists>a. nano_shared_aio s = Some a \<and> a \<in> set (finished s))
        | WExit \<Rightarrow> False)
     \<and> (case rpc s of
          RShared a \<Rightarrow> nano_shared_aio s = Some a \<or> nano_wait_condition s = 0 \<and> a \<in> set (finished s)
        | _ \<Rightarrow> True)"

lemma wait_inv_init: "wait_inv wait0"
  by (simp add: wait_inv_def wait0_def)

lemma wait_inv_begin: "wait_inv s \<Longrightarrow> rpc s = RIdle \<Longrightarrow> wait_inv (wait_begin a s)"
  by (cases "wpc s") (auto simp: wait_inv_def wait_begin_def)

lemma wait_inv_slice: "wait_inv s \<Longrightarrow> wait_inv (wait_slice b s)"
  by (cases "wpc s"; cases "rpc s") (auto simp: wait_inv_def wait_slice_def)

lemma wait_inv_single: "wait_inv s \<Longrightarrow> wait_inv (single_slice b s)"
  by (cases "wpc s"; cases "rpc s") (auto simp: wait_inv_def single_slice_def)

lemma wait_inv_thread: "wait_inv s \<Longrightarrow> wait_inv (wait_thread_step s)"
  by (cases "wpc s"; cases "rpc s") (auto simp: wait_inv_def wait_thread_step_def)

lemma wait_inv_completes: "wait_inv s \<Longrightarrow> wait_inv (aio_completes a s)"
  by (cases "wpc s"; cases "rpc s") (auto simp: wait_inv_def aio_completes_def)

lemma wait_inv_step: "wstep s s' \<Longrightarrow> wait_inv s \<Longrightarrow> wait_inv s'"
  by (erule wstepE)
    (simp_all add: wait_inv_begin wait_inv_slice wait_inv_single wait_inv_thread wait_inv_completes)

lemma wait_inv_reachable: "wstep\<^sup>*\<^sup>* wait0 s \<Longrightarrow> wait_inv s"
  by (induction rule: rtranclp_induct) (use wait_inv_init wait_inv_step in blast)+

text \<open>
  C31: waiting through the shared thread is sound and never gets lost. In every interleaving of R, the
  thread and completing aios, with waits that are interrupted and resumed, a wait that has returned
  has had its aio finish; and when the aio of a wait in progress has finished, four steps of the
  thread at most bring R's next look to return it.
\<close>

theorem wait_thread_correct:
  assumes "wstep\<^sup>*\<^sup>* wait0 s"
  shows "set (returned s) \<subseteq> set (finished s)
    \<and> (\<forall>a \<in> set (finished s). rpc s = RShared a \<longrightarrow>
        (\<exists>n \<le> 4. wait_slice False ((wait_thread_step ^^ n) s)
           = ((wait_thread_step ^^ n) s)\<lparr>rpc := RIdle, returned := a # returned s\<rparr>))"
proof -
  have inv: "wait_inv s"
    by (rule wait_inv_reachable [OF assms])
  have "\<exists>n \<le> 4. wait_slice False ((wait_thread_step ^^ n) s)
           = ((wait_thread_step ^^ n) s)\<lparr>rpc := RIdle, returned := a # returned s\<rparr>"
    if "a \<in> set (finished s)" "rpc s = RShared a" for a
  proof (cases "nano_wait_condition s = 0")
    case True
    then show ?thesis
      using that by (intro exI [of _ 0]) (simp add: wait_slice_def)
  next
    case False
    then have shared: "nano_shared_aio s = Some a" "nano_wait_condition s = 1"
      using inv that by (cases "wpc s"; auto simp: wait_inv_def)+
    note steps = numeral_eq_Suc wait_thread_step_def wait_slice_def
    show ?thesis
    proof (cases "wpc s")
      case WTop
      then show ?thesis
        using shared that by (intro exI [of _ 4]) (simp add: steps)
    next
      case WRead
      then show ?thesis
        using shared that by (intro exI [of _ 3]) (simp add: steps)
    next
      case (WAio b)
      then have "b = a"
        using inv shared by (simp add: wait_inv_def)
      then show ?thesis
        using WAio shared that by (intro exI [of _ 2]) (simp add: steps)
    next
      case WReset
      then show ?thesis
        using shared that by (intro exI [of _ 1]) (simp add: steps)
    next
      case WExit
      then show ?thesis
        using inv by (simp add: wait_inv_def)
    qed
  qed
  then show ?thesis
    using inv by (simp add: wait_inv_def)
qed

theorem wait_thread_correct_witness:
  "\<exists>n \<le> 4. wait_slice False ((wait_thread_step ^^ n) (aio_completes 7 (wait_begin 7 wait0)))
     = ((wait_thread_step ^^ n) (aio_completes 7 (wait_begin 7 wait0)))\<lparr>rpc := RIdle, returned := [7]\<rparr>"
proof -
  have "wstep wait0 (wait_begin 7 wait0)"
    by (rule wstep.Begin) (simp add: wait0_def)
  then have "wstep\<^sup>*\<^sup>* wait0 (aio_completes 7 (wait_begin 7 wait0))"
    by (meson converse_rtranclp_into_rtranclp r_into_rtranclp wstep.Complete)
  moreover have "7 \<in> set (finished (aio_completes 7 (wait_begin 7 wait0)))"
    "rpc (aio_completes 7 (wait_begin 7 wait0)) = RShared 7" "returned (aio_completes 7 (wait_begin 7 wait0)) = []"
    by (simp_all add: aio_completes_def wait_begin_def wait0_def)
  ultimately show ?thesis
    using wait_thread_correct [of "aio_completes 7 (wait_begin 7 wait0)"] by simp
qed

section \<open>Shutdown\<close>

text \<open>A thread that is idle is told to end, and does.\<close>

lemma shutdown_idle: "wpc s = WTop \<Longrightarrow> wpc (wait_thread_step (stop_set s)) = WExit"
  by (simp add: wait_thread_step_def stop_set_def)

text \<open>
  A thread that is waiting for an aio may overwrite the request: \<open>nng_aio_stop\<close> lets it run on, and
  if it takes the mutex behind \<open>nano_thread_shutdown\<close> it sets the condition back to 0 and waits for
  ever, and R with it in \<open>nng_thread_destroy\<close>.
\<close>

lemma shutdown_hangs:
  "let s = wait_thread_step (wait_thread_step (wait_begin 7 wait0));
       t = wait_thread_step (stop_set (wait_thread_step (stop_read s)))
   in wpc s = WAio 7 \<and> rpc t = RJoin \<and> wpc t = WTop \<and> nano_wait_condition t = 0 \<and> wait_thread_step t = t"
  by code_simp

section \<open>Starting the threads\<close>

datatype wt_obj = WtMtx nat | WtCv nat | WtThread | Taio | Ncv

text \<open>The static pointers; \<open>None\<close> is \<open>NULL\<close>. \<open>n\<close> names what this call allocates.\<close>

record wait_statics =
  nano_wait_mtx :: "nat option"
  nano_wait_cv :: "nat option"
  nano_wait_thr :: bool

definition free_opt :: "('a \<Rightarrow> 'o) \<Rightarrow> 'a option \<Rightarrow> ('o, 'e) effect list" where
  "free_opt f p = (case p of None \<Rightarrow> [] | Some x \<Rightarrow> [Rel (f x)])"

definition wait_init ::
  "nat \<Rightarrow> int \<Rightarrow> int \<Rightarrow> int \<Rightarrow> wait_statics \<Rightarrow> (wt_obj, unit) effect list \<times> int \<times> wait_statics" where
  "wait_init n mtx cv thr st =
     (if nano_wait_thr st then ([], 0, st)
      else
        (let (es, xc) = chain_calls [(Acq (WtMtx n), mtx), (Acq (WtCv n), cv), (Acq WtThread, thr)];
             st1 = (if mtx = 0 then st\<lparr>nano_wait_mtx := Some n\<rparr> else st);
             st2 = (if mtx = 0 \<and> cv = 0 then st1\<lparr>nano_wait_cv := Some n\<rparr> else st1)
         in if xc \<noteq> 0 then (es @ free_opt WtCv (nano_wait_cv st2) @ free_opt WtMtx (nano_wait_mtx st2), xc, st2)
            else (es, 0, st2\<lparr>nano_wait_thr := True\<rparr>)))"

definition no_statics :: wait_statics where
  "no_statics = \<lparr>nano_wait_mtx = None, nano_wait_cv = None, nano_wait_thr = False\<rparr>"

lemma wait_init_accounts:
  "owns (fst (wait_init n mtx cv thr no_statics))
     (if fst (snd (wait_init n mtx cv thr no_statics)) = 0 then [WtMtx n, WtCv n, WtThread] else [])"
  by (simp add: wait_init_def no_statics_def free_opt_def owns_def Let_def)

text \<open>The pointers are not cleared behind \<open>fail\<close>, so that a second failure frees them again.\<close>

lemma wait_init_frees_twice:
  "let (es, xc, st) = wait_init 0 0 0 2 no_statics; (es', xc', st') = wait_init 1 2 0 0 st
   in xc = 2 \<and> xc' = 2 \<and> owns es [] \<and> settle (es @ es') [] = None"
  by (simp add: wait_init_def no_statics_def free_opt_def owns_def Let_def)

text \<open>The thread for a single aio; the structures are owned by an R object that lives with the aio.\<close>

definition single_wait_thread_create ::
  "bool \<Rightarrow> bool \<Rightarrow> int \<Rightarrow> int \<Rightarrow> int \<Rightarrow> (wt_obj, unit) effect list \<times> unit entry" where
  "single_wait_thread_create taio_ok ncv_ok mtx cv thr =
     (if \<not> taio_ok then ([], Failed 2)
      else if \<not> ncv_ok then ([Acq Taio, Rel Taio], Failed 2)
      else
        (let (es, xc) = chain_calls [(Acq (WtMtx 0), mtx), (Acq (WtCv 0), cv), (Acq WtThread, thr)] in
         if xc \<noteq> 0
         then ([Acq Taio, Acq Ncv] @ es @ free_if es (WtCv 0) @ free_if es (WtMtx 0) @ [Rel Ncv, Rel Taio], Failed xc)
         else ([Acq Taio, Acq Ncv] @ es, Made ())))"

text \<open>\<open>thread_aio_finalizer\<close>, which ends the thread by stopping its aio.\<close>

definition thread_aio_finalizer :: "(wt_obj, unit) effect list" where
  "thread_aio_finalizer = [Rel WtThread, Rel (WtCv 0), Rel (WtMtx 0), Rel Ncv, Rel Taio]"

lemma single_wait_accounts:
  "owns (fst (single_wait_thread_create taio_ok ncv_ok mtx cv thr)
       @ (if snd (single_wait_thread_create taio_ok ncv_ok mtx cv thr) = Made () then thread_aio_finalizer else [])) []"
  by (simp add: single_wait_thread_create_def thread_aio_finalizer_def owns_def free_if_def Let_def)

section \<open>What is waited for\<close>

text \<open>An aio, a list of whatever, or something else, which is not waited for.\<close>

datatype waitable = WaitAio nat | WaitList "waitable list" | WaitOther

fun waits_for :: "waitable \<Rightarrow> nat list" where
  "waits_for (WaitAio a) = [a]"
| "waits_for (WaitList xs) = concat (map waits_for xs)"
| "waits_for WaitOther = []"

datatype resolver = GetMsg | GetResult | HttpStatus

text \<open>How the value is brought in when the wait is over; other types are left alone.\<close>

definition wait_resolves :: "nano_aio_typ \<Rightarrow> resolver option" where
  "wait_resolves typ =
     (case typ of
        RECVAIO \<Rightarrow> Some GetMsg | REQAIO \<Rightarrow> Some GetMsg | IOV_RECVAIO \<Rightarrow> Some GetMsg
      | RECVAIOS \<Rightarrow> Some GetMsg | REQAIOS \<Rightarrow> Some GetMsg | IOV_RECVAIOS \<Rightarrow> Some GetMsg
      | SENDAIO \<Rightarrow> Some GetResult | IOV_SENDAIO \<Rightarrow> Some GetResult
      | HTTP_AIO \<Rightarrow> Some HttpStatus)"

end
