(* ===== verification/Forwarder.thy ===== *)
theory Forwarder
  imports Cv
begin

text \<open>
  Signal forwarding (\<open>rnng_signal_thread\<close>, \<open>rnng_signal_thread_create\<close> and \<open>thread_duo_finalizer\<close> of
  \<^verbatim>\<open>thread.c\<close>): a thread that adds to a second condition variable what it sees change in a first.
\<close>

section \<open>The thread\<close>

text \<open>
  \<open>FLook\<close>: waiting on the first variable for a value other than \<open>cond\<close>; \<open>FAdd i\<close>: about to add \<open>i\<close>
  to the second; \<open>FEnd\<close>: the thread has returned.
\<close>

datatype forward_pc = FLook | FAdd int | FEnd

text \<open>
  \<open>cond1\<close> and \<open>cond2\<close> are the conditions of the two variables, \<open>cond\<close> the thread's own record.
  \<open>own2\<close> counts what others do to the second variable: its signals less its waits; \<open>stopping\<close> is set
  once the finalizer waits for the thread.
\<close>

record forward_state =
  cond1 :: int
  cond2 :: int
  cond :: int
  fpc :: forward_pc
  own2 :: int
  stopping :: bool

text \<open>\<open>rnng_signal_thread_create\<close> resets the first variable before it starts the thread.\<close>

definition forward0 :: "int \<Rightarrow> forward_state" where
  "forward0 c2 = \<lparr>cond1 = 0, cond2 = c2, cond = 0, fpc = FLook, own2 = c2, stopping = False\<rparr>"

definition rnng_signal_thread :: "forward_state \<Rightarrow> forward_state" where
  "rnng_signal_thread s =
     (case fpc s of
        FLook \<Rightarrow>
          if cond1 s = cond s then s
          else if cond1 s < 0 then s\<lparr>cond1 := cond s, fpc := FEnd\<rparr>
          else (let incr = cond1 s - cond s in s\<lparr>cond := cond s + incr, fpc := FAdd incr\<rparr>)
      | FAdd incr \<Rightarrow> s\<lparr>cond2 := cond2 s + incr, fpc := FLook\<rparr>
      | FEnd \<Rightarrow> s)"

text \<open>The finalizer's section under the mutex; R then waits for the thread.\<close>

definition thread_duo_finalizer :: "forward_state \<Rightarrow> forward_state" where
  "thread_duo_finalizer s = s\<lparr>cond1 := - 1, stopping := True\<rparr>"

text \<open>
  Signals come from R and from pipe events; R's waits and resets do not happen while R waits for the
  thread. A wait takes one off a condition that is not 0.
\<close>

inductive fstep :: "forward_state \<Rightarrow> forward_state \<Rightarrow> bool" where
  Look: "fstep s (rnng_signal_thread s)"
| Signal1: "fstep s (s\<lparr>cond1 := cond1 s + 1\<rparr>)"
| Signal2: "fstep s (s\<lparr>cond2 := cond2 s + 1, own2 := own2 s + 1\<rparr>)"
| Wait1: "\<not> stopping s \<Longrightarrow> cond1 s \<noteq> 0 \<Longrightarrow> fstep s (s\<lparr>cond1 := cond1 s - 1\<rparr>)"
| Wait2: "\<not> stopping s \<Longrightarrow> cond2 s \<noteq> 0 \<Longrightarrow> fstep s (s\<lparr>cond2 := cond2 s - 1, own2 := own2 s - 1\<rparr>)"
| Reset1: "\<not> stopping s \<Longrightarrow> fstep s (s\<lparr>cond1 := 0\<rparr>)"
| Stop: "\<not> stopping s \<Longrightarrow> fstep s (thread_duo_finalizer s)"

inductive_cases fstepE: "fstep s s'"

definition pending_incr :: "forward_state \<Rightarrow> int" where
  "pending_incr s = (case fpc s of FAdd i \<Rightarrow> i | _ \<Rightarrow> 0)"

definition forward_inv :: "forward_state \<Rightarrow> bool" where
  "forward_inv s \<longleftrightarrow> cond2 s + pending_incr s = own2 s + cond s \<and> 0 \<le> cond s"

lemma forward_inv_step: "fstep s s' \<Longrightarrow> forward_inv s \<Longrightarrow> forward_inv s'"
  by (erule fstepE; cases "fpc s")
    (auto simp: forward_inv_def pending_incr_def rnng_signal_thread_def thread_duo_finalizer_def Let_def)

lemma forward_reachable:
  assumes "fstep\<^sup>*\<^sup>* (forward0 c) s"
  shows "forward_inv s"
  using assms
  by (induction rule: rtranclp_induct)
    (auto simp: forward0_def forward_inv_def [of "forward0 c", unfolded forward0_def] pending_incr_def
      intro: forward_inv_step)



section \<open>Where changes hurt\<close>

text \<open>
  A wait on the first variable is a change like any other. After two signals that have been waited for
  on both variables, a third signal on the first is forwarded as \<open>- 1\<close>: the second variable becomes
  negative, and waits on it return at once from then on.
\<close>

lemma signal_forwarded_negative:
  "let look = rnng_signal_thread; s0 = forward0 0;
       s1 = look (look (s0\<lparr>cond1 := 2\<rparr>));
       s2 = s1\<lparr>cond1 := 0, cond2 := 0\<rparr>;
       s3 = look (look (s2\<lparr>cond1 := cond1 s2 + 1\<rparr>))
   in cond2 s1 = 2 \<and> cond2 s3 = - 1"
  by code_simp

text \<open>
  The finalizer's \<open>- 1\<close> is a value that a signal changes: a pipe event before the thread looks makes it
  0, the thread goes on waiting, and R with it in \<open>nng_thread_destroy\<close>.
\<close>

lemma stop_lost:
  "let s = thread_duo_finalizer (forward0 0); t = s\<lparr>cond1 := cond1 s + 1\<rparr>
   in stopping t \<and> fpc t = FLook \<and> rnng_signal_thread t = t"
  by (simp add: thread_duo_finalizer_def forward0_def rnng_signal_thread_def Let_def)

text \<open>Without such a signal the thread ends within two steps, and leaves what it had seen.\<close>

lemma stop_ends:
  assumes "0 \<le> cond s" "fpc s \<noteq> FEnd"
  shows "\<exists>n \<le> 2. fpc ((rnng_signal_thread ^^ n) (thread_duo_finalizer s)) = FEnd
    \<and> cond1 ((rnng_signal_thread ^^ n) (thread_duo_finalizer s)) = cond s"
proof (cases "fpc s")
  case FLook
  then show ?thesis
    using assms(1) by (intro exI [of _ 1]) (simp add: rnng_signal_thread_def thread_duo_finalizer_def)
next
  case (FAdd i)
  then show ?thesis
    using assms(1) by (intro exI [of _ 2]) (simp add: numeral_eq_Suc rnng_signal_thread_def thread_duo_finalizer_def)
qed (use assms in simp)

section \<open>Creation\<close>

datatype duo_obj = Duo nat | DuoThread nat

datatype duo_call = EndThread nat | ResetCondition | SetThread "nat option"

text \<open>
  \<open>existing\<close> is the forwarder of an earlier call, which is ended and freed first; the new one is \<open>n\<close>.
\<close>

definition rnng_signal_thread_create ::
  "bool \<Rightarrow> bool \<Rightarrow> bool \<Rightarrow> int \<Rightarrow> nat \<Rightarrow> nat option \<Rightarrow> (duo_obj, duo_call) effect list \<times> unit entry" where
  "rnng_signal_thread_create cv_valid cv2_valid malloc_ok thr n existing =
     (if \<not> cv_valid then ([], Raise ''`cv` is not a valid Condition Variable'')
      else if \<not> cv2_valid then ([], Raise ''`cv2` is not a valid Condition Variable'')
      else if \<not> malloc_ok then ([], Failed 2)
      else
        (let old = (case existing of None \<Rightarrow> [] | Some m \<Rightarrow> [Do (EndThread m), Rel (DuoThread m), Rel (Duo m)]);
             es = [Acq (Duo n)] @ old @ [Do ResetCondition]
         in if thr \<noteq> 0 then (es @ [Rel (Duo n), Do (SetThread None)], Failed thr)
            else (es @ [Acq (DuoThread n), Do (SetThread (Some n))], Made ())))"

text \<open>One forwarder at a time: what was there is freed, what is there is owned by the variable.\<close>

lemma forwarder_accounts:
  assumes "existing \<noteq> Some n" "malloc_ok" "cv_valid" "cv2_valid"
  shows "settle (fst (rnng_signal_thread_create cv_valid cv2_valid malloc_ok thr n existing))
      (case existing of None \<Rightarrow> [] | Some m \<Rightarrow> [DuoThread m, Duo m])
    = Some (if thr = 0 then [DuoThread n, Duo n] else [])"
  using assms by (cases existing) (auto simp: rnng_signal_thread_create_def)

end
