(* ===== verification/Endpoint.thy ===== *)
theory Endpoint
  imports Chains Codec
begin

text \<open>
  Contexts, dialers and listeners of sockets (\<^verbatim>\<open>comms.c\<close>): what they own on every failing path, what
  is recorded on the socket, the three ways to report a failure, and the address with the port that
  a listener was given (\<open>nano_url_with_port\<close> of \<^verbatim>\<open>core.c\<close>).
\<close>

section \<open>Failure\<close>

text \<open>
  A value; an error value; an error value with a warning; an R error with the code; an R error with
  a message.
\<close>

datatype 'a answer = Given 'a | ErrorValue int | Warned int | Condition int | Refused string

definition nano_fail_mode :: "mode_arg \<Rightarrow> r_error + i32" where
  "nano_fail_mode mode =
     (case mode of
        ModeInt i \<Rightarrow> Inr i
      | ModeStr md \<Rightarrow>
          (let slen = length md; bad = Inl (RError ''`fail` should be one of: warn, error, none'') in
           if slen = 4 then (if md = ''warn'' then Inr 1 else if md = ''none'' then Inr 3 else bad)
           else if slen = 5 then (if md = ''error'' then Inr 2 else bad)
           else bad))"

definition fail_reply :: "i32 \<Rightarrow> int \<Rightarrow> 'a answer" where
  "fail_reply failmode xc =
     (if failmode = 2 then Condition xc else if failmode = 3 then ErrorValue xc else Warned xc)"

section \<open>Addresses\<close>

record nng_url =
  u_scheme :: string
  u_hostname :: string
  u_port :: "string option"
  u_path :: "string option"
  u_query :: "string option"
  u_fragment :: "string option"

text \<open>One \<open>snprintf (p, r, ...)\<close> of the chain, which moves \<open>p\<close> on and takes from \<open>r\<close>.\<close>

definition put_text :: "string \<Rightarrow> string \<times> nat \<Rightarrow> string \<times> nat" where
  "put_text s st = (fst st @ fst (snprintf (snd st) s), snd st - length s)"

text \<open>An optional part that is written behind a mark unless it is empty.\<close>

definition marked :: "char \<Rightarrow> string option \<Rightarrow> string" where
  "marked c p = (case p of None \<Rightarrow> [] | Some s \<Rightarrow> if s = [] then [] else c # s)"

definition url_len :: "nng_url \<Rightarrow> nat \<Rightarrow> nat" where
  "url_len up port_len =
     length (u_scheme up) + 3 + length (u_hostname up) + (if CHR '':'' \<in> set (u_hostname up) then 2 else 0)
       + 1 + port_len + (case u_path up of None \<Rightarrow> 0 | Some s \<Rightarrow> length s)
       + length (marked (CHR ''?'') (u_query up)) + length (marked (CHR ''#'') (u_fragment up))"

definition nano_url_with_port :: "nng_url \<Rightarrow> int \<Rightarrow> string" where
  "nano_url_with_port up port =
     (let (port_s, port_len) = snprintf 8 (fmt_d port);
          ipv6 = CHR '':'' \<in> set (u_hostname up);
          st0 = ([], url_len up port_len + 1);
          st1 = put_text (u_scheme up @ ''://'') st0;
          st2 = put_text (if ipv6 then ''['' @ u_hostname up @ '']'' else u_hostname up) st1;
          st3 = put_text ('':'' @ port_s) st2;
          st4 = (case u_path up of None \<Rightarrow> st3 | Some s \<Rightarrow> put_text s st3);
          st5 = (case u_query up of None \<Rightarrow> st4 | Some s \<Rightarrow> if s = [] then st4 else put_text (''?'' @ s) st4);
          st6 = (case u_fragment up of None \<Rightarrow> st5 | Some s \<Rightarrow> if s = [] then st5 else put_text (''#'' @ s) st5)
      in fst st6)"

text \<open>The text of an address.\<close>

definition url_text :: "nng_url \<Rightarrow> string" where
  "url_text up =
     u_scheme up @ ''://''
       @ (if CHR '':'' \<in> set (u_hostname up) then ''['' @ u_hostname up @ '']'' else u_hostname up)
       @ (case u_port up of None \<Rightarrow> [] | Some p \<Rightarrow> '':'' @ p)
       @ (case u_path up of None \<Rightarrow> [] | Some s \<Rightarrow> s)
       @ marked (CHR ''?'') (u_query up) @ marked (CHR ''#'') (u_fragment up)"

lemma put_text_fits: "length s < r \<Longrightarrow> put_text s (out, r) = (out @ s, r - length s)"
  by (simp add: put_text_def snprintf_def)

text \<open>The buffer is exactly long enough, so nothing is cut off; a port has at most five digits.\<close>

lemma url_with_port_text:
  assumes "0 \<le> port" "port < 65536"
  shows "nano_url_with_port up port = url_text (up\<lparr>u_port := Some (fmt_d port)\<rparr>)"
proof -
  have "length (fmt_d port) \<le> 7"
    using assms dec_digits_bound [of 7 "nat port"] by (simp add: fmt_d_def)
  then have "snprintf 8 (fmt_d port) = (fmt_d port, length (fmt_d port))"
    by (simp add: snprintf_def)
  then show ?thesis
    by (cases "u_path up"; cases "u_query up"; cases "u_fragment up"; cases "CHR '':'' \<in> set (u_hostname up)")
      (simp_all add: nano_url_with_port_def url_text_def url_len_def marked_def put_text_fits)
qed

section \<open>State\<close>

text \<open>
  The attributes of a dialer or listener, and the lists kept on the socket, which keep the R objects
  alive as long as the socket.
\<close>

datatype end_status = NotStarted | Started | Closed

record endpoint =
  ep_url :: string
  ep_status :: end_status
  ep_tls :: bool

datatype end_obj = EndMem | Endpoint | UrlMem | TlsHold | CtxMem | Ctx

datatype end_call =
    DialerCreate | ListenerCreate | Dial bool | Listen | UrlParse | ServerName string | SetTls
  | DialerStart bool | ListenerStart | EndClose | OpenCtx | CloseCtx | BoundPort

type_synonym end_effects = "(end_obj, end_call) effect list"

definition start_status :: "int \<Rightarrow> end_status" where
  "start_status start = (if start \<noteq> 0 then Started else NotStarted)"

section \<open>Dialing\<close>

text \<open>
  With a TLS configuration; \<open>host\<close> is the host name of the parsed address. A server name that is
  refused because the configuration is in use is tolerated.
\<close>

definition tls_dial :: "(end_call \<Rightarrow> int) \<Rightarrow> string \<Rightarrow> int \<Rightarrow> end_effects \<times> int" where
  "tls_dial ans host start =
     (let (es, xc) = chain_calls (acquire ans DialerCreate Endpoint @ acquire ans UrlParse UrlMem) in
      if xc \<noteq> 0 then (es @ free_if es UrlMem, xc)
      else
        (let name = ans (ServerName host);
             (fs, xc) = chain_calls ((Do (ServerName host), if name = NNG_EBUSY then 0 else name) # ask ans SetTls)
         in if xc \<noteq> 0 then (es @ fs @ free_if es UrlMem, xc)
            else
              (let (gs, xc) = chain_calls (if start \<noteq> 0 then ask ans (DialerStart (start = 1)) else [])
               in (es @ fs @ [Rel UrlMem] @ gs @ (if xc \<noteq> 0 then [] else [Acq TlsHold]), xc))))"

definition plain_dial :: "(end_call \<Rightarrow> int) \<Rightarrow> int \<Rightarrow> end_effects \<times> int" where
  "plain_dial ans start =
     chain_calls (acquire ans (if start \<noteq> 0 then Dial (start = 1) else DialerCreate) Endpoint)"

text \<open>\<open>tls\<close>: no configuration, or one and whether it is valid.\<close>

definition rnng_dial ::
  "bool \<Rightarrow> string \<Rightarrow> bool option \<Rightarrow> int \<Rightarrow> mode_arg \<Rightarrow> bool \<Rightarrow> (end_call \<Rightarrow> int) \<Rightarrow> string \<Rightarrow>
     endpoint list \<Rightarrow> end_effects \<times> unit answer \<times> endpoint list" where
  "rnng_dial sock_ok url tls start fail malloc_ok ans host attr =
     (if \<not> sock_ok then ([], Refused ''`socket` is not a valid Socket'', attr)
      else if tls = Some False then ([], Refused ''`tls` is not a valid TLS Configuration'', attr)
      else (case nano_fail_mode fail of
          Inl (RError e) \<Rightarrow> ([], Refused e, attr)
        | Inr failmode \<Rightarrow>
            (if \<not> malloc_ok then ([], fail_reply failmode 2, attr)
             else
               (let (es, xc) = (if tls \<noteq> None then tls_dial ans host start else plain_dial ans start) in
                if xc \<noteq> 0 then ([Acq EndMem] @ es @ [Rel EndMem], fail_reply failmode xc, attr)
                else ([Acq EndMem] @ es, Given (),
                      attr @ [\<lparr>ep_url = url, ep_status = start_status start, ep_tls = tls \<noteq> None\<rparr>])))))"

section \<open>Listening\<close>

definition listener_calls :: "(end_call \<Rightarrow> int) \<Rightarrow> bool \<Rightarrow> int \<Rightarrow> end_effects \<times> int" where
  "listener_calls ans sec start =
     (if sec
      then (let (es, xc) = chain_calls (acquire ans ListenerCreate Endpoint @ ask ans SetTls
                                          @ (if start \<noteq> 0 then ask ans ListenerStart else []))
            in (es @ (if xc \<noteq> 0 then [] else [Acq TlsHold]), xc))
      else chain_calls (acquire ans (if start \<noteq> 0 then Listen else ListenerCreate) Endpoint))"

text \<open>
  The address recorded: a port 0 is replaced by the port that was bound. \<open>parse\<close> is \<open>nng_url_parse\<close>,
  \<open>bound\<close> the answer of \<open>nng_listener_get_int\<close>.
\<close>

definition bound_url :: "(string \<Rightarrow> nng_url option) \<Rightarrow> int option \<Rightarrow> string \<Rightarrow> end_effects \<times> string" where
  "bound_url parse bound url =
     (case parse url of
        None \<Rightarrow> ([], url)
      | Some up \<Rightarrow>
          ([Acq UrlMem] @ (if u_port up = Some ''0'' then [Do BoundPort] else []) @ [Rel UrlMem],
           if u_port up = Some ''0''
           then (case bound of None \<Rightarrow> url | Some port \<Rightarrow> nano_url_with_port up port) else url))"

definition rnng_listen ::
  "bool \<Rightarrow> string \<Rightarrow> bool option \<Rightarrow> int \<Rightarrow> mode_arg \<Rightarrow> bool \<Rightarrow> (end_call \<Rightarrow> int) \<Rightarrow> (string \<Rightarrow> nng_url option) \<Rightarrow>
     int option \<Rightarrow> endpoint list \<Rightarrow> end_effects \<times> unit answer \<times> endpoint list" where
  "rnng_listen sock_ok url tls start fail malloc_ok ans parse bound attr =
     (if \<not> sock_ok then ([], Refused ''`socket` is not a valid Socket'', attr)
      else if tls = Some False then ([], Refused ''`tls` is not a valid TLS Configuration'', attr)
      else (case nano_fail_mode fail of
          Inl (RError e) \<Rightarrow> ([], Refused e, attr)
        | Inr failmode \<Rightarrow>
            (if \<not> malloc_ok then ([], fail_reply failmode 2, attr)
             else
               (let (es, xc) = listener_calls ans (tls \<noteq> None) start in
                if xc \<noteq> 0 then ([Acq EndMem] @ es @ [Rel EndMem], fail_reply failmode xc, attr)
                else
                  (let (us, url') = (if start \<noteq> 0 then bound_url parse bound url else ([], url))
                   in ([Acq EndMem] @ es @ us, Given (),
                       attr @ [\<lparr>ep_url = url', ep_status = start_status start, ep_tls = tls \<noteq> None\<rparr>]))))))"

section \<open>Starting and closing\<close>

definition rnng_dialer_start :: "bool \<Rightarrow> int \<Rightarrow> (end_call \<Rightarrow> int) \<Rightarrow> endpoint \<Rightarrow> end_effects \<times> unit answer \<times> endpoint" where
  "rnng_dialer_start valid async ans ep =
     (if \<not> valid then ([], Refused ''`dialer` is not a valid Dialer'', ep)
      else
        (let c = DialerStart (async = 1) in
         if ans c \<noteq> 0 then ([Do c], Warned (ans c), ep) else ([Do c], Given (), ep\<lparr>ep_status := Started\<rparr>)))"

definition rnng_listener_start ::
  "bool \<Rightarrow> (end_call \<Rightarrow> int) \<Rightarrow> (string \<Rightarrow> nng_url option) \<Rightarrow> int option \<Rightarrow> endpoint \<Rightarrow>
     end_effects \<times> unit answer \<times> endpoint" where
  "rnng_listener_start valid ans parse bound ep =
     (if \<not> valid then ([], Refused ''`listener` is not a valid Listener'', ep)
      else if ans ListenerStart \<noteq> 0 then ([Do ListenerStart], Warned (ans ListenerStart), ep)
      else
        (let (us, url) = bound_url parse bound (ep_url ep)
         in ([Do ListenerStart] @ us, Given (), ep\<lparr>ep_url := url, ep_status := Started\<rparr>)))"

text \<open>\<open>rnng_dialer_close\<close> and \<open>rnng_listener_close\<close> differ in the message only.\<close>

definition rnng_end_close :: "string \<Rightarrow> bool \<Rightarrow> (end_call \<Rightarrow> int) \<Rightarrow> endpoint \<Rightarrow> end_effects \<times> unit answer \<times> endpoint" where
  "rnng_end_close msg valid ans ep =
     (if \<not> valid then ([], Refused msg, ep)
      else if ans EndClose \<noteq> 0 then ([Do EndClose], Warned (ans EndClose), ep)
      else ([Do EndClose], Given (), ep\<lparr>ep_status := Closed\<rparr>))"

definition rnng_dialer_close :: "bool \<Rightarrow> (end_call \<Rightarrow> int) \<Rightarrow> endpoint \<Rightarrow> end_effects \<times> unit answer \<times> endpoint" where
  "rnng_dialer_close = rnng_end_close ''`dialer` is not a valid Dialer''"

definition rnng_listener_close :: "bool \<Rightarrow> (end_call \<Rightarrow> int) \<Rightarrow> endpoint \<Rightarrow> end_effects \<times> unit answer \<times> endpoint" where
  "rnng_listener_close = rnng_end_close ''`listener` is not a valid Listener''"

text \<open>\<open>dialer_finalizer\<close> and \<open>listener_finalizer\<close>, and that of the configuration they hold.\<close>

definition end_finalizer :: "bool \<Rightarrow> end_effects" where
  "end_finalizer tls = [Do EndClose, Rel Endpoint, Rel EndMem] @ (if tls then [Rel TlsHold] else [])"

section \<open>Contexts\<close>

definition rnng_ctx_open :: "bool \<Rightarrow> bool \<Rightarrow> (end_call \<Rightarrow> int) \<Rightarrow> end_effects \<times> unit answer" where
  "rnng_ctx_open sock_ok malloc_ok ans =
     (if \<not> sock_ok then ([], Refused ''`socket` is not a valid Socket'')
      else if \<not> malloc_ok then ([], Condition 2)
      else
        (let (es, xc) = chain_calls (acquire ans OpenCtx Ctx) in
         if xc \<noteq> 0 then ([Acq CtxMem] @ es @ [Rel CtxMem], Condition xc) else ([Acq CtxMem] @ es, Given ())))"

text \<open>\<open>rnng_ctx_create\<close> sets no attributes, and differs in nothing else.\<close>

definition rnng_ctx_create :: "bool \<Rightarrow> bool \<Rightarrow> (end_call \<Rightarrow> int) \<Rightarrow> end_effects \<times> unit answer" where
  "rnng_ctx_create sock_ok malloc_ok ans =
     (if \<not> sock_ok then ([], Refused ''`socket` is not a valid Socket'')
      else if \<not> malloc_ok then ([], Condition 2)
      else
        (let (es, xc) = chain_calls (acquire ans OpenCtx Ctx) in
         if xc \<noteq> 0 then ([Acq CtxMem] @ es @ [Rel CtxMem], Condition xc) else ([Acq CtxMem] @ es, Given ())))"

text \<open>\<open>rnng_ctx_close\<close> closes the context and leaves the structure to the finalizer.\<close>

definition rnng_ctx_close :: "bool \<Rightarrow> (end_call \<Rightarrow> int) \<Rightarrow> end_status \<Rightarrow> end_effects \<times> unit answer \<times> end_status" where
  "rnng_ctx_close valid ans st =
     (if \<not> valid then ([], Refused ''`context` is not a valid Context'', st)
      else if ans CloseCtx \<noteq> 0 then ([Do CloseCtx], Warned (ans CloseCtx), st)
      else ([Do CloseCtx], Given (), Closed))"

definition context_finalizer :: end_effects where
  "context_finalizer = [Do CloseCtx, Rel Ctx, Rel CtxMem]"

section \<open>Accounts\<close>

text \<open>
  What an endpoint function may leave behind when it fails: the dialer or listener itself, which NNG
  then keeps until its socket is closed.
\<close>

definition stranded :: "end_effects \<Rightarrow> end_obj list" where
  "stranded es = (if Acq Endpoint \<in> set es then [Endpoint] else [])"

lemmas chain_steps = acquire_def ask_def free_if_def owns_def stranded_def end_finalizer_def Let_def

lemma tls_dial_accounts:
  assumes "tls_dial ans host start = (es, xc)"
  shows "if xc = 0 then owns ([Acq EndMem] @ es) [EndMem, Endpoint, TlsHold]
      \<and> owns ([Acq EndMem] @ es @ end_finalizer True) []
    else owns ([Acq EndMem] @ es @ [Rel EndMem]) (stranded es)"
  using assms by (auto simp: tls_dial_def chain_steps split: if_splits)

lemma plain_dial_accounts:
  assumes "plain_dial ans start = (es, xc)"
  shows "if xc = 0 then owns ([Acq EndMem] @ es) [EndMem, Endpoint] \<and> owns ([Acq EndMem] @ es @ end_finalizer False) []
    else owns ([Acq EndMem] @ es @ [Rel EndMem]) [] \<and> stranded es = []"
  using assms by (auto simp: plain_dial_def chain_steps split: if_splits)

lemma listener_calls_accounts:
  assumes "listener_calls ans sec start = (es, xc)"
  shows "if xc = 0 then owns ([Acq EndMem] @ es) ([EndMem, Endpoint] @ (if sec then [TlsHold] else []))
      \<and> owns ([Acq EndMem] @ es @ end_finalizer sec) []
    else owns ([Acq EndMem] @ es @ [Rel EndMem]) (stranded es) \<and> (\<not> sec \<longrightarrow> stranded es = [])"
  using assms by (auto simp: listener_calls_def chain_steps split: if_splits)

lemma bound_url_balanced: "settle (fst (bound_url parse bound url)) live = Some live"
  by (auto simp: bound_url_def split: option.splits)

lemma owns_bound_url:
  assumes "owns es xs"
  shows "owns (es @ fst (bound_url parse bound url)) xs"
  using assms by (auto simp: owns_def bound_url_balanced split: option.splits bind_splits)

lemma dial_accounts:
  assumes "rnng_dial sock_ok url tls start fail malloc_ok ans host attr = (es, r, attr')"
  shows "if r = Given ()
    then attr' = attr @ [\<lparr>ep_url = url, ep_status = start_status start, ep_tls = tls \<noteq> None\<rparr>]
      \<and> owns es ([EndMem, Endpoint] @ (if tls \<noteq> None then [TlsHold] else []))
      \<and> owns (es @ end_finalizer (tls \<noteq> None)) []
    else attr' = attr \<and> owns es (if tls = None then [] else stranded es)"
proof (cases "sock_ok \<and> tls \<noteq> Some False \<and> malloc_ok \<and> (\<exists>fm. nano_fail_mode fail = Inr fm)")
  case True
  then obtain fm where fm: "nano_fail_mode fail = Inr fm"
    by blast
  show ?thesis
  proof (cases tls)
    case None
    obtain cs xc where c: "plain_dial ans start = (cs, xc)"
      by fastforce
    then show ?thesis
      using plain_dial_accounts [OF c] assms True fm None
      by (auto simp: rnng_dial_def fail_reply_def split: if_splits)
  next
    case (Some v)
    obtain cs xc where c: "tls_dial ans host start = (cs, xc)"
      by fastforce
    then show ?thesis
      using tls_dial_accounts [OF c] assms True fm Some
      by (auto simp: rnng_dial_def fail_reply_def stranded_def split: if_splits)
  qed
next
  case False
  then show ?thesis
    using assms
    by (auto simp: rnng_dial_def fail_reply_def stranded_def owns_def split: if_splits sum.splits r_error.splits)
qed

lemma listen_accounts:
  assumes "rnng_listen sock_ok url tls start fail malloc_ok ans parse bound attr = (es, r, attr')"
  shows "if r = Given ()
    then attr' = attr @ [\<lparr>ep_url = (if start \<noteq> 0 then snd (bound_url parse bound url) else url),
        ep_status = start_status start, ep_tls = tls \<noteq> None\<rparr>]
      \<and> owns es ([EndMem, Endpoint] @ (if tls \<noteq> None then [TlsHold] else []))
    else attr' = attr \<and> owns es (if tls = None then [] else stranded es)"
proof (cases "sock_ok \<and> tls \<noteq> Some False \<and> malloc_ok \<and> (\<exists>fm. nano_fail_mode fail = Inr fm)")
  case True
  then obtain fm where fm: "nano_fail_mode fail = Inr fm"
    by blast
  obtain cs xc where c: "listener_calls ans (tls \<noteq> None) start = (cs, xc)"
    by fastforce
  obtain us url' where u: "bound_url parse bound url = (us, url')"
    by fastforce
  have own: "owns (Acq EndMem # cs) xs \<Longrightarrow> owns (Acq EndMem # cs @ us) xs" for xs
    using owns_bound_url [of "Acq EndMem # cs" xs parse bound url] u by simp
  show ?thesis
    using listener_calls_accounts [OF c] assms True fm c u own
    by (cases "xc = 0"; cases "start = 0") (auto simp: rnng_listen_def fail_reply_def stranded_def split: if_splits)
next
  case False
  then show ?thesis
    using assms
    by (auto simp: rnng_listen_def fail_reply_def stranded_def owns_def split: if_splits sum.splits r_error.splits)
qed

text \<open>
  Dialing and listening keep their accounts. Whatever the arguments and whichever call fails: on
  success the new endpoint, with its address and status, is appended to those of the socket, and what
  is owned is exactly its structure, the endpoint and a hold on its TLS configuration, which its
  finalizers release; on failure the list of the socket is unchanged and nothing is left, except that
  with a TLS configuration the dialer or listener itself stays on the socket.
\<close>

theorem endpoints_account:
  "(case rnng_dial sock_ok url tls start fail malloc_ok ans host attr of (es, r, attr') \<Rightarrow>
      if r = Given ()
      then attr' = attr @ [\<lparr>ep_url = url, ep_status = start_status start, ep_tls = tls \<noteq> None\<rparr>]
        \<and> owns es ([EndMem, Endpoint] @ (if tls \<noteq> None then [TlsHold] else []))
        \<and> owns (es @ end_finalizer (tls \<noteq> None)) []
      else attr' = attr \<and> owns es (if tls = None then [] else stranded es))
   \<and> (case rnng_listen sock_ok url tls start fail malloc_ok ans parse bound attr of (es, r, attr') \<Rightarrow>
      if r = Given ()
      then attr' = attr @ [\<lparr>ep_url = (if start \<noteq> 0 then snd (bound_url parse bound url) else url),
          ep_status = start_status start, ep_tls = tls \<noteq> None\<rparr>]
        \<and> owns es ([EndMem, Endpoint] @ (if tls \<noteq> None then [TlsHold] else []))
      else attr' = attr \<and> owns es (if tls = None then [] else stranded es))"
proof -
  obtain es r attr' where d: "rnng_dial sock_ok url tls start fail malloc_ok ans host attr = (es, r, attr')"
    by (rule prod_cases3)
  obtain fs q attr2 where l: "rnng_listen sock_ok url tls start fail malloc_ok ans parse bound attr = (fs, q, attr2)"
    by (rule prod_cases3)
  show ?thesis
    using dial_accounts [OF d] listen_accounts [OF l] unfolding d l by simp
qed

text \<open>
  The endpoint that stays: a TLS dialer whose address cannot be started is not closed, although the
  structure with its id is freed, so that it can no longer be closed from R.
\<close>

lemma tls_dialer_stranded:
  "let (es, r, attr) = rnng_dial True ''tls+tcp://h:1'' (Some True) 2 (ModeInt 3) True
         (\<lambda>c. if c = DialerStart False then 6 else 0) ''h'' []
   in r = ErrorValue 6 \<and> attr = [] \<and> owns es [Endpoint]"
  by (simp add: rnng_dial_def tls_dial_def nano_fail_mode_def fail_reply_def chain_steps)

text \<open>
  A listener on port 0 records the port it was given. When a listener is started, at once or later,
  and its address has port 0, the address recorded is the same with the port that was bound, in full,
  whatever the length of its parts; an IPv6 host is put in brackets again.
\<close>

theorem listen_records_port:
  assumes "parse url = Some up" "u_port up = Some ''0''" "0 \<le> port" "port < 65536"
    and "start \<noteq> 0" "rnng_listen sock_ok url tls start fail malloc_ok ans parse (Some port) attr = (es, Given (), attr')"
    and "ep_url ep = url" "rnng_listener_start valid ans parse (Some port) ep = (fs, Given (), ep')"
  shows "ep_url (last attr') = url_text (up\<lparr>u_port := Some (fmt_d port)\<rparr>)
    \<and> ep' = ep\<lparr>ep_url := url_text (up\<lparr>u_port := Some (fmt_d port)\<rparr>), ep_status := Started\<rparr>"
proof -
  have url: "snd (bound_url parse (Some port) url) = url_text (up\<lparr>u_port := Some (fmt_d port)\<rparr>)"
    using assms(1,2) by (simp add: bound_url_def url_with_port_text [OF assms(3,4)])
  show ?thesis
    using listen_accounts [OF assms(6)] assms(5,7,8) url
    by (auto simp: rnng_listener_start_def split: if_splits prod.splits)
qed

theorem listen_records_port_witness:
  "ep_url (last (snd (snd (rnng_listen True ''tcp://[::1]:0'' None 1 (ModeStr ''warn'') True (\<lambda>c. 0)
     (\<lambda>s. Some \<lparr>u_scheme = ''tcp'', u_hostname = ''::1'', u_port = Some ''0'', u_path = None, u_query = None,
       u_fragment = None\<rparr>) (Some 5555) [])))) = ''tcp://[::1]:5555''"
proof -
  let ?up = "\<lparr>u_scheme = ''tcp'', u_hostname = ''::1'', u_port = Some ''0'', u_path = None, u_query = None, u_fragment = None\<rparr>"
  let ?ep = "\<lparr>ep_url = ''tcp://[::1]:0'', ep_status = NotStarted, ep_tls = False\<rparr>"
  let ?r = "rnng_listen True ''tcp://[::1]:0'' None 1 (ModeStr ''warn'') True (\<lambda>c. 0) (\<lambda>s. Some ?up) (Some 5555) []"
  let ?s = "rnng_listener_start True (\<lambda>c. 0) (\<lambda>s. Some ?up) (Some 5555) ?ep"
  have "fst (snd ?r) = Given ()" "fst (snd ?s) = Given ()"
    by (simp_all add: rnng_listen_def listener_calls_def bound_url_def nano_fail_mode_def acquire_def rnng_listener_start_def)
  then have l: "?r = (fst ?r, Given (), snd (snd ?r))" and s: "?s = (fst ?s, Given (), snd (snd ?s))"
    by (metis prod.collapse)+
  have "ep_url (last (snd (snd ?r))) = url_text (?up\<lparr>u_port := Some (fmt_d 5555)\<rparr>)"
    by (rule conjunct1 [OF listen_records_port [OF _ _ _ _ _ l _ s]]) simp_all
  moreover have "fmt_d 5555 = ''5555''"
    by (simp add: fmt_d_def dec_digits.simps char_of_def bit_0)
  then have "url_text (?up\<lparr>u_port := Some (fmt_d 5555)\<rparr>) = ''tcp://[::1]:5555''"
    by (simp add: url_text_def marked_def)
  ultimately show ?thesis
    by simp
qed

section \<open>Contexts\<close>

text \<open>A context leaves nothing behind, and its finalizer frees both parts once, closed before or not.\<close>

lemma context_accounts:
  "owns (fst (rnng_ctx_open sock_ok malloc_ok ans)
       @ (if snd (rnng_ctx_open sock_ok malloc_ok ans) = Given () then fst (rnng_ctx_close True ans st) @ context_finalizer else [])) []
   \<and> rnng_ctx_create sock_ok malloc_ok ans = rnng_ctx_open sock_ok malloc_ok ans"
  by (auto simp: rnng_ctx_open_def rnng_ctx_create_def rnng_ctx_close_def context_finalizer_def chain_steps)

end
