(* ===== verification/SendRecv.thy ===== *)
theory SendRecv
  imports AioLife
begin

text \<open>
  Sends and receives that R waits for (\<open>rnng_send\<close> and \<open>rnng_recv\<close> of \<^verbatim>\<open>comms.c\<close>), over the parts and
  calls of the asynchronous ones. \<open>SendMsg sock nonblock\<close> and \<open>RecvMsg sock nonblock\<close> are the
  synchronous calls of NNG, \<open>AioWait\<close> is \<open>nng_aio_wait\<close>; a message taken back from an aio is acquired
  again.
\<close>

section \<open>The argument \<open>block\<close>\<close>

text \<open>\<open>NULL\<close>; a logical (\<open>NA\<close> is the least integer); a number of milliseconds.\<close>

datatype block_arg = BlockNull | BlockLgl int | BlockInt int

definition block_flags :: "block_arg \<Rightarrow> int" where
  "block_flags block = (case block of BlockNull \<Rightarrow> NNG_DURATION_DEFAULT | BlockLgl _ \<Rightarrow> 0 | BlockInt i \<Rightarrow> i)"

text \<open>\<open>NANO_INTEGER (block)\<close>, looked at when the flags are 0.\<close>

definition block_value :: "block_arg \<Rightarrow> int" where
  "block_value block = (case block of BlockNull \<Rightarrow> 0 | BlockLgl b \<Rightarrow> b | BlockInt i \<Rightarrow> i)"

definition nonblock :: "block_arg \<Rightarrow> bool" where
  "nonblock block = (block_flags block \<noteq> 0 \<or> block_value block \<noteq> 1)"

definition stream_timeout :: "block_arg \<Rightarrow> int" where
  "stream_timeout block =
     (if block_flags block \<noteq> 0 then block_flags block
      else (if block_value block \<noteq> 0 then NNG_DURATION_DEFAULT else 0))"

section \<open>Sending\<close>

text \<open>\<open>sent\<close> is the result of the send, synchronous or through its aio.\<close>

definition result_of :: "int \<Rightarrow> 'a \<Rightarrow> 'a entry" where
  "result_of xc v = (if xc \<noteq> 0 then Failed xc else Made v)"

definition send_msg_sync ::
  "(nng_chunk \<Rightarrow> byte list \<Rightarrow> nng_chunk) \<Rightarrow> answers \<Rightarrow> bool \<Rightarrow> nat \<Rightarrow> nano_buf \<Rightarrow> block_arg \<Rightarrow> i32 \<Rightarrow> int \<Rightarrow>
     aio_effects \<times> unit entry" where
  "send_msg_sync nng_msg_append an sock headroom buf block pipe sent =
     (let pipeid = (if sock then pipe else 0); flags = block_flags block in
      if an_msg an \<noteq> 0 then (buf_held buf @ NANO_FREE buf, Failed (an_msg an))
      else
        (let (msg, buf') = nano_msg_set_body nng_msg_append empty_msg buf headroom;
             es = buf_held buf @ [Acq Msg]
               @ (if nb_len buf \<noteq> nb_len buf' then [Move Buf] else [])
               @ [Do (MsgBody (chunk_body msg))]
               @ (if pipeid \<noteq> 0 then [Do (MsgPipe pipeid)] else [])
         in if flags \<le> 0 then
              (es @ [Do (SendMsg sock (nonblock block)), if sent \<noteq> 0 then Rel Msg else Move Msg] @ NANO_FREE buf',
               result_of sent ())
            else if an_aio an \<noteq> 0 then (es @ [Rel Msg] @ NANO_FREE buf', Failed (an_aio an))
            else
              (es @ [Acq NngAio, Move Msg, Do (Timeout flags), Do (if sock then SockSend else CtxSend)]
                 @ NANO_FREE buf' @ [Do AioWait] @ (if sent \<noteq> 0 then [Acq Msg, Rel Msg] else []) @ [Rel NngAio],
               result_of sent ())))"

definition send_stream_sync :: "answers \<Rightarrow> nano_stream \<Rightarrow> nano_buf \<Rightarrow> block_arg \<Rightarrow> int \<Rightarrow> aio_effects \<times> unit entry" where
  "send_stream_sync an nst buf block sent =
     (if an_aio an \<noteq> 0 then (buf_held buf @ NANO_FREE buf, Failed (an_aio an))
      else if msgmode nst then
        (if an_msg an \<noteq> 0 then (buf_held buf @ [Acq NngAio, Rel NngAio] @ NANO_FREE buf, Failed (an_msg an))
         else
           (buf_held buf @ [Acq NngAio, Acq Msg] @ copy_body (frame_len buf nst) buf
              @ [Move Msg, Do (Timeout (stream_timeout block)), Do StreamSend] @ NANO_FREE buf
              @ [Do AioWait] @ (if sent \<noteq> 0 then [Acq Msg, Rel Msg] else []) @ [Rel NngAio],
            result_of sent ()))
      else if an_iov an \<noteq> 0 then (buf_held buf @ [Acq NngAio, Rel NngAio] @ NANO_FREE buf, Failed (an_iov an))
      else
        (buf_held buf @ [Acq NngAio, Do (Iov (encoded buf) (frame_len buf nst)),
           Do (Timeout (stream_timeout block)), Do StreamSend] @ NANO_FREE buf @ [Do AioWait, Rel NngAio],
         result_of sent ()))"

definition rnng_send ::
  "(nng_chunk \<Rightarrow> byte list \<Rightarrow> nng_chunk) \<Rightarrow> (r_error + nano_buf) \<Rightarrow> answers \<Rightarrow> connection \<Rightarrow> sexp \<Rightarrow>
     mode_arg \<Rightarrow> block_arg \<Rightarrow> i32 \<Rightarrow> int \<Rightarrow> aio_effects \<times> unit entry" where
  "rnng_send nng_msg_append ser an con data md block pipe sent =
     (case nano_encode_mode md of
        Inl (RError e) \<Rightarrow> ([], Raise e)
      | Inr raw \<Rightarrow>
          (if con = SocketCon \<or> con = ContextCon then
             (case (if raw \<noteq> 0 then nano_encode (an_buf an) data else ser) of
                Inl (RError e) \<Rightarrow> ([], Raise e)
              | Inr buf \<Rightarrow>
                  send_msg_sync nng_msg_append an (con = SocketCon) (if raw \<noteq> 0 then 0 else NANO_HEADROOM) buf
                    block pipe sent)
           else (case con of
               StreamCon nst \<Rightarrow>
                 (case nano_encode (an_buf an) data of
                    Inl (RError e) \<Rightarrow> ([], Raise e)
                  | Inr buf \<Rightarrow> send_stream_sync an nst buf block sent)
             | _ \<Rightarrow> ([], Raise ''`con` is not a valid Socket, Context or Stream''))))"

section \<open>Receiving\<close>

text \<open>\<open>got\<close> is the result of the receive, \<open>body\<close> the message or the bytes counted.\<close>

definition recv_msg_sync ::
  "(nat \<Rightarrow> byte list \<Rightarrow> decoded) \<Rightarrow> answers \<Rightarrow> bool \<Rightarrow> byte \<Rightarrow> block_arg \<Rightarrow> int \<Rightarrow> byte list \<Rightarrow>
     aio_effects \<times> decoded entry" where
  "recv_msg_sync unser an sock md block got body =
     (let flags = block_flags block in
      if flags \<le> 0 then
        (if got \<noteq> 0 then ([Do (RecvMsg sock (nonblock block))], Failed got)
         else ([Do (RecvMsg sock (nonblock block)), Acq Msg, Rel Msg], Made (nano_decode unser body md)))
      else if an_aio an \<noteq> 0 then ([], Failed (an_aio an))
      else
        (let es = [Acq NngAio, Do (Timeout flags), Do (if sock then SockRecv else CtxRecv), Do AioWait] in
         if got \<noteq> 0 then (es @ [Rel NngAio], Failed got)
         else (es @ [Acq Msg, Rel NngAio, Rel Msg], Made (nano_decode unser body md))))"

definition recv_stream_sync ::
  "(nat \<Rightarrow> byte list \<Rightarrow> decoded) \<Rightarrow> answers \<Rightarrow> nano_stream \<Rightarrow> byte \<Rightarrow> block_arg \<Rightarrow> int \<Rightarrow> byte list \<Rightarrow>
     aio_effects \<times> decoded entry" where
  "recv_stream_sync unser an nst mod0 block got body =
     (let md = (if mod0 = 1 then 2 else mod0);
          wait = [Do (Timeout (stream_timeout block)), Do StreamRecv, Do AioWait]
      in if an_aio an \<noteq> 0 then ([], Failed (an_aio an))
         else if msgmode nst then
           (if got \<noteq> 0 then ([Acq NngAio] @ wait @ [Rel NngAio], Failed got)
            else ([Acq NngAio] @ wait @ [Acq Msg, Rel NngAio, Rel Msg], Made (nano_decode unser body md)))
         else if \<not> an_malloc an then ([Acq NngAio], Failed 2)
         else if an_iov an \<noteq> 0 then ([Acq NngAio, Acq Data, Rel NngAio, Rel Data], Failed (an_iov an))
         else
           (let es = [Acq NngAio, Acq Data, Do (Iov [] (of_nat (bufsize nst)))] @ wait @ [Rel NngAio, Rel Data] in
            if got \<noteq> 0 then (es, Failed got)
            else (es, Made (nano_decode unser (take (bufsize nst) body) md))))"

definition rnng_recv ::
  "(nat \<Rightarrow> byte list \<Rightarrow> decoded) \<Rightarrow> answers \<Rightarrow> connection \<Rightarrow> mode_arg \<Rightarrow> block_arg \<Rightarrow> int \<Rightarrow> byte list \<Rightarrow>
     aio_effects \<times> decoded entry" where
  "rnng_recv unser an con md block got body =
     (case con of
        BadCon \<Rightarrow> ([], Raise ''`con` is not a valid Socket, Context or Stream'')
      | _ \<Rightarrow>
          (case nano_matcharg md of
             Inl (RError e) \<Rightarrow> ([], Raise e)
           | Inr mod' \<Rightarrow>
               (case con of
                  StreamCon nst \<Rightarrow> recv_stream_sync unser an nst mod' block got body
                | _ \<Rightarrow> recv_msg_sync unser an (con = SocketCon) mod' block got body)))"

section \<open>Accounts\<close>

lemmas buffer_steps = buf_held_def NANO_FREE_def owns_def Let_def

lemma owns_send_msg_sync: "owns (fst (send_msg_sync app an sock headroom buf block pipe sent)) []"
  by (auto simp: send_msg_sync_def nano_msg_set_body_def buffer_steps)

lemma owns_send_stream_sync: "owns (fst (send_stream_sync an nst buf block sent)) []"
  by (auto simp: send_stream_sync_def copy_body_def buffer_steps)

lemma owns_send_sync: "owns (fst (rnng_send app ser an con data md block pipe sent)) []"
  using owns_send_msg_sync owns_send_stream_sync
  by (auto simp: rnng_send_def owns_def [of "[]"] split: sum.splits r_error.splits connection.splits)

lemma owns_recv_msg_sync: "owns (fst (recv_msg_sync unser an sock md block got body)) []"
  by (auto simp: recv_msg_sync_def buffer_steps)

lemma owns_recv_stream_sync:
  "an_malloc an \<or> msgmode nst \<or> an_aio an \<noteq> 0 \<Longrightarrow> owns (fst (recv_stream_sync unser an nst md block got body)) []"
  by (auto simp: recv_stream_sync_def buffer_steps)

text \<open>
  Sending and receiving leave nothing behind. Whatever the connection, data, mode and timeout,
  and whichever call fails, a send that R waits for has freed or given away its buffer, message and
  aio exactly once when it returns, and so has a receive, as long as the buffer of a stream can be
  allocated.
\<close>

theorem transfers_account:
  "owns (fst (rnng_send app ser an con data md block pipe sent)) []
   \<and> (an_malloc an \<longrightarrow> owns (fst (rnng_recv unser an con md block got body)) [])"
  using owns_send_sync owns_recv_msg_sync owns_recv_stream_sync [of an]
  by (auto simp: rnng_recv_def owns_def [of "[]"] split: sum.splits r_error.splits connection.splits)

theorem transfers_account_witness:
  "owns (fst (rnng_recv (\<lambda>_ _. (NilSXP, True))
     \<lparr>an_buf = True, an_calloc = True, an_malloc = True, an_msg = 0, an_aio = 0, an_iov = 3\<rparr>
     (StreamCon \<lparr>bufsize = 8, textframes = 0, msgmode = False\<rparr>) (ModeInt 8) BlockNull 0 [1])) []"
  using transfers_account
    [of _ _ "\<lparr>an_buf = True, an_calloc = True, an_malloc = True, an_msg = 0, an_aio = 0, an_iov = 3\<rparr>"] by simp

text \<open>A receive buffer that cannot be allocated leaves the aio behind.\<close>

lemma recv_leaks_aio:
  "fst (rnng_recv unser \<lparr>an_buf = True, an_calloc = True, an_malloc = False, an_msg = 0, an_aio = 0, an_iov = 0\<rparr>
     (StreamCon \<lparr>bufsize = 8, textframes = 0, msgmode = False\<rparr>) (ModeInt 8) block got body) = [Acq NngAio]"
  by (simp add: rnng_recv_def recv_stream_sync_def nano_matcharg_def)

text \<open>
  A byte stream is given the buffer itself, which is freed as soon as the write has been started, not
  when it is over. Only vectors that are encoded in place are safe; a character vector that is not of
  length 1 is encoded into a buffer.
\<close>

definition freed_in_flight :: "aio_effects \<Rightarrow> bool" where
  "freed_in_flight es \<longleftrightarrow> Do AioWait \<in> set es \<and> Rel Buf \<in> set (takeWhile (\<lambda>e. e \<noteq> Do AioWait) es)
     \<and> (\<exists>b n. Do (Iov b n) \<in> set es)"

lemma stream_send_dangles:
  "freed_in_flight (fst (rnng_send app ser
     \<lparr>an_buf = True, an_calloc = True, an_malloc = True, an_msg = 0, an_aio = 0, an_iov = 0\<rparr>
     (StreamCon \<lparr>bufsize = 8, textframes = 0, msgmode = False\<rparr>) (StrSXP [[97], [98]]) (ModeInt 2) BlockNull 0 0))"
  by (simp add: freed_in_flight_def rnng_send_def send_stream_sync_def nano_encode_mode_def nano_encode_def
      buffer_steps)

lemma in_place_is_safe:
  assumes "\<And>buf. nano_encode (an_buf an) data = Inr buf \<Longrightarrow> nb_len buf = 0"
  shows "\<not> freed_in_flight (fst (rnng_send app ser an (StreamCon nst) data md block pipe sent))"
  using assms
  by (auto simp: freed_in_flight_def rnng_send_def send_stream_sync_def buffer_steps copy_body_def
      split: sum.splits r_error.splits if_splits)

section \<open>What is sent\<close>

definition handed :: "aio_effects \<Rightarrow> aio_call list" where
  "handed es = filter (\<lambda>c. case c of MsgBody _ \<Rightarrow> True | MsgPipe _ \<Rightarrow> True | Iov _ _ \<Rightarrow> True | Overrun \<Rightarrow> True | _ \<Rightarrow> False) (calls_of es)"

lemma handed_msg:
  assumes "send_msg_sync app an sock headroom buf block pipe sent = (es, Made ())"
    "send_message app an sock headroom buf dur pipe = (fs, Made c)"
  shows "handed es = handed fs"
  using assms
  by (auto simp: send_msg_sync_def send_message_def handed_def nano_msg_set_body_def empty_msg_def
      result_of_def buf_held_def NANO_FREE_def Let_def split: if_splits)

lemma handed_stream:
  assumes "send_stream_sync an nst buf block sent = (es, Made ())" "send_stream an nst buf dur = (fs, Made c)"
  shows "handed es = handed fs"
  using assms
  by (auto simp: send_stream_sync_def send_stream_def handed_def copy_body_def result_of_def buf_held_def
      NANO_FREE_def Let_def split: if_splits)

text \<open>
  C29: a send that R waits for puts the same on the wire as one that it does not. When both are carried
  out, on a socket, context or stream, in either mode, with or without timeout, the bytes given to NNG
  and the pipe they are addressed to are the same.
\<close>

theorem sends_agree:
  assumes "rnng_send app ser an con data md block pipe sent = (es, Made ())"
    "rnng_send_aio app ser an con data md timeout pipe = (fs, Made c)"
  shows "handed es = handed fs"
proof (cases con)
  case (StreamCon nst)
  then show ?thesis
    using assms handed_stream
    by (fastforce simp: rnng_send_def rnng_send_aio_def Let_def split: sum.splits r_error.splits)
next
  case BadCon
  then show ?thesis
    using assms by (simp add: rnng_send_def split: sum.splits r_error.splits)
qed (use assms handed_msg in \<open>fastforce simp: rnng_send_def rnng_send_aio_def Let_def split: sum.splits r_error.splits if_splits\<close>)+

definition all_well :: answers where
  "all_well = \<lparr>an_buf = True, an_calloc = True, an_malloc = True, an_msg = 0, an_aio = 0, an_iov = 0\<rparr>"

theorem sends_agree_witness:
  "handed (fst (rnng_send (\<lambda>m b. m) (Inl (RError [])) all_well SocketCon (StrSXP [[97], [98]]) (ModeInt 2) (BlockLgl 1) 9 0))
     = [MsgBody [97, 0, 98, 0], MsgPipe 9]"
proof -
  let ?r = "rnng_send (\<lambda>m b. m) (Inl (RError [])) all_well SocketCon (StrSXP [[97], [98]]) (ModeInt 2) (BlockLgl 1) 9 0"
  let ?s = "rnng_send_aio (\<lambda>m b. m) (Inl (RError [])) all_well SocketCon (StrSXP [[97], [98]]) (ModeInt 2) None 9"
  note defs = rnng_send_def rnng_send_aio_def send_msg_sync_def send_message_def all_well_def nano_encode_mode_def
    nano_encode_def nano_msg_set_body_def buffer_steps chunk_body_def result_of_def handed_def
  have "snd ?r = Made ()"
    by (simp add: defs)
  moreover obtain fs c where "?s = (fs, Made c)" and fs: "handed fs = [MsgBody [97, 0, 98, 0], MsgPipe 9]"
    by (simp add: defs)
  ultimately show ?thesis
    using sends_agree [of "\<lambda>m b. m" "Inl (RError [])" all_well SocketCon "StrSXP [[97], [98]]" "ModeInt 2" "BlockLgl 1" 9 0
        "fst ?r" None fs c] by (metis prod.collapse)
qed

text \<open>
  A vector sent and received in blocking calls arrives. If a raw send through a socket or context
  succeeded and a receive in the mode of the vector's type was given the message that the sender
  handed to NNG, its value is exactly the vector; a failed receive has no value.
\<close>

theorem sync_vector_received:
  assumes "r_valid v" "wire_mode v = Some m" "con = SocketCon \<or> con = ContextCon" "appends app"
    and "rnng_send app ser an con v (ModeStr ''raw'') block pipe 0 = (es, Made ())"
    and "MsgBody body \<in> set (calls_of es)" "con' = SocketCon \<or> con' = ContextCon" "an_aio an' = 0"
    and "nano_matcharg md = Inr m"
  shows "snd (rnng_recv unser an' con' md block' got body) = (if got = 0 then Made (v, False) else Failed got)"
proof -
  have "nano_encode_mode (ModeStr ''raw'') = Inr 1"
    by (simp add: nano_encode_mode_def)
  then obtain buf where b: "nano_encode (an_buf an) v = Inr buf"
    and s: "send_msg_sync app an (con = SocketCon) 0 buf block pipe 0 = (es, Made ())"
    using assms(3,5) by (auto simp: rnng_send_def split: sum.splits r_error.splits)
  have "body = chunk_body (fst (nano_msg_set_body app empty_msg buf 0))"
    using s assms(6)
    by (auto simp: send_msg_sync_def buf_held_def NANO_FREE_def result_of_def Let_def case_prod_beta split: if_splits)
  then have "nano_decode unser body m = (v, False)"
    using decode_of_encode [OF assms(1,2) b] set_body_raw [OF assms(4)] by simp
  then show ?thesis
    using assms(7,8,9) by (auto simp: rnng_recv_def recv_msg_sync_def Let_def)
qed

theorem sync_vector_received_witness:
  "snd (rnng_recv (\<lambda>_ _. (NilSXP, True)) all_well ContextCon (ModeStr ''character'') (BlockInt 500) 0 [97, 0, 98, 0])
     = Made (StrSXP [[97], [98]], False)"
proof -
  let ?app = "\<lambda>m bs. \<lparr>ch_cap = 0, ch_len = length (chunk_body m @ bs), ch_buf = chunk_body m @ bs, ch_ptr = 0\<rparr>"
  have a: "appends ?app"
    by (auto simp: appends_def chunk_body_def min_def)
  have v: "r_valid (StrSXP [[97], [98]])"
    by (simp add: nul_free_def)
  obtain es where s: "rnng_send ?app (Inl (RError [])) all_well SocketCon (StrSXP [[97], [98]]) (ModeStr ''raw'') (BlockLgl 1) 0 0
      = (es, Made ())" and m: "MsgBody [97, 0, 98, 0] \<in> set (calls_of es)"
    by (simp add: rnng_send_def send_msg_sync_def all_well_def nano_encode_mode_def nano_encode_def
        nano_msg_set_body_def buffer_steps chunk_body_def result_of_def block_flags_def)
  show ?thesis
    using sync_vector_received [OF v _ _ a s m, of 2 ContextCon all_well "ModeStr ''character''" "\<lambda>_ _. (NilSXP, True)"
        "BlockInt 500" 0]
    by (simp add: all_well_def nano_matcharg_def)
qed

end
