(* ===== verification/Proto.thy ===== *)
theory Proto
  imports Endpoint "HOL-Library.Sublist"
begin

text \<open>
  Opening and closing of sockets and byte streams (\<^verbatim>\<open>proto.c\<close>): the choice of a protocol by
  abbreviated name, \<open>rnng_protocol_open\<close> with the dialer and listener it starts, and the streams with
  their WebSocket and TLS settings.
\<close>

section \<open>Protocols\<close>

text \<open>\<open>memcmp (pro, name, slen) == 0\<close>, where \<open>slen\<close> is the length of \<open>pro\<close>.\<close>

definition same :: "string \<Rightarrow> string \<Rightarrow> bool" where
  "same pro name = (pro = take (length pro) name)"

text \<open>The switch over the length, with the cases that fall through.\<close>

definition protocol_match :: "string \<Rightarrow> string option" where
  "protocol_match pro =
     (let slen = length pro;
          case_10 = (if slen > 2 \<and> same pro ''respondent'' then Some ''respondent'' else None);
          case_8 = (if slen > 2 \<and> same pro ''surveyor'' then Some ''surveyor'' else case_10);
          case_4 =
            (if slen > 1 then
               if same pro ''pair'' then Some ''pair''
               else if same pro ''poly'' then Some ''poly''
               else if slen > 2 then
                 if same pro ''push'' then Some ''push''
                 else if same pro ''pull'' then Some ''pull''
                 else case_8
               else case_8
             else case_8);
          case_3 =
            (if same pro ''bus'' then Some ''bus''
             else if slen > 2 then
               if same pro ''pub'' then Some ''pub''
               else if same pro ''sub'' then Some ''sub''
               else if same pro ''req'' then Some ''req''
               else if same pro ''rep'' then Some ''rep''
               else case_4
             else case_4)
      in if slen = 0 then None
         else if slen \<le> 3 then case_3
         else if slen = 4 then case_4
         else if slen \<le> 8 then case_8
         else if slen \<le> 10 then case_10
         else None)"

definition protocols :: "string list" where
  "protocols = [''bus'', ''pair'', ''poly'', ''push'', ''pull'', ''pub'', ''sub'', ''req'', ''rep'', ''surveyor'', ''respondent'']"

lemma same_prefix: "same pro name \<longleftrightarrow> prefix pro name"
  unfolding same_def by (metis append_eq_conv_conj prefix_def take_is_prefix)

lemma protocol_match_abbrev:
  "\<forall>pro \<in> set (concat (map prefixes protocols)).
     protocol_match pro = (case filter (prefix pro) protocols of [p] \<Rightarrow> Some p | _ \<Rightarrow> None)"
  by code_simp

text \<open>
  C34: a protocol may be abbreviated as long as it is unambiguous. The nested switch over length and
  bytes accepts exactly the strings that are a prefix of a single protocol name, and gives that name.
\<close>

theorem protocol_is_unique_prefix:
  "protocol_match pro = (case filter (prefix pro) protocols of [p] \<Rightarrow> Some p | _ \<Rightarrow> None)"
proof (cases "\<exists>p \<in> set protocols. prefix pro p")
  case True
  then have "pro \<in> set (concat (map prefixes protocols))"
    by auto
  then show ?thesis
    by (rule bspec [OF protocol_match_abbrev])
next
  case False
  then have "filter (prefix pro) protocols = []"
    by (simp add: filter_empty_conv)
  moreover have "protocol_match pro = None"
    using False by (simp add: protocol_match_def same_prefix protocols_def Let_def)
  ultimately show ?thesis
    by simp
qed

section \<open>Opening a socket\<close>

text \<open>The function of NNG that opens a protocol, and its raw mode.\<close>

definition opener :: "string \<Rightarrow> bool \<Rightarrow> string" where
  "opener pname rw =
     (if pname = ''poly'' then (if rw then ''nng_pair1_open_raw'' else ''nng_pair1_open_poly'')
      else ''nng_'' @ pname @ ''0_open'' @ (if rw then ''_raw'' else []))"

datatype sock_obj = SockMem | Socket | OfDialer end_obj | OfListener end_obj

datatype sock_call = OpenSocket string | CloseSocket | DialerCall end_call | ListenerCall end_call

record socket =
  sk_protocol :: string
  sk_open :: bool
  sk_dialers :: "endpoint list"
  sk_listeners :: "endpoint list"

text \<open>What \<open>rnng_dial\<close> or \<open>rnng_listen\<close> does, called from here with \<open>fail\<close> 2.\<close>

definition inner :: "(end_obj \<Rightarrow> sock_obj) \<Rightarrow> (end_call \<Rightarrow> sock_call) \<Rightarrow> end_effects \<Rightarrow> (sock_obj, sock_call) effect list" where
  "inner f g es = map (map_effect f g) es"

text \<open>
  The external pointer is made and protected first, so an error in dialing or listening leaves the
  socket to the collector: \<open>Some\<close> socket is what the R object holds.
\<close>

definition rnng_protocol_open ::
  "string \<Rightarrow> (mode_arg \<Rightarrow> end_effects \<times> unit answer \<times> endpoint list) option \<Rightarrow>
     (mode_arg \<Rightarrow> end_effects \<times> unit answer \<times> endpoint list) option \<Rightarrow> bool \<Rightarrow> bool \<Rightarrow> (string \<Rightarrow> int) \<Rightarrow>
     (sock_obj, sock_call) effect list \<times> unit answer \<times> socket option" where
  "rnng_protocol_open pro dial listen raw malloc_ok ans =
     (if \<not> malloc_ok then ([], Condition 2, None)
      else (case protocol_match pro of
          None \<Rightarrow> ([Acq SockMem, Rel SockMem],
            Refused (''`protocol` should be one of: bus, pair, poly, push, pull, pub, sub, req, ''
              @ ''rep, surveyor, respondent''), None)
        | Some pname \<Rightarrow>
            (let op = opener pname raw in
             if ans op \<noteq> 0 then ([Acq SockMem, Do (OpenSocket op), Rel SockMem], Condition (ans op), None)
             else
               (let es = [Acq SockMem, Do (OpenSocket op), Acq Socket];
                    sk = \<lparr>sk_protocol = pname, sk_open = True, sk_dialers = [], sk_listeners = []\<rparr>;
                    (ds, dr, dattr) = (case dial of None \<Rightarrow> ([], Given (), []) | Some d \<Rightarrow> d (ModeInt 2));
                    sk1 = sk\<lparr>sk_dialers := dattr\<rparr>;
                    es1 = es @ inner OfDialer DialerCall ds
                in if dr \<noteq> Given () then (es1, dr, Some sk1)
                   else
                     (let (ls, lr, lattr) = (case listen of None \<Rightarrow> ([], Given (), []) | Some l \<Rightarrow> l (ModeInt 2))
                      in (es1 @ inner OfListener ListenerCall ls, lr, Some (sk1\<lparr>sk_listeners := lattr\<rparr>)))))))"

text \<open>\<open>socket_finalizer\<close>; its dialers and listeners have finalizers of their own.\<close>

definition socket_finalizer :: "(sock_obj, sock_call) effect list" where
  "socket_finalizer = [Do CloseSocket, Rel Socket, Rel SockMem]"

definition rnng_close :: "bool \<Rightarrow> int \<Rightarrow> socket \<Rightarrow> unit answer \<times> socket" where
  "rnng_close valid xc sk =
     (if \<not> valid then (Refused ''`socket` is not a valid Socket'', sk)
      else if xc \<noteq> 0 then (Warned xc, sk)
      else (Given (), sk\<lparr>sk_open := False\<rparr>))"

text \<open>\<open>rnng_reap\<close> closes whatever it is given, and sets no attribute.\<close>

datatype closable = RContext | RSocket | RListener | RDialer | ROther

definition rnng_reap :: "(closable \<Rightarrow> int) \<Rightarrow> closable \<Rightarrow> closable option \<times> unit answer" where
  "rnng_reap close con =
     (let xc = (if con = ROther then 3 else close con)
      in (if con = ROther then None else Some con, if xc \<noteq> 0 then ErrorValue xc else Given ()))"

section \<open>Accounts of a socket\<close>

text \<open>What the R objects of a socket own: its dialers and listeners, created here.\<close>

definition end_parts :: "bool \<Rightarrow> end_obj list" where
  "end_parts tls = [EndMem, Endpoint] @ (if tls then [TlsHold] else [])"

definition socket_parts :: "socket \<Rightarrow> sock_obj list" where
  "socket_parts sk = [SockMem, Socket]
     @ concat (map (\<lambda>e. map OfDialer (end_parts (ep_tls e))) (sk_dialers sk))
     @ concat (map (\<lambda>e. map OfListener (end_parts (ep_tls e))) (sk_listeners sk))"

lemma remove1_map_inj: "inj f \<Longrightarrow> x \<in> set live \<Longrightarrow> remove1 (f x) (map f live @ L) = map f (remove1 x live) @ L"
  by (induction live) (auto dest: injD)

lemma settle_inner:
  assumes "inj f"
  shows "settle es live = Some l \<Longrightarrow> settle (inner f g es) (map f live @ L) = Some (map f l @ L)"
proof (induction es live rule: settle.induct)
  case (2 x es live)
  then show ?case
    using assms by (simp add: inner_def)
next
  case (3 x es live)
  then show ?case
    using assms by (auto simp: inner_def remove1_map_inj split: if_splits)
next
  case (4 x es live)
  then show ?case
    using assms by (auto simp: inner_def remove1_map_inj split: if_splits)
qed (simp_all add: inner_def)

lemma owns_inner:
  assumes "owns es xs" "inj f"
  obtains l where "\<And>L. settle (inner f g es) L = Some (map f l @ L)" "mset l = mset xs"
proof -
  from assms(1) obtain l where l: "settle es [] = Some l" "mset l = mset xs"
    by (auto simp: owns_def split: option.splits)
  show ?thesis
    by (rule that [OF _ l(2)]) (use settle_inner [OF assms(2) l(1)] in simp)
qed

text \<open>The endpoint functions as \<open>rnng_protocol_open\<close> calls them: on its new socket, with \<open>fail\<close> as given.\<close>

definition dial_with :: "string \<Rightarrow> bool option \<Rightarrow> int \<Rightarrow> bool \<Rightarrow> (end_call \<Rightarrow> int) \<Rightarrow> string \<Rightarrow> mode_arg \<Rightarrow>
    end_effects \<times> unit answer \<times> endpoint list" where
  "dial_with url tls start ok ans host fail = rnng_dial True url tls start fail ok ans host []"

definition listen_with :: "string \<Rightarrow> bool option \<Rightarrow> int \<Rightarrow> bool \<Rightarrow> (end_call \<Rightarrow> int) \<Rightarrow> (string \<Rightarrow> nng_url option) \<Rightarrow>
    int option \<Rightarrow> mode_arg \<Rightarrow> end_effects \<times> unit answer \<times> endpoint list" where
  "listen_with url tls start ok ans parse bound fail = rnng_listen True url tls start fail ok ans parse bound []"

text \<open>What an endpoint call gives back: with success one endpoint, else none and nothing but what stays.\<close>

definition end_result :: "end_effects \<Rightarrow> unit answer \<Rightarrow> endpoint list \<Rightarrow> bool" where
  "end_result es r attr =
     (if r = Given () then \<exists>e. attr = [e] \<and> owns es (end_parts (ep_tls e))
      else attr = [] \<and> (\<exists>xs. owns es xs \<and> set xs \<subseteq> {Endpoint}))"

lemma stranded_subset: "set (if c then [] else stranded es) \<subseteq> {Endpoint}"
  by (auto simp: stranded_def)

lemma end_result_dial:
  assumes "dial_with url tls start ok ans host fail = (es, r, attr)"
  shows "end_result es r attr"
  using dial_accounts [OF assms [unfolded dial_with_def]] stranded_subset [of "tls = None" es]
  by (auto simp: end_result_def end_parts_def)

lemma end_result_listen:
  assumes "listen_with url tls start ok ans parse bound fail = (es, r, attr)"
  shows "end_result es r attr"
  using listen_accounts [OF assms [unfolded listen_with_def]] stranded_subset [of "tls = None" es]
  by (auto simp: end_result_def end_parts_def)

lemma end_result_inner:
  assumes "end_result es r attr \<or> es = [] \<and> r = Given () \<and> attr = []" "inj f"
  obtains l where "\<And>L. settle (inner f g es) L = Some (map f l @ L)"
    and "r = Given () \<Longrightarrow> mset l = mset (concat (map (\<lambda>e. end_parts (ep_tls e)) attr))"
    and "r \<noteq> Given () \<Longrightarrow> attr = [] \<and> set l \<subseteq> {Endpoint}"
proof (cases "es = [] \<and> r = Given () \<and> attr = []")
  case True
  then show ?thesis
    by (intro that [of "[]"]) (auto simp: inner_def)
next
  case False
  then have e: "end_result es r attr"
    using assms(1) by blast
  then obtain xs where xs: "owns es xs"
      "if r = Given () then xs = concat (map (\<lambda>e. end_parts (ep_tls e)) attr) else attr = [] \<and> set xs \<subseteq> {Endpoint}"
    by (fastforce simp: end_result_def split: if_splits)
  from owns_inner [OF this(1) assms(2), where g = g] obtain l
    where l: "\<And>L. settle (inner f g es) L = Some (map f l @ L)" "mset l = mset xs"
    by blast
  from l(2) have "set l = set xs"
    by (rule mset_eq_setD)
  then show ?thesis
    using that [OF l(1)] l(2) xs(2) by (auto split: if_splits)
qed

lemma inj_of: "inj OfDialer" "inj OfListener"
  by (auto intro: injI)

text \<open>The optional call, on the arguments that \<open>rnng_protocol_open\<close> passes on.\<close>

type_synonym end_args = "string \<times> bool option \<times> int \<times> bool \<times> (end_call \<Rightarrow> int)"

definition dial_arg :: "(end_args \<times> string) option \<Rightarrow> (mode_arg \<Rightarrow> end_effects \<times> unit answer \<times> endpoint list) option" where
  "dial_arg = map_option (\<lambda>((url, tls, start, ok, ans), host). dial_with url tls start ok ans host)"

definition listen_arg ::
  "(end_args \<times> (string \<Rightarrow> nng_url option) \<times> int option) option \<Rightarrow>
     (mode_arg \<Rightarrow> end_effects \<times> unit answer \<times> endpoint list) option" where
  "listen_arg = map_option (\<lambda>((url, tls, start, ok, ans), parse, bound). listen_with url tls start ok ans parse bound)"

definition call_with :: "(mode_arg \<Rightarrow> end_effects \<times> unit answer \<times> endpoint list) option \<Rightarrow> end_effects \<times> unit answer \<times> endpoint list" where
  "call_with c = (case c of None \<Rightarrow> ([], Given (), []) | Some d \<Rightarrow> d (ModeInt 2))"

lemma call_dial: "call_with (dial_arg a) = (es, r, attr) \<Longrightarrow> end_result es r attr \<or> es = [] \<and> r = Given () \<and> attr = []"
  by (cases a) (auto simp: call_with_def dial_arg_def dest: end_result_dial)

lemma call_listen: "call_with (listen_arg a) = (es, r, attr) \<Longrightarrow> end_result es r attr \<or> es = [] \<and> r = Given () \<and> attr = []"
  by (cases a) (auto simp: call_with_def listen_arg_def dest: end_result_listen)

lemma concat_map_map: "concat (map (\<lambda>e. map f (g e)) xs) = map f (concat (map g xs))"
  by (induction xs) auto


end
