(* ===== verification/Streams.thy ===== *)
theory Streams
  imports Endpoint AioOps
begin

text \<open>
  Byte streams (\<open>nano_stream_dial\<close>, \<open>nano_stream_listen\<close>, \<open>rnng_stream_open\<close> and \<open>rnng_stream_close\<close> of
  \<^verbatim>\<open>proto.c\<close>). Each is one long chain of calls, of which the WebSocket and TLS parts depend on the
  scheme of the address; \<open>fail\<close> frees what the chain has acquired.
\<close>

datatype str_obj = StrMem | StrUrl | StrEnd | StrAio | StrTls | Conn

datatype str_call =
    ParseUrl | AllocEnd | AllocAio | SetFlag string | SetHeader string string
  | TlsAlloc | TlsName string | TlsNoAuth | TlsInstall | StartListen | StartDial | StartAccept | WaitAio

type_synonym str_chain = "((str_obj, str_call) effect \<times> int) list"

definition ws_schemes :: "string set" where
  "ws_schemes = {''ws'', ''wss''}"

text \<open>A tolerated \<open>NNG_EBUSY\<close>.\<close>

definition tolerate :: "int \<Rightarrow> int" where
  "tolerate xc = (if xc = NNG_EBUSY then 0 else xc)"

definition open_ops :: "(str_call \<Rightarrow> int) \<Rightarrow> str_chain" where
  "open_ops ans = acquire ans ParseUrl StrUrl @ acquire ans AllocEnd StrEnd @ acquire ans AllocAio StrAio"

definition ws_ops :: "(str_call \<Rightarrow> int) \<Rightarrow> bool \<Rightarrow> str_chain" where
  "ws_ops ans text =
     ask ans (SetFlag ''ws:msgmode'')
       @ (if text then ask ans (SetFlag ''ws:recv-text'') @ ask ans (SetFlag ''ws:send-text'') else [])"

text \<open>The request headers; the name of the option is built in 256 bytes.\<close>

definition header_option :: "string \<Rightarrow> string" where
  "header_option name = fst (snprintf 256 (''ws:request-header:'' @ name))"

definition header_ops :: "(str_call \<Rightarrow> int) \<Rightarrow> (string \<times> string) list \<Rightarrow> str_chain" where
  "header_ops ans headers = concat (map (\<lambda>(n, v). ask ans (SetHeader (header_option n) v)) headers)"

lemma header_option_fits: "length name \<le> 237 \<Longrightarrow> header_option name = ''ws:request-header:'' @ name"
  by (simp add: header_option_def snprintf_def)

text \<open>
  TLS: without a configuration one is made (\<open>name\<close>: with the server name, as a dialer does), else the
  one given is held.
\<close>

definition tls_ops :: "(str_call \<Rightarrow> int) \<Rightarrow> bool \<Rightarrow> bool \<Rightarrow> string \<Rightarrow> str_chain" where
  "tls_ops ans given name host =
     (if given
      then [(Acq StrTls, 0), (Do (TlsName host), tolerate (ans (TlsName host)))] @ ask ans TlsInstall
      else acquire ans TlsAlloc StrTls @ (if name then ask ans (TlsName host) else [])
             @ ask ans TlsNoAuth @ ask ans TlsInstall)"

definition dial_chain ::
  "(str_call \<Rightarrow> int) \<Rightarrow> string \<Rightarrow> string \<Rightarrow> bool \<Rightarrow> (string \<times> string) list \<Rightarrow> bool \<Rightarrow> str_chain" where
  "dial_chain ans scheme host text headers given =
     open_ops ans @ (if scheme \<in> ws_schemes then ws_ops ans text @ header_ops ans headers else [])
       @ (if scheme = ''wss'' then tls_ops ans given True host else [])
       @ [(Do StartDial, 0)]"

definition listen_chain ::
  "(str_call \<Rightarrow> int) \<Rightarrow> string \<Rightarrow> string \<Rightarrow> bool \<Rightarrow> bool \<Rightarrow> str_chain" where
  "listen_chain ans scheme host text given =
     open_ops ans @ (if scheme \<in> ws_schemes then ws_ops ans text else [])
       @ (if scheme = ''wss'' then tls_ops ans given False host else [])
       @ ask ans StartListen @ [(Do StartAccept, 0)]"

text \<open>
  Behind either chain R waits for the connection, the last part; then the unwinding, or the aio and the
  address are freed and the stream is made.
\<close>

definition finish_stream ::
  "(str_call \<Rightarrow> int) \<Rightarrow> str_chain \<Rightarrow> nano_stream \<Rightarrow> (str_obj, str_call) effect list \<times> nano_stream answer" where
  "finish_stream ans cs nst =
     (let (es, xc) = chain_calls (cs @ acquire ans WaitAio Conn) in
      if xc \<noteq> 0 then ([Acq StrMem] @ es @ unwind [StrTls, StrAio, StrEnd, StrUrl] [StrMem] es, Condition xc)
      else ([Acq StrMem] @ es @ [Rel StrAio, Rel StrUrl], Given nst))"

text \<open>\<open>buffer\<close> is converted to \<open>size_t\<close>; \<open>tls\<close> is absent, valid or not.\<close>

definition new_stream :: "int \<Rightarrow> bool \<Rightarrow> string \<Rightarrow> nano_stream" where
  "new_stream buffer text scheme =
     \<lparr>bufsize = nat (buffer mod 2 ^ 64), textframes = (if text then 1 else 0), msgmode = (scheme \<in> ws_schemes)\<rparr>"

definition nano_stream_dial ::
  "(str_call \<Rightarrow> int) \<Rightarrow> bool \<Rightarrow> string \<Rightarrow> string \<Rightarrow> bool \<Rightarrow> (string \<times> string) list \<Rightarrow> bool option \<Rightarrow> int \<Rightarrow>
     (str_obj, str_call) effect list \<times> nano_stream answer" where
  "nano_stream_dial ans calloc_ok scheme host text headers tls buffer =
     (if tls = Some False then ([], Refused ''`tls` is not a valid TLS Configuration'')
      else if \<not> calloc_ok then ([], Condition 2)
      else finish_stream ans (dial_chain ans scheme host text headers (tls \<noteq> None)) (new_stream buffer text scheme))"

definition nano_stream_listen ::
  "(str_call \<Rightarrow> int) \<Rightarrow> bool \<Rightarrow> string \<Rightarrow> string \<Rightarrow> bool \<Rightarrow> bool option \<Rightarrow> int \<Rightarrow>
     (str_obj, str_call) effect list \<times> nano_stream answer" where
  "nano_stream_listen ans calloc_ok scheme host text tls buffer =
     (if tls = Some False then ([], Refused ''`tls` is not a valid TLS Configuration'')
      else if \<not> calloc_ok then ([], Condition 2)
      else finish_stream ans (listen_chain ans scheme host text (tls \<noteq> None)) (new_stream buffer text scheme))"

text \<open>\<open>dial\<close> and \<open>listen\<close> are the scheme and host of their addresses.\<close>

definition rnng_stream_open ::
  "(str_call \<Rightarrow> int) \<Rightarrow> bool \<Rightarrow> (string \<times> string) option \<Rightarrow> (string \<times> string) option \<Rightarrow> bool \<Rightarrow>
     (string \<times> string) list \<Rightarrow> bool option \<Rightarrow> int \<Rightarrow> (str_obj, str_call) effect list \<times> nano_stream answer" where
  "rnng_stream_open ans calloc_ok dial listen text headers tls buffer =
     (case dial of
        Some (scheme, host) \<Rightarrow> nano_stream_dial ans calloc_ok scheme host text headers tls buffer
      | None \<Rightarrow>
          (case listen of
             Some (scheme, host) \<Rightarrow> nano_stream_listen ans calloc_ok scheme host text tls buffer
           | None \<Rightarrow> ([], Refused ''specify a URL for either `dial` or `listen`'')))"

section \<open>Closing\<close>

text \<open>The pointer of the R object, \<open>None\<close> when it has been cleared, with whether there is a configuration.\<close>

definition stream_finalizer :: "bool option \<Rightarrow> (str_obj, str_call) effect list" where
  "stream_finalizer xptr =
     (case xptr of
        None \<Rightarrow> []
      | Some tls \<Rightarrow> [Rel Conn, Rel StrEnd] @ (if tls then [Rel StrTls] else []) @ [Rel StrMem])"

definition rnng_stream_close :: "bool option \<Rightarrow> (str_obj, str_call) effect list \<times> unit answer \<times> bool option" where
  "rnng_stream_close xptr =
     (if xptr = None then ([], ErrorValue NNG_ECLOSED, None) else (stream_finalizer xptr, Given (), None))"

text \<open>\<open>n\<close> calls of \<open>close ()\<close>, then the finalizer.\<close>

fun close_times :: "nat \<Rightarrow> bool option \<Rightarrow> (str_obj, str_call) effect list" where
  "close_times 0 xptr = stream_finalizer xptr"
| "close_times (Suc n) xptr = (let (es, r, xptr') = rnng_stream_close xptr in es @ close_times n xptr')"

section \<open>Accounts\<close>

lemma acqs_header_ops [simp]: "acqs (map fst (header_ops ans hs)) = []"
  by (induction hs) (auto simp: header_ops_def ask_def)

lemma gone_header_ops: "\<forall>c \<in> set (header_ops ans hs). gone [fst c] = []"
  by (auto simp: header_ops_def ask_def)

lemmas chain_defs = dial_chain_def listen_chain_def open_ops_def ws_ops_def tls_ops_def acquire_def ask_def

lemma gone_chains:
  "\<forall>c \<in> set (dial_chain ans scheme host text hs given). gone [fst c] = []"
  "\<forall>c \<in> set (listen_chain ans scheme host text given). gone [fst c] = []"
  using gone_header_ops [of ans hs] by (auto simp: chain_defs split: if_splits)

lemma acqs_chains:
  "acqs (map fst (dial_chain ans scheme host text hs given)) = [StrUrl, StrEnd, StrAio] @ (if scheme = ''wss'' then [StrTls] else [])"
  "acqs (map fst (listen_chain ans scheme host text given)) = [StrUrl, StrEnd, StrAio] @ (if scheme = ''wss'' then [StrTls] else [])"
  by (simp_all add: chain_defs)

definition str_order :: "str_obj list" where
  "str_order = [StrTls, StrAio, StrEnd, StrUrl]"

interpretation dial: unwinding "\<lambda>(ans, scheme, host, text, hs, given). dial_chain ans scheme host text hs given"
  "\<lambda>_. str_order" "\<lambda>_. [StrMem]"
proof (unfold_locales, goal_cases)
  case (1 c a)
  then show ?case
    using gone_chains(1) by (auto split: prod.splits)
qed (auto simp: acqs_chains str_order_def split: prod.splits if_splits)

interpretation listen: unwinding "\<lambda>(ans, scheme, host, text, given). listen_chain ans scheme host text given"
  "\<lambda>_. str_order" "\<lambda>_. [StrMem]"
proof (unfold_locales, goal_cases)
  case (1 c a)
  then show ?case
    using gone_chains(2) by (auto split: prod.splits)
qed (auto simp: acqs_chains str_order_def split: prod.splits if_splits)

definition str_parts :: "bool \<Rightarrow> str_obj list" where
  "str_parts tls = [StrMem, StrEnd, Conn] @ (if tls then [StrTls] else [])"

text \<open>Both ends of a chain that unwinds, and has acquired its parts when it goes through.\<close>

lemma finish_accounts:
  assumes "finish_stream ans cs nst = (es, r)"
    and unwound: "\<And>fs xc ds. chain_calls cs = (fs, xc) \<Longrightarrow> acqs ds = [] \<Longrightarrow> gone ds = [] \<Longrightarrow>
      owns ([Acq StrMem] @ fs @ ds @ unwind str_order [StrMem] (fs @ ds)) []"
    and made: "\<And>fs. chain_calls cs = (fs, 0) \<Longrightarrow>
      acqs fs = [StrUrl, StrEnd, StrAio] @ (if tls then [StrTls] else []) \<and> gone fs = []"
  shows "if r = Given nst then owns es (str_parts tls) \<and> owns (es @ close_times n (Some tls)) []
    else owns es [] \<and> (\<exists>xc. xc \<noteq> 0 \<and> r = Condition xc)"
proof -
  obtain fs xc where c: "chain_calls cs = (fs, xc)"
    by fastforce
  consider (chain) "xc \<noteq> 0" | (wait) "xc = 0" "ans WaitAio \<noteq> 0" | (success) "xc = 0" "ans WaitAio = 0"
    by blast
  then show ?thesis
  proof cases
    case chain
    then show ?thesis
      using unwound [OF c, of "[]"] assms(1) c by (auto simp: finish_stream_def chain_append str_order_def)
  next
    case wait
    then show ?thesis
      using unwound [OF c, of "[Do WaitAio]"] assms(1) c
      by (auto simp: finish_stream_def chain_append acquire_def str_order_def)
  next
    case success
    then have es: "es = ([Acq StrMem] @ fs @ [Do WaitAio, Acq Conn]) @ [Rel StrAio, Rel StrUrl]" "r = Given nst"
      using assms(1) c by (auto simp: finish_stream_def chain_append acquire_def)
    have f: "acqs fs = [StrUrl, StrEnd, StrAio] @ (if tls then [StrTls] else [])" "gone fs = []"
      using made c success(1) by blast+
    have "close_times m None = []" for m
      by (induction m) (simp_all add: rnng_stream_close_def stream_finalizer_def)
    then have close: "close_times n (Some tls) = stream_finalizer (Some tls)"
      by (cases n) (simp_all add: rnng_stream_close_def)
    have "owns es (str_parts tls)"
      unfolding es by (rule owns_split) (use f in \<open>auto simp: str_parts_def\<close>)
    moreover have "owns (([Acq StrMem] @ fs @ [Do WaitAio, Acq Conn]) @ [Rel StrAio, Rel StrUrl] @ stream_finalizer (Some tls)) []"
      by (rule owns_split) (use f in \<open>auto simp: stream_finalizer_def\<close>)
    ultimately show ?thesis
      using es by (simp add: close)
  qed
qed

text \<open>What is expected of the result of opening a stream, closed \<open>n\<close> times and then collected.\<close>

definition stream_kept ::
  "string \<Rightarrow> bool option \<Rightarrow> nat \<Rightarrow> (str_obj, str_call) effect list \<times> nano_stream answer \<Rightarrow> bool" where
  "stream_kept scheme tls n res =
     (case res of
        (es, Given nst) \<Rightarrow>
          owns es (str_parts (scheme = ''wss'')) \<and> owns (es @ close_times n (Some (scheme = ''wss''))) []
            \<and> msgmode nst = (scheme \<in> {''ws'', ''wss''})
      | (es, Condition xc) \<Rightarrow> xc \<noteq> 0 \<and> owns es []
      | (es, Refused e) \<Rightarrow> tls = Some False \<and> es = []
      | _ \<Rightarrow> False)"

lemma stream_kept_finish:
  assumes "finish_stream ans cs (new_stream buffer text scheme) = (es, r)"
    and "\<And>fs xc ds. chain_calls cs = (fs, xc) \<Longrightarrow> acqs ds = [] \<Longrightarrow> gone ds = [] \<Longrightarrow>
      owns ([Acq StrMem] @ fs @ ds @ unwind str_order [StrMem] (fs @ ds)) []"
    and "\<And>fs. chain_calls cs = (fs, 0) \<Longrightarrow>
      acqs fs = [StrUrl, StrEnd, StrAio] @ (if scheme = ''wss'' then [StrTls] else []) \<and> gone fs = []"
  shows "stream_kept scheme tls n (es, r)"
proof -
  let ?nst = "new_stream buffer text scheme" and ?sec = "scheme = ''wss''"
  have f: "if r = Given ?nst then owns es (str_parts ?sec) \<and> owns (es @ close_times n (Some ?sec)) []
    else owns es [] \<and> (\<exists>xc. xc \<noteq> 0 \<and> r = Condition xc)"
    by (rule finish_accounts) (fact assms)+
  show ?thesis
  proof (cases "r = Given ?nst")
    case True
    then show ?thesis
      using f by (simp add: stream_kept_def new_stream_def ws_schemes_def)
  next
    case False
    then show ?thesis
      using f by (auto simp: stream_kept_def)
  qed
qed

lemma stream_kept_refused: "stream_kept scheme (Some False) n ([], Refused e)" "stream_kept scheme tls n ([], Condition 2)"
  by (simp_all add: stream_kept_def owns_def)

text \<open>
  A stream leaves nothing behind. Whichever call of opening fails, by dialing or listening, with
  or without WebSocket settings, headers and TLS, everything acquired is freed once and the failure is
  an R error; an open stream owns its structure, endpoint, connection and, for \<open>wss\<close>, its TLS
  configuration, and these are freed once however often it is closed before it is collected; it works
  on messages exactly when the scheme is a WebSocket one.
\<close>

theorem stream_accounts:
  "stream_kept scheme tls n (nano_stream_dial ans calloc_ok scheme host text headers tls buffer)
   \<and> stream_kept scheme tls n (nano_stream_listen ans calloc_ok scheme host text tls buffer)"
proof
  let ?nst = "new_stream buffer text scheme"
  have "stream_kept scheme tls n (finish_stream ans (dial_chain ans scheme host text headers (tls \<noteq> None)) ?nst)"
    (is "stream_kept _ _ _ ?r")
    using stream_kept_finish [of ans _ _ _ _ "fst ?r" "snd ?r"]
      dial.unwound [of "(ans, scheme, host, text, headers, tls \<noteq> None)"]
      dial.made [of "(ans, scheme, host, text, headers, tls \<noteq> None)"]
    by (simp add: acqs_chains)
  then show "stream_kept scheme tls n (nano_stream_dial ans calloc_ok scheme host text headers tls buffer)"
    by (simp add: nano_stream_dial_def stream_kept_refused)
  have "stream_kept scheme tls n (finish_stream ans (listen_chain ans scheme host text (tls \<noteq> None)) ?nst)"
    (is "stream_kept _ _ _ ?r")
    using stream_kept_finish [of ans _ _ _ _ "fst ?r" "snd ?r"]
      listen.unwound [of "(ans, scheme, host, text, tls \<noteq> None)"]
      listen.made [of "(ans, scheme, host, text, tls \<noteq> None)"]
    by (simp add: acqs_chains)
  then show "stream_kept scheme tls n (nano_stream_listen ans calloc_ok scheme host text tls buffer)"
    by (simp add: nano_stream_listen_def stream_kept_refused)
qed

end
