(* ===== verification/Utils.thy ===== *)
theory Utils
  imports Endpoint Serial Registry
begin

text \<open>
  Options, statistics, status codes and the other small entry points of \<^verbatim>\<open>utils.c\<close>. What NNG answers
  to a typed access is a parameter: for setting, by the typed value; for getting, by the type.
\<close>

section \<open>Options\<close>

datatype opt_object = OptSocket | OptContext | OptStream | OptListener | OptDialer | OptBad

text \<open>What NNG is given, at the widths of its types.\<close>

datatype opt_value =
    ONull | OString string | OMs i32 | OSize u64 | OInt i32 | OU64 u64 | OBool bool

datatype opt_type = TNull | TString | TMs | TSize | TInt | TU64 | TBool

definition type_of_opt :: "opt_value \<Rightarrow> opt_type" where
  "type_of_opt v =
     (case v of ONull \<Rightarrow> TNull | OString _ \<Rightarrow> TString | OMs _ \<Rightarrow> TMs | OSize _ \<Rightarrow> TSize
      | OInt _ \<Rightarrow> TInt | OU64 _ \<Rightarrow> TU64 | OBool _ \<Rightarrow> TBool)"

text \<open>A value from R; a number as \<open>nano_integer\<close> reads it; a list by its length.\<close>

datatype r_opt = RNull | RString string | RNumber i32 | RLogical i32 | RVector nat | ROtherType

text \<open>The accesses tried, up to the first that succeeds, and the result of the last.\<close>

fun try_all :: "('v \<Rightarrow> int) \<Rightarrow> 'v list \<Rightarrow> 'v list \<times> int" where
  "try_all ans [] = ([], 0)"
| "try_all ans [v] = ([v], ans v)"
| "try_all ans (v # w # vs) =
     (if ans v = 0 then ([v], 0) else (let (tried, xc) = try_all ans (w # vs) in (v # tried, xc)))"

definition set_tries :: "r_opt \<Rightarrow> opt_value list option" where
  "set_tries vl =
     (case vl of
        RNull \<Rightarrow> Some [ONull]
      | RString s \<Rightarrow> Some [OString s]
      | RNumber val \<Rightarrow> Some [OMs val, OSize (scast val), OInt val, OU64 (scast val)]
      | RLogical b \<Rightarrow> Some [OBool (b \<noteq> 0)]
      | _ \<Rightarrow> None)"

text \<open>The third component: the serialization configuration attached to a socket, if it was set.\<close>

definition rnng_set_opt ::
  "opt_object \<Rightarrow> string \<Rightarrow> r_opt \<Rightarrow> (opt_value \<Rightarrow> int) \<Rightarrow> opt_value list \<times> unit answer \<times> nat option" where
  "rnng_set_opt object op vl ans =
     (if object = OptBad
      then ([], Refused ''`object` is not a valid Socket, Context, Stream, Listener or Dialer'', None)
      else (case set_tries vl of
          Some tries \<Rightarrow>
            (let (tried, xc) = try_all ans tries in (tried, if xc \<noteq> 0 then Condition xc else Given (), None))
        | None \<Rightarrow>
            (case vl of
               RVector xlen \<Rightarrow>
                 (if object = OptSocket \<and> take 6 op = ''serial'' then ([], Given (), Some xlen)
                  else ([], Refused ''type of `value` not supported'', None))
             | _ \<Rightarrow> ([], Refused ''type of `value` not supported'', None))))"

text \<open>Getting: \<open>get t\<close> is the value, or a non-zero code.\<close>

definition get_order :: "opt_type list" where
  "get_order = [TString, TMs, TSize, TInt, TBool, TU64]"

datatype r_value = RvString string | RvInt i32 | RvLogical i32 | RvReal nat

text \<open>A \<open>uint64\<close> becomes a double, here the number that it is rounded from.\<close>

definition opt_to_r :: "opt_value \<Rightarrow> r_value" where
  "opt_to_r v =
     (case v of
        OString s \<Rightarrow> RvString s | OMs d \<Rightarrow> RvInt d | OSize s \<Rightarrow> RvInt (ucast s) | OInt i \<Rightarrow> RvInt i
      | OBool b \<Rightarrow> RvLogical (if b then 1 else 0) | OU64 u \<Rightarrow> RvReal (unat u) | ONull \<Rightarrow> RvReal 0)"

definition rnng_get_opt ::
  "opt_object \<Rightarrow> (opt_type \<Rightarrow> int + opt_value) \<Rightarrow> opt_type list \<times> r_value answer" where
  "rnng_get_opt object get =
     (if object = OptBad
      then ([], Refused ''`object` is not a valid Socket, Context, Stream, Listener, or Dialer'')
      else
        (let (tried, xc) = try_all (\<lambda>t. case get t of Inl xc \<Rightarrow> xc | Inr _ \<Rightarrow> 0) get_order in
         if xc \<noteq> 0 then (tried, Condition xc)
         else (tried, Given (case get (last tried) of Inr v \<Rightarrow> opt_to_r v | Inl _ \<Rightarrow> RvReal 0))))"

text \<open>What an R value reads as, once it is stored in an option of a type.\<close>

definition reads_as :: "r_opt \<Rightarrow> opt_type \<Rightarrow> r_value option" where
  "reads_as vl t =
     (case (vl, t) of
        (RString s, TString) \<Rightarrow> Some (RvString s)
      | (RNumber i, TMs) \<Rightarrow> Some (RvInt i) | (RNumber i, TInt) \<Rightarrow> Some (RvInt i) | (RNumber i, TSize) \<Rightarrow> Some (RvInt i)
      | (RNumber i, TU64) \<Rightarrow> Some (RvReal (nat (sint i mod 2 ^ 64)))
      | (RLogical b, TBool) \<Rightarrow> Some (RvLogical (if b = 0 then 0 else 1))
      | _ \<Rightarrow> None)"

lemma try_get:
  assumes "\<And>t'. get t' = (if t' = t then Inr v else Inl NNG_EBADTYPE)" "object \<noteq> OptBad" "t \<noteq> TNull"
  shows "snd (rnng_get_opt object get) = Given (opt_to_r v)"
  using assms(2,3) by (cases t) (simp_all add: assms(1) rnng_get_opt_def get_order_def NNG_EBADTYPE_def)

lemma scast_back: "ucast (scast (i :: i32) :: u64) = i" "sint (scast i :: u64) = sint i"
proof -
  show "ucast (scast (i :: i32) :: u64) = i"
    by (rule bit_word_eqI) (simp add: bit_simps)
  show "sint (scast i :: u64) = sint i"
    by (rule sint_up_scast) (simp add: is_up)
qed

lemma scast_minus_one: "(scast (- 1 :: i32) :: u64) = - 1"
  by (rule bit_word_eqI) (simp add: bit_simps)

lemma unat_scast64: "unat (scast (i :: i32) :: u64) = nat (sint i mod 2 ^ 64)"
proof -
  have "uint (scast i :: u64) = sint i mod 2 ^ 64"
    using uint_sint [of "scast i :: u64"] by (simp add: scast_back take_bit_eq_mod)
  then show ?thesis
    by (simp add: unat_eq_nat_uint)
qed



section \<open>Subscriptions\<close>

text \<open>
  The topic is the raw encoding without the terminator of the (last) string. \<open>Rel\<close> of the encoding is
  missing in the source, so a buffer that was allocated stays behind.
\<close>

datatype sub_obj = TopicBuf

datatype sub_call = SetTopic string "byte list" u64

definition topic_len :: "sexp \<Rightarrow> nano_buf \<Rightarrow> u64" where
  "topic_len v buf = of_nat (nb_cur buf) - (case v of StrSXP _ \<Rightarrow> 1 | _ \<Rightarrow> 0)"

definition rnng_subscribe ::
  "opt_object \<Rightarrow> bool \<Rightarrow> sexp \<Rightarrow> bool \<Rightarrow> int \<Rightarrow> (sub_obj, sub_call) effect list \<times> unit answer" where
  "rnng_subscribe object alloc v sub xc =
     (if object \<noteq> OptSocket \<and> object \<noteq> OptContext
      then ([], Refused ''`object` is not a valid Socket or Context'')
      else (case nano_encode alloc v of
          Inl (RError e) \<Rightarrow> ([], Refused e)
        | Inr buf \<Rightarrow>
            ((if nb_len buf \<noteq> 0 then [Acq TopicBuf] else [])
               @ [Do (SetTopic (if sub then ''sub:subscribe'' else ''sub:unsubscribe'')
                        (take (unat (topic_len v buf)) (nb_buf buf)) (topic_len v buf))],
             if xc \<noteq> 0 then Condition xc else Given ())))"

text \<open>A subscriber to a value is sent every raw message of it: the topic is a beginning of its encoding.\<close>

lemma length_cplx: "length (concat (map (\<lambda>(re, im). u64_bytes re @ u64_bytes im) zs)) = 16 * length zs"
  by (induction zs) (auto simp: u64_bytes_def)

lemma encode_cursor: "nano_encode alloc v = Inr buf \<Longrightarrow> nb_cur buf \<le> length (nb_buf buf)"
proof (cases v)
  case (CplxSXP zs)
  then show "nano_encode alloc v = Inr buf \<Longrightarrow> nb_cur buf \<le> length (nb_buf buf)"
    by (auto simp: nano_encode_def NANO_INIT_def length_cplx)
qed (auto simp: nano_encode_def NANO_INIT_def Let_def length_concat comp_def sum_list_triv u64_bytes_def i32_bytes_def
    split: if_splits)

lemma topic_is_prefix:
  assumes "nano_encode alloc v = Inr buf" "nb_cur buf < 2 ^ 64" "v \<noteq> StrSXP []"
  shows "take (unat (topic_len v buf)) (nb_buf buf) = (case v of StrSXP _ \<Rightarrow> butlast (encoded buf) | _ \<Rightarrow> encoded buf)"
proof -
  note cur = encode_cursor [OF assms(1)]
  show ?thesis
  proof (cases v)
    case (StrSXP ss)
    have ne: "nb_cur buf \<noteq> 0"
      using assms(1,3) StrSXP
      by (cases ss) (auto simp: nano_encode_def NANO_INIT_def Let_def copy_strings_concat split: if_splits)
    then have "of_nat (nb_cur buf) - 1 = (of_nat (nb_cur buf - 1) :: u64)"
      by (simp add: of_nat_diff)
    then have "unat (topic_len v buf) = nb_cur buf - 1"
      using assms(2) StrSXP by (simp add: topic_len_def unat_of_nat)
    then show ?thesis
      using StrSXP cur by (simp add: encoded_def butlast_take)
  qed (use assms(2) in \<open>simp_all add: topic_len_def encoded_def unat_of_nat\<close>)
qed

text \<open>Without any string the length is that of the address space; and the buffer of several is not freed.\<close>

lemma empty_topic_wraps:
  "fst (rnng_subscribe OptSocket True (StrSXP []) True 0) = [Do (SetTopic ''sub:subscribe'' [] (2 ^ 64 - 1))]"
  by (simp add: rnng_subscribe_def nano_encode_def topic_len_def)

lemma subscribe_leaks: "owns (fst (rnng_subscribe OptSocket True (StrSXP [[97], [98]]) True 0)) [TopicBuf]"
  by (simp add: rnng_subscribe_def nano_encode_def owns_def)

section \<open>Serialization configurations\<close>

text \<open>\<open>sfunc\<close> and \<open>ufunc\<close>: a function, a list of (here numbered) functions, or something else.\<close>

datatype fun_arg = OneFun nat | FunList "nat list" | NoFun nat

definition fun_length :: "fun_arg \<Rightarrow> nat" where
  "fun_length f = (case f of OneFun _ \<Rightarrow> 1 | FunList fs \<Rightarrow> length fs | NoFun n \<Rightarrow> n)"

definition fun_list :: "fun_arg \<Rightarrow> nat list option" where
  "fun_list f = (case f of OneFun g \<Rightarrow> Some [g] | FunList fs \<Rightarrow> Some fs | NoFun _ \<Rightarrow> None)"

text \<open>\<open>klass\<close> is \<open>None\<close> when it is not a character vector.\<close>

definition rnng_serial_config ::
  "string list option \<Rightarrow> fun_arg \<Rightarrow> fun_arg \<Rightarrow> (string list \<times> nat list \<times> nat list) answer" where
  "rnng_serial_config klass sfunc ufunc =
     (case klass of
        None \<Rightarrow> Refused ''`class` must be a character vector''
      | Some ks \<Rightarrow>
          (if fun_length sfunc \<noteq> length ks \<or> fun_length ufunc \<noteq> length ks
           then Refused ''`class`, `sfunc` and `ufunc` must all be the same length''
           else (case fun_list sfunc of
               None \<Rightarrow> Refused ''`sfunc` must be a function or list of functions''
             | Some ss \<Rightarrow>
                 (case fun_list ufunc of
                    None \<Rightarrow> Refused ''`ufunc` must be a function or list of functions''
                  | Some us \<Rightarrow> Given (ks, ss, us)))))"

lemma hook_match_bound: "hook_match inherits ks = Some i \<Longrightarrow> i < length ks \<and> inherits (ks ! i)"
  by (induction ks arbitrary: i) (auto split: if_splits)

text \<open>
  In a configuration that was made, every class has both its functions, so that the index that the
  serialization hook finds, and that the unserialization hook receives, is in the range of both lists.
\<close>

lemma config_complete:
  assumes "rnng_serial_config klass sfunc ufunc = Given (ks, ss, us)" "hook_match inherits ks = Some i"
  shows "length ss = length ks \<and> length us = length ks \<and> i < length ss \<and> i < length us"
proof -
  have "length ss = length ks" "length us = length ks"
    using assms(1)
    by (auto simp: rnng_serial_config_def fun_list_def fun_length_def split: option.splits if_splits fun_arg.splits)
  then show ?thesis
    using hook_match_bound [OF assms(2)] by simp
qed

section \<open>Text\<close>

definition NANONEXT_STR_SIZE :: nat where "NANONEXT_STR_SIZE = 40"

text \<open>\<open>strerror\<close> is \<open>nng_strerror\<close>.\<close>

definition rnng_strerror :: "(int \<Rightarrow> string) \<Rightarrow> int \<Rightarrow> string" where
  "rnng_strerror strerror xc = fst (snprintf NANONEXT_STR_SIZE (fmt_d xc @ '' | '' @ strerror xc))"

definition status_table :: "(int \<times> string) list" where
  "status_table =
    [(100, ''Continue''), (101, ''Switching Protocols''), (102, ''Processing''), (103, ''Early Hints''),
     (200, ''OK''), (201, ''Created''), (202, ''Accepted''), (203, ''Non-Authoritative Information''),
     (204, ''No Content''), (205, ''Reset Content''), (206, ''Partial Content''),
     (207, ''Multi-Status''), (208, ''Already Reported''), (226, ''IM Used''),
     (300, ''Multiple Choices''), (301, ''Moved Permanently''), (302, ''Found''), (303, ''See Other''),
     (304, ''Not Modified''), (305, ''Use Proxy''), (306, ''Switch Proxy''),
     (307, ''Temporary Redirect''), (308, ''Permanent Redirect''), (400, ''Bad Request''),
     (401, ''Unauthorized''), (402, ''Payment Required''), (403, ''Forbidden''), (404, ''Not Found''),
     (405, ''Method Not Allowed''), (406, ''Not Acceptable''),
     (407, ''Proxy Authentication Required''), (408, ''Request Timeout''), (409, ''Conflict''),
     (410, ''Gone''), (411, ''Length Required''), (412, ''Precondition Failed''),
     (413, ''Payload Too Large''), (414, ''URI Too Long''), (415, ''Unsupported Media Type''),
     (416, ''Range Not Satisfiable''), (417, ''Expectation Failed''),
     (418, ''I'' @ [CHR 0x27] @ ''m a teapot''), (421, ''Misdirected Request''),
     (422, ''Unprocessable Entity''), (423, ''Locked''), (424, ''Failed Dependency''),
     (425, ''Too Early''), (426, ''Upgrade Required''), (428, ''Precondition Required''),
     (429, ''Too Many Requests''), (431, ''Request Header Fields Too Large''),
     (451, ''Unavailable For Legal Reasons''), (500, ''Internal Server Error''),
     (501, ''Not Implemented''), (502, ''Bad Gateway''), (503, ''Service Unavailable''),
     (504, ''Gateway Timeout''), (505, ''HTTP Version Not Supported''),
     (506, ''Variant Also Negotiates''), (507, ''Insufficient Storage''), (508, ''Loop Detected''),
     (510, ''Not Extended''), (511, ''Network Authentication Required'')]"

definition status_text :: "int \<Rightarrow> string" where
  "status_text status = (case map_of status_table status of Some c \<Rightarrow> c | None \<Rightarrow> ''Unknown HTTP Status'')"

definition rnng_status_code :: "int \<Rightarrow> string" where
  "rnng_status_code status =
     (let code = status_text status in fst (snprintf (length code + 7) (fmt_d status @ '' | '' @ code)))"

text \<open>
  The buffer is made for three digits: codes up to 999 are given in full, a code of more digits loses
  that many characters of its text.
\<close>

lemma status_fits:
  assumes "0 \<le> status" "status < 1000"
  shows "rnng_status_code status = fmt_d status @ '' | '' @ status_text status"
proof -
  have "length (fmt_d status) \<le> 3"
    using assms dec_digits_bound [of 3 "nat status"] by (simp add: fmt_d_def)
  then show ?thesis
    by (simp add: rnng_status_code_def snprintf_def)
qed

lemma status_truncated:
  "rnng_status_code 1000 = ''1000 | Unknown HTTP Statu''"
proof -
  have "fmt_d 1000 = ''1000''"
    by (simp add: fmt_d_def dec_digits.simps char_of_def bit_0)
  moreover have "status_text 1000 = ''Unknown HTTP Status''"
    by (simp add: status_text_def status_table_def)
  ultimately show ?thesis
    by (simp add: rnng_status_code_def snprintf_def)
qed

text \<open>An absent part of an address is the empty string; \<open>userinfo\<close> comes with the other parts.\<close>

definition part :: "string option \<Rightarrow> string" where
  "part p = (case p of None \<Rightarrow> [] | Some s \<Rightarrow> s)"

definition rnng_url_parse :: "int + (nng_url \<times> string option) \<Rightarrow> (string \<times> string) list answer" where
  "rnng_url_parse parsed =
     (case parsed of
        Inl xc \<Rightarrow> Condition xc
      | Inr (up, userinfo) \<Rightarrow>
          Given [(''scheme'', u_scheme up), (''userinfo'', part userinfo), (''hostname'', u_hostname up),
                 (''port'', part (u_port up)), (''path'', part (u_path up)), (''query'', part (u_query up)),
                 (''fragment'', part (u_fragment up))])"

section \<open>Others\<close>

text \<open>\<open>sleep ()\<close>: the milliseconds slept; \<open>None\<close> is neither an integer nor a double.\<close>

definition rnng_sleep :: "int option \<Rightarrow> int option" where
  "rnng_sleep msec = (case msec of None \<Rightarrow> None | Some time \<Rightarrow> if time > 0 then Some time else None)"

definition rnng_is_nul_byte :: "sexp \<Rightarrow> bool" where
  "rnng_is_nul_byte x = (case x of RawSXP bs \<Rightarrow> length bs = 1 \<and> bs ! 0 = 0 | _ \<Rightarrow> False)"

text \<open>A statistic: of the snapshot, its tree for the object, the entry found.\<close>

datatype stat_value = StatString string | StatNumber nat

definition rnng_stats_get ::
  "opt_object \<Rightarrow> int \<Rightarrow> stat_value option \<Rightarrow> (unit, unit) effect list \<times> stat_value option answer" where
  "rnng_stats_get object xc found =
     (if object = OptBad \<or> object = OptContext \<or> object = OptStream
      then ([], Refused ''`object` is not a valid Socket, Listener or Dialer'')
      else if xc \<noteq> 0 then ([], Condition xc)
      else ([Acq (), Rel ()], Given found))"

lemma stats_accounts: "owns (fst (rnng_stats_get object xc found)) []"
  by (simp add: rnng_stats_get_def owns_def)

text \<open>
  \<open>rnng_traverse_precious\<close> counts the cells of the list of preserved objects that hold nothing; \<open>n\<close>
  bounds the length of the list.
\<close>

fun traverse :: "nat \<Rightarrow> cells \<Rightarrow> nat option \<Rightarrow> nat" where
  "traverse n s None = 0"
| "traverse 0 s (Some head) = 0"
| "traverse (Suc n) s (Some head) = (if tag s head = None then 1 else 0) + traverse n s (cdr s head)"

definition rnng_traverse_precious :: "nat \<Rightarrow> cells \<Rightarrow> nat" where
  "rnng_traverse_precious n s = traverse n s (cdr s nano_precious)"

text \<open>Whatever was preserved and released, there are none.\<close>

lemma traverse_seg:
  "seg prv (cdr s) q p xs q' None \<Longrightarrow> \<forall>x \<in> set xs. tag s x \<noteq> None \<Longrightarrow> traverse n s p = 0"
proof (induction xs arbitrary: q p n)
  case (Cons x xs)
  then show ?case
    by (cases n) auto
qed simp

lemma no_empty_cells: "precious_rep obj s xs \<Longrightarrow> rnng_traverse_precious n s = 0"
  by (auto simp: rnng_traverse_precious_def precious_rep_def intro!: traverse_seg)

end
