(* ===== verification/Ncurl.thy ===== *)
theory Ncurl
  imports Endpoint
begin

text \<open>
  The HTTP client (\<^verbatim>\<open>ncurl.c\<close>): requests that R waits for and the redirects they follow, requests as
  aios and the fields read from them, sessions that keep their connection. A response is a parameter;
  \<open>hget\<close> is \<open>nng_http_res_get_header\<close>.
\<close>

section \<open>Responses\<close>

record nc_res =
  rs_status :: nat
  rs_headers :: "(string \<times> string) list"
  rs_body :: "byte list"

type_synonym header_get = "nc_res \<Rightarrow> string \<Rightarrow> string option"

text \<open>The argument \<open>response\<close>: \<open>TRUE\<close> (all headers), names, or anything else.\<close>

datatype response_arg = RespAll | RespNames "string list" | RespOther

text \<open>A named list of values, of which a header that is not there is \<open>NULL\<close>; \<open>None\<close> is \<open>NULL\<close>.\<close>

type_synonym header_list = "(string \<times> string option) list option"

definition build_all_headers :: "nc_res \<Rightarrow> header_list" where
  "build_all_headers res =
     (if rs_headers res = [] then None else Some (map (\<lambda>(n, v). (n, Some v)) (rs_headers res)))"

definition is_redirect :: "nc_res \<Rightarrow> bool" where
  "is_redirect res \<longleftrightarrow> 300 \<le> rs_status res \<and> rs_status res < 400"

text \<open>\<open>relo\<close>: the header \<open>Location\<close> is added to those asked for.\<close>

definition pick_headers :: "header_get \<Rightarrow> nc_res \<Rightarrow> response_arg \<Rightarrow> bool \<Rightarrow> header_list" where
  "pick_headers hget res response relo =
     (case response of
        RespAll \<Rightarrow> build_all_headers res
      | RespNames ns \<Rightarrow> Some (map (\<lambda>n. (n, hget res n)) (ns @ (if relo then [''Location''] else [])))
      | RespOther \<Rightarrow> if relo then Some [(''Location'', hget res ''Location'')] else None)"

definition http_data :: "bool \<Rightarrow> nc_res \<Rightarrow> decoded" where
  "http_data convert res = (if convert then nano_raw_char (rs_body res) else (RawSXP (rs_body res), False))"

datatype ncurl_value = NcError int | NcResponse nat header_list decoded

section \<open>Building a request\<close>

datatype nc_obj = Url nat | Client | Req | Res | HAio | Cfg | HaioMem | HandleMem | HttpConn

datatype nc_call =
    NcUrlParse | NcClientAlloc | NcReqAlloc | NcResAlloc | NcAioAlloc | NcMethod string | NcHeader string string
  | NcData "byte list" | NcTlsAlloc | NcServerName string | NcAuthMode | NcSetTls
  | NcTransact | NcWait | NcConnect | NcConnTransact | NcConnClose

type_synonym nc_chain = "((nc_obj, nc_call) effect \<times> int) list"

type_synonym nc_effects = "(nc_obj, nc_call) effect list"

text \<open>
  What is asked for. The headers are a named vector or list, whose elements that are not a non-empty
  character vector are \<open>None\<close>; headers without names are the empty list.
\<close>

record nc_request =
  nq_method :: "string option"
  nq_headers :: "(string \<times> string option) list"
  nq_data :: "byte list option"
  nq_tls :: bool

definition nano_set_req_headers :: "(nc_call \<Rightarrow> int) \<Rightarrow> (string \<times> string option) list \<Rightarrow> nc_chain" where
  "nano_set_req_headers ans hs =
     concat (map (\<lambda>(n, v). case v of None \<Rightarrow> [] | Some s \<Rightarrow> ask ans (NcHeader n s)) hs)"

definition data_ops :: "(nc_call \<Rightarrow> int) \<Rightarrow> byte list option \<Rightarrow> nc_chain" where
  "data_ops ans data = (case data of None \<Rightarrow> [] | Some enc \<Rightarrow> if enc = [] then [] else ask ans (NcData enc))"

definition https_ops :: "(nc_call \<Rightarrow> int) \<Rightarrow> bool \<Rightarrow> string \<Rightarrow> nc_chain" where
  "https_ops ans given host =
     (if given
      then [(Acq Cfg, 0), (Do (NcServerName host), if ans (NcServerName host) = NNG_EBUSY then 0 else ans (NcServerName host))]
             @ ask ans NcSetTls
      else acquire ans NcTlsAlloc Cfg @ ask ans (NcServerName host) @ ask ans NcAuthMode @ ask ans NcSetTls)"

text \<open>From the parsed address to a request that is ready to be sent.\<close>

definition request_chain :: "(nc_call \<Rightarrow> int) \<Rightarrow> nc_request \<Rightarrow> string \<Rightarrow> string \<Rightarrow> nc_chain" where
  "request_chain ans q scheme host =
     acquire ans NcClientAlloc Client @ acquire ans NcReqAlloc Req @ acquire ans NcResAlloc Res
       @ acquire ans NcAioAlloc HAio
       @ (case nq_method q of None \<Rightarrow> [] | Some m \<Rightarrow> ask ans (NcMethod m))
       @ nano_set_req_headers ans (nq_headers q) @ data_ops ans (nq_data q)
       @ (if scheme = ''https'' then https_ops ans (nq_tls q) host else [])"

section \<open>Requests that R waits for\<close>

text \<open>
  A hop: the address asked, the answers of the calls, the response, and the address that its
  \<open>Location\<close> header parses to, if it is there and does.
\<close>

record hop =
  hp_scheme :: string
  hp_host :: string
  hp_ans :: "nc_call \<Rightarrow> int"
  hp_res :: nc_res
  hp_location :: bool

definition followed :: "bool \<Rightarrow> hop \<Rightarrow> bool" where
  "followed follow h \<longleftrightarrow> is_redirect (hp_res h) \<and> follow \<and> hp_location h"

text \<open>The part behind \<open>relocall\<close>, up to the wait; the new address is parsed before the old one is freed.\<close>

definition hop_chain :: "nc_request \<Rightarrow> hop \<Rightarrow> nc_chain" where
  "hop_chain q h = request_chain (hp_ans h) q (hp_scheme h) (hp_host h) @ [(Do NcTransact, 0)] @ ask (hp_ans h) NcWait"

text \<open>\<open>None\<close>: the hops given have not been enough.\<close>

fun ncurl_hops ::
  "header_get \<Rightarrow> nc_request \<Rightarrow> bool \<Rightarrow> bool \<Rightarrow> response_arg \<Rightarrow> nat \<Rightarrow> hop list \<Rightarrow> nc_effects \<times> ncurl_value option" where
  "ncurl_hops hget q convert follow response i [] = ([], None)"
| "ncurl_hops hget q convert follow response i (h # hs) =
     (let (es, xc) = chain_calls (hop_chain q h) in
      if xc \<noteq> 0
      then (es @ unwind [Cfg, HAio, Res, Req, Client] [Url i] es, Some (NcError xc))
      else
        (let es1 = es @ free_if es Cfg @ [Rel HAio] in
         if followed follow h
         then (let (fs, r) = ncurl_hops hget q convert follow response (Suc i) hs
               in (es1 @ [Acq (Url (Suc i)), Rel Res, Rel Req, Rel Client, Rel (Url i)] @ fs, r))
         else (es1 @ [Rel Res, Rel Req, Rel Client, Rel (Url i)],
               Some (NcResponse (rs_status (hp_res h)) (pick_headers hget (hp_res h) response (is_redirect (hp_res h)))
                       (http_data convert (hp_res h))))))"

definition rnng_ncurl ::
  "header_get \<Rightarrow> nc_request \<Rightarrow> bool \<Rightarrow> bool \<Rightarrow> response_arg \<Rightarrow> int \<Rightarrow> hop list \<Rightarrow> nc_effects \<times> ncurl_value option" where
  "rnng_ncurl hget q convert follow response parse hops =
     (if parse \<noteq> 0 then ([], Some (NcError parse))
      else (let (es, r) = ncurl_hops hget q convert follow response 0 hops in ([Acq (Url 0)] @ es, r)))"

section \<open>Accounts\<close>

lemmas nc_chain_defs = hop_chain_def request_chain_def data_ops_def https_ops_def acquire_def ask_def

lemma acqs_set_headers [simp]: "acqs (map fst (nano_set_req_headers ans hs)) = []"
  by (induction hs) (auto simp: nano_set_req_headers_def ask_def split: option.splits)

lemma gone_set_headers: "c \<in> set (nano_set_req_headers ans hs) \<Longrightarrow> gone [fst c] = []"
  by (auto simp: nano_set_req_headers_def ask_def split: option.splits)

lemma gone_request: "\<forall>c \<in> set (request_chain ans q scheme host). gone [fst c] = []"
  by (auto simp: nc_chain_defs dest: gone_set_headers split: if_splits option.splits)

lemma acqs_request:
  "acqs (map fst (request_chain ans q scheme host)) = [Client, Req, Res, HAio] @ (if scheme = ''https'' then [Cfg] else [])"
  by (auto simp: nc_chain_defs split: option.splits)

lemma gone_hop: "\<forall>c \<in> set (hop_chain q h). gone [fst c] = []"
  using gone_request by (auto simp: hop_chain_def ask_def)

lemma acqs_hop:
  "acqs (map fst (hop_chain q h)) = [Client, Req, Res, HAio] @ (if hp_scheme h = ''https'' then [Cfg] else [])"
  by (simp add: hop_chain_def acqs_request ask_def)

text \<open>Each hop unwinds; outside its chain there is the address.\<close>

interpretation hop: unwinding "\<lambda>(q, h, i). hop_chain q h" "\<lambda>_. [Cfg, HAio, Res, Req, Client]" "\<lambda>(q, h, i). [Url i]"
proof (unfold_locales, goal_cases)
  case (1 c a)
  then show ?case
    using gone_hop by (auto split: prod.splits)
qed (auto simp: acqs_hop split: prod.splits if_splits)

lemma hop_failed:
  assumes "chain_calls (hop_chain q h) = (es, xc)"
  shows "settle (es @ unwind [Cfg, HAio, Res, Req, Client] [Url i] es) [Url i] = Some []"
  using hop.unwound [of "(q, h, i)" es xc "[]"] assms
  by (auto simp: owns_def split: option.splits bind_splits)

lemma hop_done:
  assumes "chain_calls (hop_chain q h) = (es, 0)"
  shows "settle (es @ free_if es Cfg @ [Rel HAio]) [Url i] = Some [Res, Req, Client, Url i]"
proof -
  have g: "gone es = []" and a: "acqs es = [Client, Req, Res, HAio] @ (if hp_scheme h = ''https'' then [Cfg] else [])"
    using hop.made [of "(q, h, i)" es] assms by (simp_all add: acqs_hop)
  have "Acq Cfg \<in> set es \<longleftrightarrow> hp_scheme h = ''https''"
    unfolding acqs_iff [symmetric] a by simp
  then show ?thesis
    by (simp add: settle_acqs [OF g] a free_if_def)
qed

lemma ncurl_hops_settle:
  "settle (fst (ncurl_hops hget q convert follow response i hs)) [Url i]
     = Some (if snd (ncurl_hops hget q convert follow response i hs) = None then [Url (i + length hs)] else [])"
proof (induction hs arbitrary: i)
  case (Cons h hs)
  obtain es xc where c: "chain_calls (hop_chain q h) = (es, xc)"
    by fastforce
  obtain fs r where f: "ncurl_hops hget q convert follow response (Suc i) hs = (fs, r)"
    by fastforce
  show ?case
  proof (cases "xc = 0")
    case False
    then show ?thesis
      using hop_failed [OF c, of i] c by simp
  next
    case True
    have d: "settle (es @ free_if es Cfg @ [Rel HAio] @ gs) [Url i] = settle gs [Res, Req, Client, Url i]" for gs
      using hop_done [of q h es i] c True
      by (metis (no_types, lifting) Option.bind.simps(2) append.assoc settle_append)
    show ?thesis
      using Cons.IH [of "Suc i"] c True f d
      by (cases "followed follow h") (simp_all del: settle_append)
  qed
qed simp

section \<open>What a request returns\<close>

definition hop_fails :: "nc_request \<Rightarrow> hop \<Rightarrow> int" where
  "hop_fails q h = snd (chain_calls (hop_chain q h))"

text \<open>The last hop: the first that fails or whose response is not followed.\<close>

definition last_hop :: "nc_request \<Rightarrow> bool \<Rightarrow> hop list \<Rightarrow> hop option" where
  "last_hop q follow hs = find (\<lambda>h. hop_fails q h \<noteq> 0 \<or> \<not> followed follow h) hs"

definition hop_value :: "header_get \<Rightarrow> nc_request \<Rightarrow> bool \<Rightarrow> response_arg \<Rightarrow> hop \<Rightarrow> ncurl_value" where
  "hop_value hget q convert response h =
     (if hop_fails q h \<noteq> 0 then NcError (hop_fails q h)
      else NcResponse (rs_status (hp_res h)) (pick_headers hget (hp_res h) response (is_redirect (hp_res h)))
             (http_data convert (hp_res h)))"

lemma ncurl_hops_value:
  "snd (ncurl_hops hget q convert follow response i hs)
     = map_option (hop_value hget q convert response) (last_hop q follow hs)"
proof (induction hs arbitrary: i)
  case (Cons h hs)
  then show ?case
    by (auto simp: last_hop_def hop_value_def hop_fails_def case_prod_beta Let_def)
qed (simp add: last_hop_def)

text \<open>
  C30: a request returns the response behind its redirects, and frees everything. It returns exactly when
  some hop fails or is not to be followed, and then with that hop's error, or its status, headers and
  data; whatever the number of hops, and whichever call fails in whichever of them, each address,
  client, request, response, aio and TLS configuration is freed once; without following, the first
  hop is the last.
\<close>

theorem ncurl_returns_last_hop:
  "snd (rnng_ncurl hget q convert follow response parse hops)
     = (if parse \<noteq> 0 then Some (NcError parse) else map_option (hop_value hget q convert response) (last_hop q follow hops))
   \<and> (case snd (rnng_ncurl hget q convert follow response parse hops) of
        Some v \<Rightarrow> owns (fst (rnng_ncurl hget q convert follow response parse hops)) []
      | None \<Rightarrow> owns (fst (rnng_ncurl hget q convert follow response parse hops)) [Url (length hops)]
          \<and> list_all (followed follow) hops)
   \<and> last_hop q False (h # hs) = Some h"
proof (cases "parse = 0")
  case True
  obtain es r where n: "ncurl_hops hget q convert follow response 0 hops = (es, r)"
    by fastforce
  have r: "r = map_option (hop_value hget q convert response) (last_hop q follow hops)"
    using ncurl_hops_value [of hget q convert follow response 0 hops] n by simp
  have s: "settle es [Url 0] = Some (if r = None then [Url (length hops)] else [])"
    using ncurl_hops_settle [of hget q convert follow response 0 hops] n by simp
  have "last_hop q follow hops = None \<Longrightarrow> list_all (followed follow) hops"
    by (auto simp: last_hop_def find_None_iff list_all_iff)
  moreover have "rnng_ncurl hget q convert follow response parse hops = ([Acq (Url 0)] @ es, r)"
    using True n by (simp add: rnng_ncurl_def)
  moreover have "last_hop q False (h # hs) = Some h"
    by (simp add: last_hop_def followed_def)
  ultimately show ?thesis
    using True s r by (cases "last_hop q follow hops") (simp_all add: owns_def)
next
  case False
  then show ?thesis
    by (simp add: rnng_ncurl_def owns_def last_hop_def followed_def)
qed

text \<open>There is no limit to the redirects that are followed: a server that redirects to itself holds R for ever.\<close>

lemma endless_redirects:
  assumes "followed follow h" "hop_fails q h = 0"
  shows "snd (rnng_ncurl hget q convert follow response 0 (replicate n h)) = None"
proof -
  have "last_hop q follow (replicate n h) = None"
    using assms by (simp add: last_hop_def find_None_iff)
  then show ?thesis
    using ncurl_hops_value [of hget q convert follow response 0 "replicate n h"] by (simp add: rnng_ncurl_def case_prod_beta)
qed

section \<open>Requests as aios, and sessions\<close>

text \<open>
  The structures of a handle are allocated first; the address is parsed into the handle. \<open>finish\<close> is
  what happens when the request is ready.
\<close>

definition handle_chain :: "(nc_call \<Rightarrow> int) \<Rightarrow> nc_request \<Rightarrow> string \<Rightarrow> string \<Rightarrow> nc_chain" where
  "handle_chain ans q scheme host = acquire ans NcUrlParse (Url 0) @ request_chain ans q scheme host"

definition handle_fail :: "nc_effects \<Rightarrow> nc_effects" where
  "handle_fail es = unwind [Cfg, HAio, Res, Req, Client, Url 0] [HaioMem, HandleMem] es"

definition rnng_ncurl_aio ::
  "(nc_call \<Rightarrow> int) \<Rightarrow> bool \<Rightarrow> bool \<Rightarrow> bool \<Rightarrow> nc_request \<Rightarrow> string \<Rightarrow> string \<Rightarrow> nc_effects \<times> unit answer" where
  "rnng_ncurl_aio ans tls_ok haio_ok handle_ok q scheme host =
     (if nq_tls q \<and> \<not> tls_ok then ([], Refused ''`tls` is not a valid TLS Configuration'')
      else if \<not> haio_ok then ([], ErrorValue 2)
      else if \<not> handle_ok then ([Acq HaioMem, Rel HaioMem], ErrorValue 2)
      else
        (let (es, xc) = chain_calls (handle_chain ans q scheme host); all = [Acq HaioMem, Acq HandleMem] @ es in
         if xc \<noteq> 0 then (all @ handle_fail es, ErrorValue xc) else (all @ [Do NcTransact], Given ())))"

text \<open>A session connects, and R waits for it; \<open>session_complete\<close> turns the result 0 into -1.\<close>

definition completed :: "int \<Rightarrow> int" where
  "completed res = res - (if res = 0 then 1 else 0)"

definition rnng_ncurl_session ::
  "(nc_call \<Rightarrow> int) \<Rightarrow> bool \<Rightarrow> bool \<Rightarrow> bool \<Rightarrow> nc_request \<Rightarrow> string \<Rightarrow> string \<Rightarrow> nc_effects \<times> unit answer" where
  "rnng_ncurl_session ans tls_ok haio_ok handle_ok q scheme host =
     (if nq_tls q \<and> \<not> tls_ok then ([], Refused ''`tls` is not a valid TLS Configuration'')
      else if \<not> haio_ok then ([], Warned 2)
      else if \<not> handle_ok then ([Acq HaioMem, Rel HaioMem], Warned 2)
      else
        (let (es, xc) = chain_calls (handle_chain ans q scheme host); all = [Acq HaioMem, Acq HandleMem] @ es;
             result = completed (ans NcWait)
         in if xc \<noteq> 0 then (all @ handle_fail es, Warned xc)
            else if result > 0 then (all @ [Do NcConnect, Do NcWait] @ handle_fail (es @ [Do NcConnect, Do NcWait]), Warned result)
            else (all @ [Do NcConnect, Do NcWait, Acq HttpConn], Given ())))"

text \<open>\<open>cfg\<close>: whether there is a TLS configuration; \<open>conn\<close>: whether the session still has its connection.\<close>

definition haio_finalizer :: "bool \<Rightarrow> nc_effects" where
  "haio_finalizer cfg =
     [Rel HAio] @ (if cfg then [Rel Cfg] else []) @ [Rel Res, Rel Req, Rel Client, Rel (Url 0), Rel HandleMem, Rel HaioMem]"

definition session_finalizer :: "bool \<Rightarrow> bool \<Rightarrow> nc_effects" where
  "session_finalizer conn cfg = (if conn then [Rel HttpConn] else []) @ haio_finalizer cfg"

text \<open>Closing: the connection is closed once, and then gone; the rest is left to the finalizer.\<close>

definition rnng_ncurl_session_close :: "bool \<Rightarrow> bool \<Rightarrow> nc_effects \<times> unit answer \<times> bool" where
  "rnng_ncurl_session_close valid conn =
     (if \<not> valid then ([], Refused ''`session` is not a valid or active ncurlSession'', conn)
      else if \<not> conn then ([], Warned 7, False)
      else ([Rel HttpConn], Given (), False))"

definition rnng_ncurl_transact ::
  "header_get \<Rightarrow> bool \<Rightarrow> bool \<Rightarrow> bool \<Rightarrow> response_arg \<Rightarrow> int \<Rightarrow> nc_res \<Rightarrow> ncurl_value answer" where
  "rnng_ncurl_transact hget valid conn convert response result res =
     (if \<not> valid then Refused ''`session` is not a valid or active ncurlSession''
      else if \<not> conn then Given (NcError 7)
      else if completed result > 0 then Given (NcError (completed result))
      else Given (NcResponse (rs_status res) (pick_headers hget res response False) (http_data convert res)))"

text \<open>Closings and transactions in any order, and the finalizer in the end.\<close>

fun session_life :: "bool list \<Rightarrow> bool \<Rightarrow> bool \<Rightarrow> nc_effects" where
  "session_life [] conn cfg = session_finalizer conn cfg"
| "session_life (close # xs) conn cfg =
     (if close then (let (es, r, conn') = rnng_ncurl_session_close True conn in es @ session_life xs conn' cfg)
      else session_life xs conn cfg)"

lemma handle_acqs:
  "acqs (map fst (handle_chain ans q scheme host))
     = [Url 0, Client, Req, Res, HAio] @ (if scheme = ''https'' then [Cfg] else [])"
  by (simp add: handle_chain_def acqs_request acquire_def)

interpretation handle: unwinding "\<lambda>(ans, q, scheme, host). handle_chain ans q scheme host"
  "\<lambda>_. [Cfg, HAio, Res, Req, Client, Url 0]" "\<lambda>_. [HaioMem, HandleMem]"
proof (unfold_locales, goal_cases)
  case (1 c a)
  then show ?case
    using gone_request by (auto simp: handle_chain_def acquire_def split: prod.splits)
qed (auto simp: handle_acqs split: prod.splits if_splits)

lemma handle_made:
  assumes "chain_calls (handle_chain ans q scheme host) = (es, 0)"
  shows "gone es = []" "acqs es = [Url 0, Client, Req, Res, HAio] @ (if scheme = ''https'' then [Cfg] else [])"
  using handle.made [of "(ans, q, scheme, host)" es] assms by (simp_all add: handle_acqs)

lemma handle_unwinds:
  assumes "chain_calls (handle_chain ans q scheme host) = (es, xc)" "gone ds = []" "acqs ds = []"
  shows "owns ([Acq HaioMem, Acq HandleMem] @ es @ ds @ handle_fail (es @ ds)) []"
  using handle.unwound [of "(ans, q, scheme, host)" es xc ds] assms by (simp add: handle_fail_def)

lemma session_life_gone:
  "gone (session_life xs conn cfg) = (if conn then [HttpConn] else []) @ gone (haio_finalizer cfg)
   \<and> acqs (session_life xs conn cfg) = []"
  by (induction xs conn cfg rule: session_life.induct)
    (auto simp: session_finalizer_def haio_finalizer_def rnng_ncurl_session_close_def)

text \<open>
  Request objects and sessions leave nothing behind. Whichever call fails on the way, an aio or
  session that is not made has freed everything; one that is made is freed completely by its finalizer,
  and the connection of a session once, whatever closings and transactions, in whatever order and
  number, came before.
\<close>

theorem http_objects_account:
  "owns (fst (rnng_ncurl_aio ans tls_ok haio_ok handle_ok q scheme host)
       @ (if snd (rnng_ncurl_aio ans tls_ok haio_ok handle_ok q scheme host) = Given ()
          then haio_finalizer (scheme = ''https'') else [])) []
   \<and> owns (fst (rnng_ncurl_session ans tls_ok haio_ok handle_ok q scheme host)
       @ (if snd (rnng_ncurl_session ans tls_ok haio_ok handle_ok q scheme host) = Given ()
          then session_life xs True (scheme = ''https'') else [])) []"
proof -
  obtain es xc where c: "chain_calls (handle_chain ans q scheme host) = (es, xc)"
    by fastforce
  note fail = handle_unwinds [OF c, of "[]"] handle_unwinds [OF c, of "[Do NcConnect, Do NcWait]"]
  have a: "owns (([Acq HaioMem, Acq HandleMem] @ es @ [Do NcTransact]) @ haio_finalizer (scheme = ''https'')) []"
    if "xc = 0"
    by (rule owns_split) (use handle_made [of ans q scheme host es] c that in \<open>auto simp: haio_finalizer_def\<close>)
  have b: "owns (([Acq HaioMem, Acq HandleMem] @ es @ [Do NcConnect, Do NcWait, Acq HttpConn])
      @ session_life xs True (scheme = ''https'')) []" if "xc = 0"
    by (rule owns_split) (use handle_made [of ans q scheme host es] c that in \<open>auto simp: session_life_gone haio_finalizer_def\<close>)
  have n: "owns [] []" "owns [Acq HaioMem, Rel HaioMem] []"
    by (simp_all add: owns_def)
  show ?thesis
    using a b fail n by (auto simp: rnng_ncurl_aio_def rnng_ncurl_session_def c Let_def)
qed

section \<open>Reading the fields of an aio\<close>

text \<open>
  \<open>status\<close>, \<open>headers\<close> and \<open>data\<close> are read through active bindings that store all three in the
  environment of the aio when it has completed. A missing variable is \<open>None\<close>.
\<close>

datatype http_field = FStatus | FHeaders | FData

datatype field_value = FvError int | FvStatus nat | FvHeaders header_list | FvData decoded | FvUnresolved

record http_env =
  v_result :: "field_value option"
  v_protocol :: "field_value option"
  v_value :: "field_value option"
  v_aio :: bool

definition http_env0 :: http_env where
  "http_env0 = \<lparr>v_result = None, v_protocol = None, v_value = None, v_aio = True\<rparr>"

definition var_of :: "http_field \<Rightarrow> http_env \<Rightarrow> field_value option" where
  "var_of typ env = (case typ of FStatus \<Rightarrow> v_result env | FHeaders \<Rightarrow> v_protocol env | FData \<Rightarrow> v_value env)"

definition mk_error_haio :: "int \<Rightarrow> http_env \<Rightarrow> http_env" where
  "mk_error_haio xc env =
     \<lparr>v_result = Some (FvError xc), v_protocol = Some (FvError xc), v_value = Some (FvError xc), v_aio = False\<rparr>"

definition create_aio_http ::
  "header_get \<Rightarrow> response_arg \<Rightarrow> bool \<Rightarrow> int \<Rightarrow> nc_res \<Rightarrow> http_field \<Rightarrow> http_env \<Rightarrow> field_value \<times> http_env" where
  "create_aio_http hget response md result res typ env =
     (if result > 0 then (FvError result, mk_error_haio result env)
      else
        (let env1 = env\<lparr>v_result := Some (FvStatus (rs_status res))\<rparr>;
             env2 = env1\<lparr>v_protocol := Some (FvHeaders (pick_headers hget res response (is_redirect res)))\<rparr>;
             env3 = env2\<lparr>v_value := Some (FvData (http_data md res)), v_aio := False\<rparr>
         in (case var_of typ env3 of Some v \<Rightarrow> v | None \<Rightarrow> FvUnresolved, env3)))"

text \<open>\<open>busy\<close> is \<open>nng_aio_busy\<close>; the callback has run when it is not.\<close>

definition nano_aio_http_impl ::
  "header_get \<Rightarrow> response_arg \<Rightarrow> bool \<Rightarrow> int \<Rightarrow> nc_res \<Rightarrow> bool \<Rightarrow> http_field \<Rightarrow> http_env \<Rightarrow> field_value \<times> http_env" where
  "nano_aio_http_impl hget response md result res busy typ env =
     (case var_of typ env of
        Some v \<Rightarrow> (v, env)
      | None \<Rightarrow> if busy then (FvUnresolved, env) else create_aio_http hget response md result res typ env)"

text \<open>\<open>nano_aio_http_status\<close>, for an aio that has been waited for.\<close>

definition nano_aio_http_status ::
  "header_get \<Rightarrow> response_arg \<Rightarrow> bool \<Rightarrow> int \<Rightarrow> nc_res \<Rightarrow> http_env \<Rightarrow> field_value \<times> http_env" where
  "nano_aio_http_status hget response md result res env =
     (case v_result env of
        Some v \<Rightarrow> (v, env)
      | None \<Rightarrow> create_aio_http hget response md result res FStatus env)"

text \<open>\<open>haio_complete\<close>: the result, and whether a promise callback is queued.\<close>

definition haio_complete :: "int \<Rightarrow> bool \<Rightarrow> int \<times> bool" where
  "haio_complete res cb = (completed res, cb)"

text \<open>What a field is, once the exchange has ended with \<open>res\<close> and, if that is 0, a response.\<close>

definition field_of :: "header_get \<Rightarrow> response_arg \<Rightarrow> bool \<Rightarrow> int \<Rightarrow> nc_res \<Rightarrow> http_field \<Rightarrow> field_value" where
  "field_of hget response md res r typ =
     (if res \<noteq> 0 then FvError res
      else case typ of FStatus \<Rightarrow> FvStatus (rs_status r)
        | FHeaders \<Rightarrow> FvHeaders (pick_headers hget r response (is_redirect r))
        | FData \<Rightarrow> FvData (http_data md r))"

text \<open>Reads in order: each of a field, with whether NNG is still busy, or after a wait (\<open>None\<close>).\<close>

fun http_reads ::
  "header_get \<Rightarrow> response_arg \<Rightarrow> bool \<Rightarrow> int \<Rightarrow> nc_res \<Rightarrow> (http_field \<times> bool) option list \<Rightarrow> http_env \<Rightarrow> field_value list" where
  "http_reads hget response md result res [] env = []"
| "http_reads hget response md result res (None # xs) env =
     (let (v, env') = nano_aio_http_status hget response md result res env
      in v # http_reads hget response md result res xs env')"
| "http_reads hget response md result res (Some (typ, busy) # xs) env =
     (let (v, env') = nano_aio_http_impl hget response md result res busy typ env
      in v # http_reads hget response md result res xs env')"

text \<open>What the reads should give: \<open>stored\<close> is whether a read has stored the fields.\<close>

fun fields_read :: "(http_field \<Rightarrow> field_value) \<Rightarrow> bool \<Rightarrow> (http_field \<times> bool) option list \<Rightarrow> field_value list" where
  "fields_read f stored [] = []"
| "fields_read f stored (None # xs) = f FStatus # fields_read f True xs"
| "fields_read f stored (Some (typ, busy) # xs) =
     (if stored \<or> \<not> busy then f typ # fields_read f True xs else FvUnresolved # fields_read f stored xs)"

definition env_ok :: "(http_field \<Rightarrow> field_value) \<Rightarrow> bool \<Rightarrow> http_env \<Rightarrow> bool" where
  "env_ok f stored env \<longleftrightarrow> (\<forall>typ. var_of typ env = (if stored then Some (f typ) else None)) \<and> v_aio env = (\<not> stored)"

lemma create_aio_http_ok:
  assumes "0 \<le> res" "env_ok (field_of hget response md res r) False env"
  shows "fst (create_aio_http hget response md (completed res) r typ env) = field_of hget response md res r typ
    \<and> env_ok (field_of hget response md res r) True (snd (create_aio_http hget response md (completed res) r typ env))"
  using assms
  by (cases "typ")
    (auto simp: create_aio_http_def completed_def field_of_def env_ok_def mk_error_haio_def var_of_def
      split: http_field.splits)

lemma http_reads_ok:
  assumes "0 \<le> res"
  shows "env_ok (field_of hget response md res r) stored env \<Longrightarrow>
    http_reads hget response md (completed res) r xs env = fields_read (field_of hget response md res r) stored xs"
proof (induction xs arbitrary: stored env)
  case (Cons x xs)
  let ?f = "field_of hget response md res r"
  have stored: "var_of fd env = (if stored then Some (?f fd) else None)" for fd
    using Cons.prems by (simp add: env_ok_def)
  have result: "v_result env = (if stored then Some (?f FStatus) else None)"
    using stored [of FStatus] by (simp add: var_of_def)
  note new = create_aio_http_ok [OF assms, of hget response md r env]
  show ?case
  proof (cases x)
    case None
    then show ?thesis
      using Cons.IH [of True] Cons.prems new [of FStatus] result
      by (cases stored) (auto simp: nano_aio_http_status_def case_prod_beta Let_def)
  next
    case (Some p)
    obtain fd busy where p: "p = (fd, busy)"
      by fastforce
    show ?thesis
      using Cons.IH [of True] Cons.IH [of False] Cons.prems new [of fd] stored [of fd] Some p
      by (cases stored; cases busy) (auto simp: nano_aio_http_impl_def case_prod_beta Let_def)
  qed
qed simp

text \<open>
  C35: the fields of an HTTP aio belong to one exchange. In whatever order, and however often, status,
  headers and data are read, before and after it has completed, with waits in between: a read gives
  the unresolved value only as long as NNG is busy and nothing has been stored, and else the field of
  the one outcome: its error in all three, or the status, headers and data that the same request
  returns when R waits for it.
\<close>

theorem http_fields_consistent:
  "http_reads hget response md (fst (haio_complete (int res) cb)) r xs http_env0
     = fields_read (field_of hget response md (int res) r) False xs
   \<and> (hop_fails q h = 0 \<longrightarrow> hop_value hget q md response h =
       (case (field_of hget response md 0 (hp_res h) FStatus, field_of hget response md 0 (hp_res h) FHeaders,
          field_of hget response md 0 (hp_res h) FData) of
          (FvStatus st, FvHeaders hs, FvData d) \<Rightarrow> NcResponse st hs d | _ \<Rightarrow> NcError 0))"
proof -
  have "env_ok f False http_env0" for f
    by (auto simp: env_ok_def http_env0_def var_of_def split: http_field.splits)
  from http_reads_ok [OF _ this] show ?thesis
    by (simp add: haio_complete_def hop_value_def field_of_def)
qed

theorem http_fields_consistent_witness:
  "http_reads (\<lambda>r n. None) RespOther False (fst (haio_complete (int 0) True))
     \<lparr>rs_status = 301, rs_headers = [], rs_body = [7]\<rparr> [Some (FData, True), Some (FHeaders, False), Some (FData, True)] http_env0
   = [FvUnresolved, FvHeaders (Some [(''Location'', None)]), FvData (RawSXP [7], False)]"
  unfolding conjunct1 [OF http_fields_consistent]
  by (simp add: field_of_def pick_headers_def is_redirect_def http_data_def)

end
