(* ===== verification/Tls.thy ===== *)
theory Tls
  imports Endpoint
begin

text \<open>
  The parts of \<^verbatim>\<open>tls.c\<close> and \<^verbatim>\<open>net.c\<close> that are not Mbed TLS or the system: hexadecimal text of random
  bytes, the serial number of a certificate, the order of calls that make a certificate and a TLS
  configuration with their unwinding, and the addresses of the interfaces.
\<close>

unbundle bit_operations_syntax

section \<open>Hexadecimal text\<close>

definition hex_char :: "byte \<Rightarrow> char" where
  "hex_char d = ''0123456789abcdef'' ! unat d"

definition nano_hash_char :: "byte list \<Rightarrow> string" where
  "nano_hash_char buf = concat (map (\<lambda>b. [hex_char (drop_bit 4 b), hex_char (b AND 0x0f)]) buf)"

text \<open>The reading of such a text.\<close>

definition hex_of :: "char \<Rightarrow> nat" where
  "hex_of c = (if c \<in> set ''0123456789'' then of_char c - 48 else of_char c - 87)"

fun unhex :: "string \<Rightarrow> byte list" where
  "unhex (a # b # cs) = of_nat (16 * hex_of a + hex_of b) # unhex cs"
| "unhex _ = []"

lemma hex_of_table: "list_all (\<lambda>n. hex_of (''0123456789abcdef'' ! n) = n) [0..<16]"
  by code_simp

lemma hex_char_val: "n < 16 \<Longrightarrow> hex_of (''0123456789abcdef'' ! n) = n"
  using hex_of_table by (simp add: list_all_iff)

lemma unat_drop_bit: "unat (drop_bit n w) = unat w div 2 ^ n"
  by (simp only: unat_drop_bit_eq drop_bit_eq_div [where 'a = nat])

lemma nibbles:
  "unat (drop_bit 4 b) < 16" "unat (b AND 0x0f) < 16" "of_nat (16 * unat (drop_bit 4 b) + unat (b AND 0x0f)) = (b :: byte)"
proof -
  have m: "b AND 0x0f = take_bit 4 b"
    by (simp add: take_bit_eq_mask mask_eq_exp_minus_1)
  have u: "unat (drop_bit 4 b) = unat b div 16" "unat (b AND 0x0f) = unat b mod 16"
    by (simp_all only: m unat_drop_bit unsigned_take_bit_eq take_bit_eq_mod [where 'a = nat]) simp_all
  have "unat b < 256"
    using unsigned_less [of b] by simp
  then show "unat (drop_bit 4 b) < 16" "unat (b AND 0x0f) < 16"
    by (simp_all add: u)
  have "16 * unat (drop_bit 4 b) + unat (b AND 0x0f) = unat b"
    by (simp add: u)
  then show "of_nat (16 * unat (drop_bit 4 b) + unat (b AND 0x0f)) = b"
    using \<open>unat b < 256\<close> by (simp only: word_unat_eq_iff unat_of_nat) simp
qed

lemma unhex_hash: "unhex (nano_hash_char buf) = buf"
proof (induction buf)
  case (Cons b buf)
  have "hex_of (hex_char (drop_bit 4 b)) = unat (drop_bit 4 b)" "hex_of (hex_char (b AND 0x0f)) = unat (b AND 0x0f)"
    by (simp_all only: hex_char_def hex_char_val [OF nibbles(1)] hex_char_val [OF nibbles(2)])
  then show ?case
    using Cons nibbles(3) [of b] by (simp add: nano_hash_char_def)
qed (simp add: nano_hash_char_def)

lemma length_hash: "length (nano_hash_char buf) = 2 * length buf"
  by (simp add: nano_hash_char_def length_concat comp_def sum_list_triv)

section \<open>Random bytes\<close>

text \<open>\<open>n\<close>: an integer or logical, a double (as \<open>Rf_asInteger\<close> reads it), or something else.\<close>

datatype n_arg = NInt int | NReal int | NOther

definition random_size :: "n_arg \<Rightarrow> nat option" where
  "random_size n =
     (case n of
        NInt sz \<Rightarrow> if 0 < sz \<and> sz \<le> 1024 then Some (nat sz) else None
      | NReal sz \<Rightarrow> if 0 < sz \<and> sz \<le> 1024 then Some (nat sz) else None
      | NOther \<Rightarrow> None)"

datatype random_obj = EntropyCtx | DrbgCtx

datatype random_value = HexString string | RawBytes "byte list"

text \<open>\<open>bytes\<close>: what the generator fills the buffer with.\<close>

definition rnng_random ::
  "int \<Rightarrow> int \<Rightarrow> (nat \<Rightarrow> byte list) \<Rightarrow> n_arg \<Rightarrow> bool \<Rightarrow> (random_obj, unit) effect list \<times> random_value answer" where
  "rnng_random seed random bytes n convert =
     (case random_size n of
        None \<Rightarrow> ([], Refused ''`n` must be an integer value between 1 and 1024'')
      | Some sz \<Rightarrow>
          (let xc = (if seed = 0 then random else seed) in
           ([Acq EntropyCtx, Acq DrbgCtx, Rel DrbgCtx, Rel EntropyCtx],
            if xc \<noteq> 0 then Refused ''error generating random bytes''
            else Given (if convert then HexString (nano_hash_char (bytes sz)) else RawBytes (bytes sz)))))"

section \<open>Serial numbers\<close>

text \<open>
  The loop over the bytes of \<open>dec\<close>, the highest first, leaving out leading zeros; \<open>r\<close> is
  \<open>remaining_bytes\<close>, \<open>out\<close> what has been stored.
\<close>

fun serial_loop :: "nat \<Rightarrow> u64 \<Rightarrow> nat \<Rightarrow> byte list \<Rightarrow> byte list option" where
  "serial_loop 0 dec obufmax out = Some out"
| "serial_loop (Suc r) dec obufmax out =
     (if obufmax < length out + 1 then None
      else
        (let val = ucast (drop_bit (r * 8) dec AND 0xFF) in
         serial_loop r dec obufmax (if val \<noteq> 0 \<or> length out \<noteq> 0 then out @ [val] else out)))"

text \<open>\<open>dec\<close> is the result of \<open>strtoull\<close>, \<open>None\<close> if it set \<open>errno\<close> or consumed nothing.\<close>

definition parse_serial_decimal_format :: "nat \<Rightarrow> u64 option \<Rightarrow> byte list option" where
  "parse_serial_decimal_format obufmax dec =
     (case dec of None \<Rightarrow> None | Some d \<Rightarrow> serial_loop 8 d obufmax [])"

definition be_value :: "byte list \<Rightarrow> nat" where
  "be_value bs = foldl (\<lambda>acc b. acc * 256 + unat b) 0 bs"

lemma be_value_snoc: "be_value (bs @ [b]) = be_value bs * 256 + unat b"
  by (simp add: be_value_def)

lemma be_value_zero: "bs = [] \<or> hd bs \<noteq> 0 \<Longrightarrow> be_value bs = 0 \<longleftrightarrow> bs = []"
proof (induction bs rule: rev_induct)
  case (snoc b bs)
  then show ?case
    by (cases "bs = []") (auto simp: be_value_snoc be_value_def unsigned_eq_0_iff)
qed (simp add: be_value_def)

lemma byte_of: "unat (ucast (drop_bit n (dec :: u64) AND 0xFF) :: byte) = unat dec div 2 ^ n mod 256"
proof -
  have "drop_bit n dec AND 0xFF = take_bit 8 (drop_bit n dec)"
    by (simp add: take_bit_eq_mask mask_eq_exp_minus_1)
  then show ?thesis
    by (simp only: unsigned_ucast_eq unsigned_take_bit_eq unat_drop_bit take_bit_eq_mod [where 'a = nat]) simp
qed

lemma serial_loop_value:
  assumes "serial_loop r dec obufmax out = Some bs" "be_value out = unat dec div 256 ^ r" "out = [] \<or> hd out \<noteq> 0"
  shows "be_value bs = unat dec \<and> (bs = [] \<or> hd bs \<noteq> 0) \<and> length bs \<le> length out + r"
  using assms
proof (induction r arbitrary: out)
  case (Suc r)
  let ?val = "ucast (drop_bit (r * 8) dec AND 0xFF) :: byte"
  have v: "unat ?val = unat dec div 256 ^ r mod 256"
    using byte_of [of "r * 8" dec] by (simp add: power_mult mult.commute [of r 8])
  have d: "unat dec div 256 ^ Suc r = unat dec div 256 ^ r div 256"
    by (metis div_mult2_eq mult.commute power_Suc)
  have step: "be_value out * 256 + unat ?val = unat dec div 256 ^ r"
    using Suc.prems(2) d v by (metis div_mult_mod_eq)
  let ?out = "if ?val \<noteq> 0 \<or> length out \<noteq> 0 then out @ [?val] else out"
  have "be_value ?out = unat dec div 256 ^ r"
    using step by (auto simp: be_value_snoc be_value_def)
  moreover have "?out = [] \<or> hd ?out \<noteq> 0"
    using Suc.prems(3) by (cases out) auto
  moreover have "serial_loop r dec obufmax ?out = Some bs"
    using Suc.prems(1) by (auto simp: Let_def split: if_splits)
  ultimately have "be_value bs = unat dec \<and> (bs = [] \<or> hd bs \<noteq> 0) \<and> length bs \<le> length ?out + r"
    using Suc.IH by blast
  then show ?case
    by (auto split: if_splits)
qed auto

lemma serial_loop_fits:
  "length out + r \<le> obufmax \<Longrightarrow> \<exists>bs. serial_loop r dec obufmax out = Some bs"
  by (induction r arbitrary: out) (auto simp: Let_def)

text \<open>
  The two encoders of \<^verbatim>\<open>tls.c\<close> lose nothing. The hexadecimal text of a block of bytes has two
  digits per byte and reads back as the block; a serial number becomes the shortest big-endian bytes
  of its value, at most eight, and always fits the 20 bytes of a certificate.
\<close>

theorem tls_encoders:
  "unhex (nano_hash_char buf) = buf \<and> length (nano_hash_char buf) = 2 * length buf
   \<and> (case parse_serial_decimal_format 20 (Some dec) of
        Some bs \<Rightarrow> be_value bs = unat dec \<and> hd (bs @ [1]) \<noteq> 0 \<and> length bs \<le> 8 | None \<Rightarrow> False)"
proof -
  obtain bs where bs: "serial_loop 8 dec 20 [] = Some bs"
    using serial_loop_fits [of "[]" 8 20 dec] by auto
  have "unat dec < 256 ^ 8"
    using unsigned_less [of dec] by simp
  then have "be_value [] = unat dec div 256 ^ 8"
    by (simp add: be_value_def)
  from serial_loop_value [OF bs this] show ?thesis
    using bs by (cases bs) (auto simp: unhex_hash length_hash parse_serial_decimal_format_def)
qed

section \<open>Certificates\<close>

datatype cert_obj = CertEntropy | CertDrbg | CertKey | CertWrite | IssuerKey | CertCsr | IssuerCrt

datatype cert_call =
    DrbgSeed | PkSetup | RsaGenKey | WriteKeyPem | Reseed | ParseSerial | ParseKey | SetSubjectKey | SetIssuerKey
  | SetSubject string | SetIssuer string | SetVersion | SetMd | SetSerial "byte list" | SetValidity string
  | SetConstraints | SetSubjectId | SetAuthorityId | WritePem

definition issuer_name :: "string \<Rightarrow> string" where
  "issuer_name common =
     fst (snprintf (length common + 20) (''CN='' @ common @ '',O=Nanonext,C=JP''))"

text \<open>The calls up to the text of the certificate; the serial number is 1.\<close>

definition cert_chain :: "(cert_call \<Rightarrow> int) \<Rightarrow> string \<Rightarrow> string \<Rightarrow> ((cert_obj, cert_call) effect \<times> int) list" where
  "cert_chain ans common not_after =
     concat (map (ask ans) [DrbgSeed, PkSetup, RsaGenKey, WriteKeyPem, Reseed])
       @ [(Do ParseSerial, if parse_serial_decimal_format 20 (Some 1) = None then - 1 else 0)]
       @ ask ans ParseKey @ [(Do SetSubjectKey, 0), (Do SetIssuerKey, 0)]
       @ ask ans (SetSubject (issuer_name common)) @ ask ans (SetIssuer (issuer_name common))
       @ [(Do SetVersion, 0), (Do SetMd, 0)]
       @ (case parse_serial_decimal_format 20 (Some 1) of None \<Rightarrow> [] | Some serial \<Rightarrow> ask ans (SetSerial serial))
       @ concat (map (ask ans) [SetValidity not_after, SetConstraints, SetSubjectId, SetAuthorityId, WritePem])"

text \<open>\<open>cert\<close> and \<open>key\<close> are the two texts; the result is those for the server and for the client.\<close>

definition rnng_write_cert ::
  "(cert_call \<Rightarrow> int) \<Rightarrow> string \<Rightarrow> string \<Rightarrow> string \<Rightarrow> string \<Rightarrow>
     (cert_obj, cert_call) effect list \<times> (string list \<times> string list) answer" where
  "rnng_write_cert ans common not_after cert key =
     (let (es, xc) = chain_calls (cert_chain ans common not_after) in
      (map Acq [CertEntropy, CertDrbg, CertKey, CertWrite, IssuerKey, CertCsr, IssuerCrt] @ es
         @ map Rel [CertCsr, IssuerCrt, CertWrite, IssuerKey, CertKey, CertDrbg, CertEntropy],
       if xc \<noteq> 0 then Condition xc else Given ([cert, key], [cert, []])))"

lemma issuer_name_fits: "issuer_name common = ''CN='' @ common @ '',O=Nanonext,C=JP''"
  by (simp add: issuer_name_def snprintf_def)

lemma serial_one: "parse_serial_decimal_format 20 (Some 1) = Some [1]"
  by (simp add: parse_serial_decimal_format_def numeral_eq_Suc Let_def)

lemma cert_chain_quiet: "gone (fst (chain_calls (cert_chain ans c n))) = []" "acqs (fst (chain_calls (cert_chain ans c n))) = []"
proof -
  show "gone (fst (chain_calls (cert_chain ans c n))) = []"
    by (rule chain_gone) (auto simp: cert_chain_def ask_def split: option.splits)
  have "acqs (map fst (cert_chain ans c n)) = []"
    by (simp add: cert_chain_def ask_def split: option.splits)
  then show "acqs (fst (chain_calls (cert_chain ans c n))) = []"
    using chain_subset [of "cert_chain ans c n"] by simp
qed

section \<open>TLS configurations\<close>

datatype tls_call =
    ConfigAlloc bool | ConfigAuth string | CaChain string "string option" | CaFile string
  | OwnCert string string "string option" | CertKeyFile string "string option"

text \<open>
  \<open>client\<close> and \<open>server\<close> are character vectors, \<open>expand\<close> is \<open>R_ExpandFileName\<close>; the result is the pair
  of attributes \<open>spec\<close> and \<open>mode\<close>. \<open>ConfigAlloc True\<close> is the mode of a server.
\<close>

definition tls_chain ::
  "(tls_call \<Rightarrow> int) \<Rightarrow> (string \<Rightarrow> string) \<Rightarrow> string list option \<Rightarrow> string list option \<Rightarrow> string option \<Rightarrow> bool \<Rightarrow>
     ((unit, tls_call) effect \<times> int) list \<times> string \<times> string" where
  "tls_chain ans expand client server pass auth =
     (let md = (if auth then ''required'' else ''optional'') in
      case client of
        Some c \<Rightarrow>
          (acquire ans (ConfigAlloc False) () @ ask ans (ConfigAuth md)
             @ (if length c > 1 then ask ans (CaChain (hd c) (if c ! 1 = [] then None else Some (c ! 1)))
                else ask ans (CaFile (expand (hd c)))),
           ''client'', md)
      | None \<Rightarrow>
          (case server of
             Some s \<Rightarrow>
               (acquire ans (ConfigAlloc True) () @ ask ans (ConfigAuth md)
                  @ (if length s > 1 then ask ans (OwnCert (hd s) (s ! 1) pass)
                     else ask ans (CertKeyFile (expand (hd s)) pass)),
                ''server'', md)
           | None \<Rightarrow>
               (acquire ans (ConfigAlloc False) () @ ask ans (ConfigAuth ''none''), ''client'', ''none'')))"

definition rnng_tls_config ::
  "(tls_call \<Rightarrow> int) \<Rightarrow> (string \<Rightarrow> string) \<Rightarrow> string list option \<Rightarrow> string list option \<Rightarrow> string option \<Rightarrow> bool \<Rightarrow>
     (unit, tls_call) effect list \<times> (string \<times> string) answer" where
  "rnng_tls_config ans expand client server pass auth =
     (let (cs, spec, md) = tls_chain ans expand client server pass auth; (es, xc) = chain_calls cs in
      if xc \<noteq> 0 then (es @ free_if es (), Condition xc) else (es, Given (spec, md)))"

text \<open>
  A configuration and a certificate leave nothing behind when a call fails; the attributes of a
  configuration say what NNG was told, and whether peers are verified is never left out.
\<close>

lemma tls_accounts:
  "(case rnng_tls_config ans expand client server pass auth of (es, r) \<Rightarrow>
      (case r of Given (spec, md) \<Rightarrow> owns es [()] \<and> Do (ConfigAuth md) \<in> set es
         \<and> Do (ConfigAlloc (spec = ''server'')) \<in> set es
       | _ \<Rightarrow> owns es []))
   \<and> owns (fst (rnng_write_cert wans common not_after cert key)) []"
proof (intro conjI)
  show "case rnng_tls_config ans expand client server pass auth of (es, r) \<Rightarrow>
      (case r of Given (spec, md) \<Rightarrow> owns es [()] \<and> Do (ConfigAuth md) \<in> set es
         \<and> Do (ConfigAlloc (spec = ''server'')) \<in> set es
       | _ \<Rightarrow> owns es [])"
    by (cases client; cases server)
      (simp_all add: rnng_tls_config_def tls_chain_def acquire_def ask_def free_if_def owns_def Let_def)
  let ?es = "fst (chain_calls (cert_chain wans common not_after))"
  have "owns ((map Acq [CertEntropy, CertDrbg, CertKey, CertWrite, IssuerKey, CertCsr, IssuerCrt] @ ?es)
      @ map Rel [CertCsr, IssuerCrt, CertWrite, IssuerKey, CertKey, CertDrbg, CertEntropy]) []"
    by (rule owns_split) (simp_all add: cert_chain_quiet)
  then show "owns (fst (rnng_write_cert wans common not_after cert key)) []"
    by (simp add: rnng_write_cert_def case_prod_beta Let_def)
qed

section \<open>Interfaces\<close>

text \<open>An interface of \<open>getifaddrs\<close>: its name, IPv4 address if that is what it has, and the loopback flag.\<close>

record ifaddr =
  ifa_name :: string
  ifa_inet :: "string option"
  ifa_loopback :: bool

text \<open>The vectors grow one by one from length 1; without an address both have one empty string.\<close>

fun ip_loop :: "ifaddr list \<Rightarrow> nat \<Rightarrow> string list \<Rightarrow> string list \<Rightarrow> string list \<times> string list" where
  "ip_loop [] i out names = (out, names)"
| "ip_loop (a # as) i out names =
     (case ifa_inet a of
        Some buf \<Rightarrow>
          (if \<not> ifa_loopback a
           then
             (let out1 = (if i \<noteq> 0 then out @ [[]] else out); names1 = (if i \<noteq> 0 then names @ [[]] else names)
              in ip_loop as (i + 1) (out1[i := buf]) (names1[i := ifa_name a]))
           else ip_loop as i out names)
      | None \<Rightarrow> ip_loop as i out names)"

text \<open>\<open>None\<close>: the call failed; the addresses then have no names.\<close>

definition rnng_ip_addr :: "ifaddr list option \<Rightarrow> string list \<times> string list option" where
  "rnng_ip_addr ifs =
     (case ifs of
        None \<Rightarrow> ([[]], None)
      | Some as \<Rightarrow> (let (out, names) = ip_loop as 0 [[]] [[]] in (out, Some names)))"

definition up_addresses :: "ifaddr list \<Rightarrow> (string \<times> string) list" where
  "up_addresses as = List.map_filter (\<lambda>a. if ifa_loopback a then None else map_option (\<lambda>b. (ifa_name a, b)) (ifa_inet a)) as"

lemma ip_loop_collects:
  "length acc = i \<Longrightarrow> out = (if i = 0 then [[]] else map snd acc) \<Longrightarrow> names = (if i = 0 then [[]] else map fst acc) \<Longrightarrow>
   ip_loop as i out names =
     (let all = acc @ up_addresses as in if all = [] then ([[]], [[]]) else (map snd all, map fst all))"
proof (induction as arbitrary: acc i out names)
  case (Cons a as)
  show ?case
  proof (cases "ifa_inet a = None \<or> ifa_loopback a")
    case True
    then show ?thesis
      using Cons.IH [OF Cons.prems] by (auto simp: up_addresses_def List.map_filter_def split: option.splits)
  next
    case False
    then obtain b where b: "ifa_inet a = Some b" "\<not> ifa_loopback a"
      by auto
    have "ip_loop (a # as) i out names = ip_loop as (i + 1) (map snd (acc @ [(ifa_name a, b)])) (map fst (acc @ [(ifa_name a, b)]))"
      using b Cons.prems by (cases acc rule: rev_cases) (auto simp: list_update_append nth_append)
    also have "\<dots> = (let all = (acc @ [(ifa_name a, b)]) @ up_addresses as in if all = [] then ([[]], [[]]) else (map snd all, map fst all))"
      by (rule Cons.IH) (use Cons.prems(1) in simp_all)
    finally show ?thesis
      using b by (simp add: up_addresses_def List.map_filter_def)
  qed
qed (auto simp: up_addresses_def List.map_filter_def)

text \<open>Every IPv4 address of an interface other than a loopback one is listed, in order, under its name.\<close>

lemma ip_addr_lists:
  "rnng_ip_addr (Some as) =
     (if up_addresses as = [] then ([[]], Some [[]]) else (map snd (up_addresses as), Some (map fst (up_addresses as))))"
  using ip_loop_collects [of "[]" 0 "[[]]" "[[]]" as] by (simp add: rnng_ip_addr_def Let_def)

text \<open>\<open>write_stdout\<close>: one gathering write of the text and a newline.\<close>

definition rnng_write_stdout :: "byte list \<Rightarrow> byte list list" where
  "rnng_write_stdout x = [x, [10]]"

end
