(* ===== verification/DispStart.thy ===== *)
theory DispStart
  imports Dispatcher Endpoint
begin

text \<open>
  Starting and stopping a dispatcher as calls (\<open>rnng_dispatcher_start\<close>, \<open>rnng_dispatcher_stop\<close> and the
  release of the handle in \<^verbatim>\<open>dispatcher.c\<close>): what is acquired in which order, and the two ways back, before
  and after the listener has been started. The state that a started dispatcher has is in \<open>Dispatcher\<close>.
\<close>

section \<open>Starting\<close>

datatype disp_obj =
    DHandle | DState | DMtx | DCv | DResetBuf | DTemplate | DSlots | DHostAio | DSigAio | DRecvAio nat
  | DReply nat | DReplyAio nat | DPoly | DRep | DHostCtx

datatype disp_call =
    AllocMtx | AllocCv | PrepareTemplate | AllocSlots | AllocHostAio | AllocSigAio | AllocRecvAio nat
  | AllocReply nat | AllocReplyAio nat | OpenPoly | NotifyPipes bool | CreateListener | SetListenerTls
  | StartListener | ListenPlain | OpenRep | DialHost | OpenHostCtx | StopAio disp_obj

type_synonym disp_effects = "(disp_obj, disp_call) effect list"

definition reply_ops :: "(disp_call \<Rightarrow> int) \<Rightarrow> nat \<Rightarrow> ((disp_obj, disp_call) effect \<times> int) list" where
  "reply_ops ans i = acquire ans (AllocReply i) (DReply i) @ acquire ans (AllocReplyAio i) (DReplyAio i)"

text \<open>
  Up to the listener; the answers of the allocator and of \<open>dispatch_prepare_init_template\<close> are 2 when they
  fail. \<open>tls\<close>: whether there is a valid configuration.
\<close>

definition start_chain :: "(disp_call \<Rightarrow> int) \<Rightarrow> bool \<Rightarrow> ((disp_obj, disp_call) effect \<times> int) list" where
  "start_chain ans tls =
     acquire ans AllocMtx DMtx @ acquire ans AllocCv DCv @ [(Acq DResetBuf, 0)]
       @ acquire ans PrepareTemplate DTemplate @ acquire ans AllocSlots DSlots
       @ acquire ans AllocHostAio DHostAio @ acquire ans AllocSigAio DSigAio
       @ concat (map (\<lambda>i. acquire ans (AllocRecvAio i) (DRecvAio i)) [0..<DISPATCH_RECV_POOL])
       @ concat (map (reply_ops ans) [0..<DISPATCH_REPLY_POOL])
       @ acquire ans OpenPoly DPoly @ ask ans (NotifyPipes True) @ ask ans (NotifyPipes False)
       @ (if tls then ask ans CreateListener @ ask ans SetListenerTls @ ask ans StartListener else ask ans ListenPlain)"

text \<open>The listener runs; the socket to the host and its context.\<close>

definition live_chain :: "(disp_call \<Rightarrow> int) \<Rightarrow> ((disp_obj, disp_call) effect \<times> int) list" where
  "live_chain ans = acquire ans OpenRep DRep @ ask ans DialHost @ acquire ans OpenHostCtx DHostCtx"

definition stop_free :: "disp_effects \<Rightarrow> disp_obj \<Rightarrow> disp_effects" where
  "stop_free es x = (if Acq x \<in> set es then [Do (StopAio x), Rel x] else [])"

text \<open>
  \<^verbatim>\<open>fail:\<close>. A reply holder that has no aio has been freed on the way; the others are in the list
  \<open>reply_free\<close>, the last one first.
\<close>

definition start_fail :: "disp_effects \<Rightarrow> disp_effects" where
  "start_fail es =
     concat (map (\<lambda>i. if Acq (DReply i) \<in> set es \<and> Acq (DReplyAio i) \<notin> set es then [Rel (DReply i)] else [])
       [0..<DISPATCH_REPLY_POOL])
     @ stop_free es DSigAio
     @ concat (map (\<lambda>i. stop_free es (DRecvAio i)) [0..<DISPATCH_RECV_POOL])
     @ stop_free es DHostAio
     @ concat (map (\<lambda>i. if Acq (DReplyAio i) \<in> set es then [Rel (DReplyAio i), Rel (DReply i)] else [])
         (rev [0..<DISPATCH_REPLY_POOL]))
     @ free_if es DPoly @ free_if es DSlots @ free_if es DTemplate @ free_if es DResetBuf
     @ free_if es DCv @ free_if es DMtx @ [Rel DState, Rel DHandle]"

text \<open>
  What \<open>dispatch_shutdown\<close> does with the parts that the start has made; what a dispatcher picks up while
  it runs (senders, contexts, messages) is in \<open>Dispatcher\<close>. \<open>es\<close> tells whether the socket to the host and
  its context are there (closing what was never opened does nothing), \<open>rs\<close> are the reply holders in the
  order of the lists \<open>reply_active\<close> and \<open>reply_free\<close>.
\<close>

definition shutdown_parts :: "disp_effects \<Rightarrow> nat list \<Rightarrow> disp_effects" where
  "shutdown_parts es rs =
     [Do (StopAio DHostAio)] @ map (\<lambda>i. Do (StopAio (DRecvAio i))) [0..<DISPATCH_RECV_POOL] @ [Do (StopAio DSigAio)]
     @ [Rel DPoly, Rel DSlots]
     @ concat (map (\<lambda>i. [Rel (DReplyAio i), Rel (DReply i)]) rs)
     @ free_if es DHostCtx @ free_if es DRep
     @ [Rel DHostAio] @ map (\<lambda>i. Rel (DRecvAio i)) [0..<DISPATCH_RECV_POOL] @ [Rel DSigAio]
     @ [Rel DTemplate, Rel DResetBuf, Rel DCv, Rel DMtx, Rel DState]"

text \<open>
  The entry point. At \<^verbatim>\<open>fail_live:\<close> no receive has been started, so that the reply holders are all in the
  pool, the last one first.
\<close>

definition dispatcher_start_calls ::
  "bool \<Rightarrow> bool \<Rightarrow> (disp_call \<Rightarrow> int) \<Rightarrow> bool \<Rightarrow> disp_effects \<times> unit answer" where
  "dispatcher_start_calls handle_ok state_ok ans tls =
     (if \<not> handle_ok then ([], Condition 2)
      else if \<not> state_ok then ([Acq DHandle, Rel DHandle], Condition 2)
      else
        (let (es, xc) = chain_calls (start_chain ans tls) in
         if xc \<noteq> 0 then ([Acq DHandle, Acq DState] @ es @ start_fail es, Condition xc)
         else
           (let (fs, xc) = chain_calls (live_chain ans) in
            if xc \<noteq> 0 then ([Acq DHandle, Acq DState] @ es @ fs
                    @ shutdown_parts fs (rev [0..<DISPATCH_REPLY_POOL]) @ [Rel DHandle], Condition xc)
            else ([Acq DHandle, Acq DState] @ es @ fs, Given ()))))"

section \<open>Stopping\<close>

text \<open>
  The handle as \<open>rnng_dispatcher_stop\<close> and the finalizer see it: \<open>owns_resources\<close>, and whether the tag of
  the pointer is still there. Both release; only the finalizer frees the handle. \<open>es\<close> is what the start
  has done, \<open>rs\<close> the reply holders at that time.
\<close>

record disp_handle =
  owns_resources :: bool
  tagged :: bool

definition dispatcher_handle_release :: "disp_effects \<Rightarrow> nat list \<Rightarrow> disp_handle \<Rightarrow> disp_effects \<times> disp_handle" where
  "dispatcher_handle_release es rs h =
     (if \<not> owns_resources h then ([], h) else (shutdown_parts es rs, h\<lparr>owns_resources := False\<rparr>))"

definition rnng_dispatcher_stop :: "disp_effects \<Rightarrow> nat list \<Rightarrow> disp_handle \<Rightarrow> disp_effects \<times> disp_handle" where
  "rnng_dispatcher_stop es rs h =
     (if \<not> tagged h then ([], h)
      else (let (fs, h') = dispatcher_handle_release es rs h in (fs, h'\<lparr>tagged := False\<rparr>)))"

definition dispatcher_handle_finalizer :: "disp_effects \<Rightarrow> nat list \<Rightarrow> disp_handle \<Rightarrow> disp_effects" where
  "dispatcher_handle_finalizer es rs h = fst (dispatcher_handle_release es rs h) @ [Rel DHandle]"

text \<open>\<open>n\<close> stops, and then the finalizer.\<close>

fun stop_times :: "disp_effects \<Rightarrow> nat list \<Rightarrow> nat \<Rightarrow> disp_handle \<Rightarrow> disp_effects" where
  "stop_times es rs 0 h = dispatcher_handle_finalizer es rs h"
| "stop_times es rs (Suc n) h = (let (fs, h') = rnng_dispatcher_stop es rs h in fs @ stop_times es rs n h')"

section \<open>Accounts\<close>

definition start_parts :: "disp_obj list" where
  "start_parts = [DMtx, DCv, DResetBuf, DTemplate, DSlots, DHostAio, DSigAio] @ map DRecvAio [0..<DISPATCH_RECV_POOL]
     @ concat (map (\<lambda>i. [DReply i, DReplyAio i]) [0..<DISPATCH_REPLY_POOL]) @ [DPoly]"

lemmas pools = DISPATCH_RECV_POOL_def DISPATCH_REPLY_POOL_def

lemma acqs_start: "acqs (map fst (start_chain ans tls)) = start_parts"
  by (simp add: start_chain_def start_parts_def reply_ops_def acquire_def ask_def pools upt_rec)

lemma gone_start: "\<forall>c \<in> set (start_chain ans tls). gone [fst c] = []"
  by (auto simp: start_chain_def reply_ops_def acquire_def ask_def)

lemma distinct_start: "distinct start_parts"
  by (simp add: start_parts_def pools upt_rec)

text \<open>What comes before something in a list that has been run through to it, has been reached as well.\<close>

lemma take_before:
  assumes "distinct (ys @ a # b # zs)" "b \<in> set (take n (ys @ a # b # zs))"
  shows "a \<in> set (take n (ys @ a # b # zs))"
proof (cases "n \<le> length ys + 1")
  case True
  then have "set (take n (ys @ a # b # zs)) \<subseteq> set ys \<union> {a}"
    by (auto simp: take_Cons' dest: in_set_takeD split: if_splits)
  then show ?thesis
    using assms by auto
next
  case False
  then show ?thesis
    by (auto simp: take_Cons')
qed

lemma reply_order: "i < DISPATCH_REPLY_POOL \<Longrightarrow> \<exists>ys zs. start_parts = ys @ DReply i # DReplyAio i # zs"
proof -
  assume "i < DISPATCH_REPLY_POOL"
  then obtain ys zs where "[0..<DISPATCH_REPLY_POOL] = ys @ i # zs"
    using split_list [of i "[0..<DISPATCH_REPLY_POOL]"] by auto
  moreover define pre where "pre = [DMtx, DCv, DResetBuf, DTemplate, DSlots, DHostAio, DSigAio] @ map DRecvAio [0..<DISPATCH_RECV_POOL]"
  ultimately have "start_parts = (pre @ concat (map (\<lambda>i. [DReply i, DReplyAio i]) ys)) @ DReply i # DReplyAio i
      # (concat (map (\<lambda>i. [DReply i, DReplyAio i]) zs) @ [DPoly])"
    by (simp add: start_parts_def)
  then show ?thesis
    by blast
qed

lemma start_chain_facts:
  assumes "chain_calls (start_chain ans tls) = (es, xc)"
  shows "gone es = []" "distinct (acqs es)" "set (acqs es) \<subseteq> set start_parts"
    "i < DISPATCH_REPLY_POOL \<Longrightarrow> Acq (DReplyAio i) \<in> set es \<Longrightarrow> Acq (DReply i) \<in> set es"
    "xc = 0 \<Longrightarrow> acqs es = start_parts"
proof -
  obtain n where n: "acqs es = take n start_parts"
    using chain_prefix [of "start_chain ans tls"] assms by (auto simp: acqs_start)
  show "gone es = []"
    using chain_gone [OF gone_start, of ans tls] assms by simp
  show "distinct (acqs es)" "set (acqs es) \<subseteq> set start_parts"
    using distinct_start by (simp_all add: n set_take_subset)
  show "i < DISPATCH_REPLY_POOL \<Longrightarrow> Acq (DReplyAio i) \<in> set es \<Longrightarrow> Acq (DReply i) \<in> set es"
  proof -
    assume "i < DISPATCH_REPLY_POOL" and aio: "Acq (DReplyAio i) \<in> set es"
    then obtain ys zs where p: "start_parts = ys @ DReply i # DReplyAio i # zs"
      using reply_order by blast
    have "DReplyAio i \<in> set (take n start_parts)"
      using aio n acqs_iff by metis
    then show "Acq (DReply i) \<in> set es"
      using take_before [of ys "DReply i" "DReplyAio i" zs n] distinct_start p n acqs_iff by metis
  qed
  show "xc = 0 \<Longrightarrow> acqs es = start_parts"
    using chain_ok [of "start_chain ans tls"] assms acqs_start by simp
qed

lemma gone_stop_free [simp]: "gone (stop_free es x) = (if Acq x \<in> set es then [x] else [])"
  and acqs_stop_free [simp]: "acqs (stop_free es x) = []"
  by (simp_all add: stop_free_def)

lemma gone_stop_free_all:
  "gone (concat (map (\<lambda>i. stop_free es (f i)) xs)) = filter (\<lambda>x. Acq x \<in> set es) (map f xs)"
  "acqs (concat (map (\<lambda>i. stop_free es (f i)) xs)) = []"
  by (induction xs) auto

text \<open>A reply holder is freed on the way or off the list.\<close>

lemma replies_freed:
  fixes es :: disp_effects
  assumes "\<And>i. i \<in> set xs \<Longrightarrow> Acq (DReplyAio i) \<in> set es \<Longrightarrow> Acq (DReply i) \<in> set es"
  shows "mset (gone (concat (map (\<lambda>i. if Acq (DReply i) \<in> set es \<and> Acq (DReplyAio i) \<notin> set es then [Rel (DReply i)] else []) xs) :: disp_effects))
      + mset (gone (concat (map (\<lambda>i. if Acq (DReplyAio i) \<in> set es then [Rel (DReplyAio i), Rel (DReply i)] else []) (rev xs)) :: disp_effects))
    = mset (filter (\<lambda>x. Acq x \<in> set es) (concat (map (\<lambda>i. [DReply i, DReplyAio i]) xs)))"
  using assms by (induction xs) auto

lemma no_acqs: "(\<And>x. x \<in> set xs \<Longrightarrow> acqs (f x) = []) \<Longrightarrow> acqs (concat (map f xs)) = []"
  by (induction xs) auto

lemma gone_start_fail:
  assumes "\<And>i. i < DISPATCH_REPLY_POOL \<Longrightarrow> Acq (DReplyAio i) \<in> set es \<Longrightarrow> Acq (DReply i) \<in> set es"
  shows "mset (gone (start_fail es)) = mset (filter (\<lambda>x. Acq x \<in> set es) start_parts) + {#DState, DHandle#}"
proof -
  define P where "P = filter (\<lambda>x. Acq x \<in> set es)"
  let ?r1 = "mset (gone (concat (map (\<lambda>i. if Acq (DReply i) \<in> set es \<and> Acq (DReplyAio i) \<notin> set es then [Rel (DReply i)] else []) [0..<DISPATCH_REPLY_POOL]) :: disp_effects))"
  let ?r2 = "mset (gone (concat (map (\<lambda>i. if Acq (DReplyAio i) \<in> set es then [Rel (DReplyAio i), Rel (DReply i)] else []) (rev [0..<DISPATCH_REPLY_POOL])) :: disp_effects))"
  let ?r = "mset (P (concat (map (\<lambda>i. [DReply i, DReplyAio i]) [0..<DISPATCH_REPLY_POOL])))"
  have r: "?r1 + ?r2 = ?r"
    unfolding P_def using assms by (intro replies_freed) auto
  have P: "gone (free_if es x) = P [x]" "gone (stop_free es x) = P [x]"
    "gone (concat (map (\<lambda>i. stop_free es (f i)) ns)) = P (map f ns)"
    "P (x # y # xs) = P [x] @ P (y # xs)" "P (xs @ ys) = P xs @ P ys" for x y xs ys and f :: "nat \<Rightarrow> disp_obj" and ns
    by (simp_all add: P_def gone_stop_free_all)
  have "mset (gone (start_fail es)) = (?r1 + ?r2) + mset (P [DMtx, DCv, DResetBuf, DTemplate, DSlots, DHostAio, DSigAio])
      + mset (P (map DRecvAio [0..<DISPATCH_RECV_POOL])) + mset (P [DPoly]) + {#DState, DHandle#}"
    unfolding start_fail_def gone_append mset_append P by (simp add: P(3,4) del: gone_stop_free gone_free_if)
  then show ?thesis
    unfolding r P_def [symmetric] start_parts_def P(5) mset_append by (simp add: ac_simps)
qed

lemma acqs_start_fail: "acqs (start_fail es) = []"
  unfolding start_fail_def by (simp add: gone_stop_free_all no_acqs)

text \<open>The shutdown gives up everything, in whatever order the reply holders stand on the lists.\<close>

lemma gone_replies:
  "mset (gone (concat (map (\<lambda>i. [Rel (DReplyAio i), Rel (DReply i)]) rs) :: disp_effects))
     = (\<Sum>i\<in>#mset rs. {#DReply i, DReplyAio i#})"
  by (induction rs) auto

lemma parts_replies: "mset (concat (map (\<lambda>i. [DReply i, DReplyAio i]) rs)) = (\<Sum>i\<in>#mset rs. {#DReply i, DReplyAio i#})"
  by (induction rs) auto

lemma gone_map_rel: "gone (map (\<lambda>i. Rel (f i)) xs) = map f xs" "gone (map (\<lambda>i. Do (g i)) xs) = []"
  "acqs (map (\<lambda>i. Rel (f i)) xs) = []" "acqs (map (\<lambda>i. Do (g i)) xs) = []"
  by (induction xs) auto

lemma gone_shutdown_parts:
  assumes "mset rs = mset [0..<DISPATCH_REPLY_POOL]"
  shows "mset (gone (shutdown_parts es rs)) =
    mset start_parts + mset (filter (\<lambda>x. Acq x \<in> set es) [DRep, DHostCtx]) + {#DState#}"
proof -
  have "(\<Sum>i\<in>#mset rs. {#DReply i, DReplyAio i#}) = mset (concat (map (\<lambda>i. [DReply i, DReplyAio i]) [0..<DISPATCH_REPLY_POOL]))"
    unfolding parts_replies assms ..
  then show ?thesis
    unfolding shutdown_parts_def start_parts_def
    by (simp add: gone_replies gone_map_rel ac_simps)
qed

lemma acqs_shutdown_parts: "acqs (shutdown_parts es rs) = []"
  by (simp add: shutdown_parts_def no_acqs gone_map_rel)

lemma live_chain_facts:
  assumes "chain_calls (live_chain ans) = (fs, xc)"
  shows "gone fs = []" "distinct (acqs fs)" "set (acqs fs) \<subseteq> {DRep, DHostCtx}"
proof -
  have acqs: "acqs (map fst (live_chain ans)) = [DRep, DHostCtx]"
    by (simp add: live_chain_def acquire_def ask_def)
  have "\<forall>c \<in> set (live_chain ans). gone [fst c] = []"
    by (auto simp: live_chain_def acquire_def ask_def)
  then show "gone fs = []"
    using chain_gone [of "live_chain ans"] assms by simp
  show "distinct (acqs fs)"
    using chain_distinct [of "live_chain ans"] assms acqs by simp
  show "set (acqs fs) \<subseteq> {DRep, DHostCtx}"
    using chain_subset [of "live_chain ans"] assms acqs by simp
qed

lemma live_filter:
  assumes "distinct (acqs fs)" "set (acqs fs) \<subseteq> {DRep, DHostCtx}"
  shows "mset (filter (\<lambda>x. Acq x \<in> set fs) [DRep, DHostCtx]) = mset (acqs fs)"
proof -
  have "set (acqs fs) \<subseteq> set [DRep, DHostCtx]"
    using assms(2) by simp
  then show ?thesis
    using mset_filter_subset [OF assms(1), of "[DRep, DHostCtx]"] by (simp only: acqs_iff) simp
qed

lemma stop_times_after: "\<not> owns_resources h \<Longrightarrow> \<not> tagged h \<Longrightarrow> stop_times es rs n h = [Rel DHandle]"
  by (induction n) (simp_all add: rnng_dispatcher_stop_def dispatcher_handle_finalizer_def dispatcher_handle_release_def)

lemma stop_times_all: "owns_resources h \<Longrightarrow> tagged h \<Longrightarrow> stop_times es rs n h = shutdown_parts es rs @ [Rel DHandle]"
  by (cases n) (auto simp: rnng_dispatcher_stop_def dispatcher_handle_finalizer_def dispatcher_handle_release_def
      stop_times_after)

text \<open>
  Starting a dispatcher leaves nothing behind when it fails, at whichever call, and one that has started is
  given up completely by its finalizer, however often it has been stopped before, once.
\<close>

lemma start_failed_early:
  assumes "chain_calls (start_chain ans tls) = (es, xc)"
  shows "owns ([Acq DHandle, Acq DState] @ es @ start_fail es) []"
proof -
  note facts = start_chain_facts [OF assms]
  have "owns (([Acq DHandle, Acq DState] @ es) @ start_fail es) []"
  proof (rule owns_split)
    show "mset (acqs ([Acq DHandle, Acq DState] @ es)) = mset (gone (start_fail es)) + mset []"
      using gone_start_fail [of es] facts(4) mset_filter_subset [OF facts(2) distinct_start facts(3)]
      by (simp add: acqs_iff)
  qed (use facts in \<open>simp_all add: acqs_start_fail\<close>)
  then show ?thesis
    by simp
qed

lemma start_released:
  assumes "chain_calls (start_chain ans tls) = (es, 0)" "chain_calls (live_chain ans) = (fs, xc)"
    and "mset rs = mset [0..<DISPATCH_REPLY_POOL]" "\<And>x. x \<in> {DRep, DHostCtx} \<Longrightarrow> Acq x \<in> set gs \<longleftrightarrow> Acq x \<in> set fs"
  shows "owns (([Acq DHandle, Acq DState] @ es @ fs) @ shutdown_parts gs rs @ [Rel DHandle]) []"
proof (rule owns_split)
  note facts = start_chain_facts [OF assms(1)] live_chain_facts [OF assms(2)]
  show "gone ([Acq DHandle, Acq DState] @ es @ fs) = []" "acqs (shutdown_parts gs rs @ [Rel DHandle]) = []"
    using facts by (simp_all add: acqs_shutdown_parts)
  have "filter (\<lambda>x. Acq x \<in> set gs) [DRep, DHostCtx] = filter (\<lambda>x. Acq x \<in> set fs) [DRep, DHostCtx]"
    using assms(4) by simp
  then show "mset (acqs ([Acq DHandle, Acq DState] @ es @ fs)) = mset (gone (shutdown_parts gs rs @ [Rel DHandle])) + mset []"
    using facts(5) live_filter [OF facts(7,8)] gone_shutdown_parts [OF assms(3), of gs] by (simp del: filter.simps)
qed



end
