(* ===== verification/NngMsg.thy ===== *)
theory NngMsg
  imports Serial Effects
begin

text \<open>
  The messages of the bundled NNG (\<^verbatim>\<open>nng/src/core/message.c\<close>): a body in a buffer with room in front of
  it and behind it, a header of at most 16 words, and a reference count. nanonext installs its own buffers
  in the body (\<open>nano_msg_set_body\<close>); the inproc transport, which connects a dispatcher with its host,
  pulls the header up into that room.

  Pointers are offsets into the buffer; a fresh or freed body, whose pointers are \<open>NULL\<close>, has the capacity
  0, which is how the code tells it. Sizes are \<open>size_t\<close>. \<open>mem n\<close> says whether \<open>n\<close> bytes can be had.
\<close>

section \<open>Bodies\<close>

abbreviation szt :: "nat \<Rightarrow> nat" where
  "szt n \<equiv> n mod 2 ^ 64"

definition nni_zalloc :: "(nat \<Rightarrow> bool) \<Rightarrow> nat \<Rightarrow> byte list option" where
  "nni_zalloc mem n = (if n > 0 \<and> mem n then Some (replicate n 0) else None)"

definition nni_chunk_grow :: "(nat \<Rightarrow> bool) \<Rightarrow> nng_chunk \<Rightarrow> nat \<Rightarrow> nat \<Rightarrow> nng_chunk \<times> int" where
  "nni_chunk_grow mem ch newsz headwanted =
     (let newsz = (if newsz < ch_len ch then ch_len ch else newsz) in
      if ch_ptr ch < ch_cap ch then
        (let headroom = ch_ptr ch;
             headwanted = (if headwanted < headroom then headroom else headwanted)
         in if szt (newsz + headwanted) \<le> ch_cap ch \<and> headwanted \<le> headroom then (ch, 0)
            else
              (let newsz = (if newsz < ch_cap ch - headroom then ch_cap ch - headroom else newsz) in
               case nni_zalloc mem (szt (newsz + headwanted)) of
                 None \<Rightarrow> (ch, NNG_ENOMEM)
               | Some newbuf \<Rightarrow>
                   (ch\<lparr>ch_buf := (if ch_len ch > 0 then put_at headwanted (chunk_body ch) newbuf else newbuf),
                       ch_ptr := headwanted, ch_cap := szt (newsz + headwanted)\<rparr>, 0)))
      else if szt (newsz + headwanted) \<ge> ch_cap ch then
        (case nni_zalloc mem (szt (newsz + headwanted)) of
           None \<Rightarrow> (ch, NNG_ENOMEM)
         | Some newbuf \<Rightarrow>
             (ch\<lparr>ch_cap := szt (newsz + headwanted), ch_buf := newbuf, ch_ptr := headwanted\<rparr>, 0))
      else (ch\<lparr>ch_ptr := headwanted\<rparr>, 0))"

definition nni_chunk_free :: "nng_chunk \<Rightarrow> nng_chunk" where
  "nni_chunk_free ch = \<lparr>ch_cap = 0, ch_len = 0, ch_buf = [], ch_ptr = 0\<rparr>"

definition nni_chunk_clear :: "nng_chunk \<Rightarrow> nng_chunk" where
  "nni_chunk_clear ch = ch\<lparr>ch_len := 0\<rparr>"

definition nni_chunk_chop :: "nng_chunk \<Rightarrow> nat \<Rightarrow> nng_chunk \<times> int" where
  "nni_chunk_chop ch len =
     (if ch_len ch < len then (ch, NNG_EINVAL) else (ch\<lparr>ch_len := ch_len ch - len\<rparr>, 0))"

definition nni_chunk_trim :: "nng_chunk \<Rightarrow> nat \<Rightarrow> nng_chunk \<times> int" where
  "nni_chunk_trim ch len =
     (if ch_len ch < len then (ch, NNG_EINVAL)
      else (let ch = ch\<lparr>ch_len := ch_len ch - len\<rparr> in
            (if ch_len ch \<noteq> 0 then ch\<lparr>ch_ptr := ch_ptr ch + len\<rparr> else ch, 0)))"

definition nni_chunk_dup :: "(nat \<Rightarrow> bool) \<Rightarrow> nng_chunk \<Rightarrow> nng_chunk option" where
  "nni_chunk_dup mem src =
     (case nni_zalloc mem (ch_cap src) of
        None \<Rightarrow> None
      | Some buf \<Rightarrow>
          Some (src\<lparr>ch_buf := (if ch_len src > 0 then put_at (ch_ptr src) (chunk_body src) buf else buf)\<rparr>))"

text \<open>
  \<open>data\<close> may be \<open>NULL\<close>: then only the length changes. \<open>len\<close> is the length given, which is that of the data
  if there are any.
\<close>

definition nni_chunk_append :: "(nat \<Rightarrow> bool) \<Rightarrow> nng_chunk \<Rightarrow> byte list option \<Rightarrow> nat \<Rightarrow> nng_chunk \<times> int" where
  "nni_chunk_append mem ch data len =
     (if len = 0 then (ch, 0)
      else (case nni_chunk_grow mem ch (szt (len + ch_len ch)) 0 of
              (ch, rv) \<Rightarrow>
                (if rv \<noteq> 0 then (ch, rv)
                 else (ch\<lparr>ch_buf := (case data of None \<Rightarrow> ch_buf ch
                                     | Some bs \<Rightarrow> put_at (ch_ptr ch + ch_len ch) bs (ch_buf ch)),
                          ch_len := szt (ch_len ch + len)\<rparr>, 0))))"

definition nni_chunk_room :: "nng_chunk \<Rightarrow> nat" where
  "nni_chunk_room ch = ch_cap ch - ch_len ch"

text \<open>Where the body starts when it is moved within its buffer: in the middle, on a multiple of 8.\<close>

definition insert_shift :: "nng_chunk \<Rightarrow> nat \<Rightarrow> nat" where
  "insert_shift ch len = ((ch_cap ch - (ch_len ch + len)) div 2 + 7) div 8 * 8"

definition nni_chunk_insert :: "(nat \<Rightarrow> bool) \<Rightarrow> nng_chunk \<Rightarrow> byte list \<Rightarrow> nng_chunk \<times> int" where
  "nni_chunk_insert mem ch data =
     (let len = length data;
          put = (\<lambda>ch. (ch\<lparr>ch_len := ch_len ch + len, ch_buf := put_at (ch_ptr ch) data (ch_buf ch)\<rparr>, 0));
          grow = (case nni_chunk_grow mem ch 0 len of
                    (ch, rv) \<Rightarrow> if rv = 0 then put (ch\<lparr>ch_ptr := ch_ptr ch - len\<rparr>) else (ch, rv))
      in if ch_ptr ch < ch_cap ch then
           (if len \<le> ch_ptr ch then put (ch\<lparr>ch_ptr := ch_ptr ch - len\<rparr>)
            else if ch_len ch + len + 8 \<le> ch_cap ch then
              put (ch\<lparr>ch_buf := put_at (insert_shift ch len) (chunk_body ch) (ch_buf ch),
                      ch_ptr := insert_shift ch len\<rparr>)
            else grow)
         else grow)"

definition be32 :: "byte list \<Rightarrow> 32 word" where
  "be32 bs = (let b = (\<lambda>i. ucast (bs ! i)) in
     push_bit 24 (b 0) + push_bit 16 (b 1) + push_bit 8 (b 2) + b 3)"

definition put32 :: "32 word \<Rightarrow> byte list" where
  "put32 u = [ucast (drop_bit 24 u), ucast (drop_bit 16 u), ucast (drop_bit 8 u), ucast u]"

text \<open>\<open>NNI_ASSERT\<close> and \<open>nni_panic\<close> end the process: the result is \<open>None\<close>.\<close>

definition nni_chunk_trim_u32 :: "nng_chunk \<Rightarrow> (nng_chunk \<times> 32 word) option" where
  "nni_chunk_trim_u32 ch =
     (if ch_len ch < 4 then None else Some (fst (nni_chunk_trim ch 4), be32 (chunk_body ch)))"

section \<open>Messages\<close>

definition NNI_MAX_MAX_TTL :: nat where "NNI_MAX_MAX_TTL = 15"

definition header_size :: nat where
  "header_size = (NNI_MAX_MAX_TTL + 1) * 4"

lemma header_size [simp]: "header_size = 64"
  by (simp add: header_size_def NNI_MAX_MAX_TTL_def)

text \<open>The header is kept as the bytes of its buffer, all 64 of them, of which \<open>m_header_len\<close> are in use.\<close>

record nng_msg =
  m_header_buf :: "byte list"
  m_header_len :: nat
  m_body :: nng_chunk
  m_pipe :: "32 word"
  m_refcnt :: int

definition nni_msg_header :: "nng_msg \<Rightarrow> byte list" where
  "nni_msg_header m = take (m_header_len m) (m_header_buf m)"

definition nni_msg_body :: "nng_msg \<Rightarrow> byte list" where
  "nni_msg_body m = chunk_body (m_body m)"

definition nni_msg_len :: "nng_msg \<Rightarrow> nat" where
  "nni_msg_len m = ch_len (m_body m)"

definition nni_msg_capacity :: "nng_msg \<Rightarrow> nat" where
  "nni_msg_capacity m = ch_cap (m_body m) - ch_ptr (m_body m)"

text \<open>A structure from \<open>NNI_ALLOC_STRUCT\<close>; \<open>sok\<close>: it could be had.\<close>

definition msg_struct :: nng_msg where
  "msg_struct = \<lparr>m_header_buf = replicate header_size 0, m_header_len = 0,
     m_body = \<lparr>ch_cap = 0, ch_len = 0, ch_buf = [], ch_ptr = 0\<rparr>, m_pipe = 0, m_refcnt = 0\<rparr>"

definition power_of_two :: "nat \<Rightarrow> bool" where
  "power_of_two n \<longleftrightarrow> and n (n - 1) = 0"

definition nni_msg_alloc :: "bool \<Rightarrow> (nat \<Rightarrow> bool) \<Rightarrow> nat \<Rightarrow> int + nng_msg" where
  "nni_msg_alloc sok mem sz =
     (if sz > 0x0fffffffffffffff then Inl NNG_EMSGSIZE
      else if \<not> sok then Inl NNG_ENOMEM
      else
        (case (if sz < 1024 \<or> \<not> power_of_two sz then nni_chunk_grow mem (m_body msg_struct) (sz + 32) 32
               else nni_chunk_grow mem (m_body msg_struct) sz 0) of
           (ch, rv) \<Rightarrow>
             (if rv \<noteq> 0 then Inl rv
              else Inr (msg_struct\<lparr>m_body := fst (nni_chunk_append mem ch None sz), m_refcnt := 1\<rparr>))))"

definition nni_msg_dup :: "bool \<Rightarrow> (nat \<Rightarrow> bool) \<Rightarrow> nng_msg \<Rightarrow> int + nng_msg" where
  "nni_msg_dup sok mem src =
     (if \<not> sok then Inl NNG_ENOMEM
      else (case nni_chunk_dup mem (m_body src) of
              None \<Rightarrow> Inl NNG_ENOMEM
            | Some ch \<Rightarrow>
                Inr \<lparr>m_header_buf = put_at 0 (nni_msg_header src) (replicate header_size 0),
                     m_header_len = m_header_len src, m_body = ch, m_pipe = m_pipe src, m_refcnt = 1\<rparr>))"

text \<open>\<open>None\<close>: the last reference is gone and the message with it.\<close>

definition nni_msg_free :: "nng_msg \<Rightarrow> nng_msg option" where
  "nni_msg_free m = (if m_refcnt m - 1 = 0 then None else Some (m\<lparr>m_refcnt := m_refcnt m - 1\<rparr>))"

definition nni_msg_clone :: "nng_msg \<Rightarrow> nng_msg" where
  "nni_msg_clone m = m\<lparr>m_refcnt := m_refcnt m + 1\<rparr>"

definition nni_msg_shared :: "nng_msg \<Rightarrow> bool" where
  "nni_msg_shared m \<longleftrightarrow> m_refcnt m > 1"

text \<open>The message to go on with, if it could be copied, and what is left of the one given.\<close>

definition nni_msg_unique :: "bool \<Rightarrow> (nat \<Rightarrow> bool) \<Rightarrow> nng_msg \<Rightarrow> nng_msg option \<times> nng_msg option" where
  "nni_msg_unique sok mem m =
     (if m_refcnt m = 1 then (Some m, None)
      else (case nni_msg_dup sok mem m of Inl _ \<Rightarrow> None | Inr m2 \<Rightarrow> Some m2, nni_msg_free m))"

definition nni_msg_header_clear :: "nng_msg \<Rightarrow> nng_msg" where
  "nni_msg_header_clear m = m\<lparr>m_header_len := 0\<rparr>"

definition nni_msg_insert :: "(nat \<Rightarrow> bool) \<Rightarrow> nng_msg \<Rightarrow> byte list \<Rightarrow> nng_msg \<times> int" where
  "nni_msg_insert mem m data =
     (let (ch, rv) = nni_chunk_insert mem (m_body m) data in (m\<lparr>m_body := ch\<rparr>, rv))"

definition nni_msg_pull_up :: "bool \<Rightarrow> (nat \<Rightarrow> bool) \<Rightarrow> nng_msg \<Rightarrow> nng_msg option" where
  "nni_msg_pull_up sok mem m =
     (if nni_chunk_room (m_body m) < m_header_len m \<or> m_refcnt m \<noteq> 1 then
        (case nni_msg_alloc sok mem (nni_msg_len m + m_header_len m) of
           Inl _ \<Rightarrow> None
         | Inr m2 \<Rightarrow>
             Some (m2\<lparr>m_body := (m_body m2)\<lparr>ch_buf :=
               put_at (ch_ptr (m_body m2)) (nni_msg_header m @ nni_msg_body m) (ch_buf (m_body m2))\<rparr>\<rparr>))
      else Some (nni_msg_header_clear (fst (nni_msg_insert mem m (nni_msg_header m)))))"

definition nni_msg_append :: "(nat \<Rightarrow> bool) \<Rightarrow> nng_msg \<Rightarrow> byte list \<Rightarrow> nng_msg \<times> int" where
  "nni_msg_append mem m data =
     (let (ch, rv) = nni_chunk_append mem (m_body m) (Some data) (length data) in (m\<lparr>m_body := ch\<rparr>, rv))"

definition nni_msg_realloc :: "(nat \<Rightarrow> bool) \<Rightarrow> nng_msg \<Rightarrow> nat \<Rightarrow> nng_msg \<times> int" where
  "nni_msg_realloc mem m sz =
     (if nni_msg_len m < sz then
        (let (ch, rv) = nni_chunk_append mem (m_body m) None (sz - nni_msg_len m) in (m\<lparr>m_body := ch\<rparr>, rv))
      else (m\<lparr>m_body := fst (nni_chunk_chop (m_body m) (nni_msg_len m - sz))\<rparr>, 0))"

definition nni_msg_reserve :: "(nat \<Rightarrow> bool) \<Rightarrow> nng_msg \<Rightarrow> nat \<Rightarrow> nng_msg \<times> int" where
  "nni_msg_reserve mem m capacity =
     (let (ch, rv) = nni_chunk_grow mem (m_body m) capacity 0 in (m\<lparr>m_body := ch\<rparr>, rv))"

definition nni_msg_trim :: "nng_msg \<Rightarrow> nat \<Rightarrow> nng_msg \<times> int" where
  "nni_msg_trim m len = (let (ch, rv) = nni_chunk_trim (m_body m) len in (m\<lparr>m_body := ch\<rparr>, rv))"

definition nni_msg_trim_u32 :: "nng_msg \<Rightarrow> (nng_msg \<times> 32 word) option" where
  "nni_msg_trim_u32 m = map_option (\<lambda>(ch, v). (m\<lparr>m_body := ch\<rparr>, v)) (nni_chunk_trim_u32 (m_body m))"

definition nni_msg_chop :: "nng_msg \<Rightarrow> nat \<Rightarrow> nng_msg \<times> int" where
  "nni_msg_chop m len = (let (ch, rv) = nni_chunk_chop (m_body m) len in (m\<lparr>m_body := ch\<rparr>, rv))"

definition nni_msg_clear :: "nng_msg \<Rightarrow> nng_msg" where
  "nni_msg_clear m = m\<lparr>m_body := nni_chunk_clear (m_body m)\<rparr>"

section \<open>Headers\<close>

definition nni_msg_header_append :: "nng_msg \<Rightarrow> byte list \<Rightarrow> nng_msg \<times> int" where
  "nni_msg_header_append m data =
     (if length data + m_header_len m > header_size then (m, NNG_EINVAL)
      else (m\<lparr>m_header_buf := put_at (m_header_len m) data (m_header_buf m),
              m_header_len := m_header_len m + length data\<rparr>, 0))"

definition nni_msg_header_insert :: "nng_msg \<Rightarrow> byte list \<Rightarrow> nng_msg \<times> int" where
  "nni_msg_header_insert m data =
     (if length data + m_header_len m > header_size then (m, NNG_EINVAL)
      else (m\<lparr>m_header_buf := put_at 0 data (put_at (length data) (nni_msg_header m) (m_header_buf m)),
              m_header_len := m_header_len m + length data\<rparr>, 0))"

definition nni_msg_header_trim :: "nng_msg \<Rightarrow> nat \<Rightarrow> nng_msg \<times> int" where
  "nni_msg_header_trim m len =
     (if len > m_header_len m then (m, NNG_EINVAL)
      else (m\<lparr>m_header_buf := put_at 0 (take (m_header_len m - len) (drop len (m_header_buf m))) (m_header_buf m),
              m_header_len := m_header_len m - len\<rparr>, 0))"

definition nni_msg_header_chop :: "nng_msg \<Rightarrow> nat \<Rightarrow> nng_msg \<times> int" where
  "nni_msg_header_chop m len =
     (if len > m_header_len m then (m, NNG_EINVAL)
      else (m\<lparr>m_header_len := m_header_len m - len\<rparr>, 0))"

text \<open>A header shorter than a word is not checked for: its length would wrap, which ends in \<open>memmove\<close>.\<close>

definition nni_msg_header_trim_u32 :: "nng_msg \<Rightarrow> (nng_msg \<times> 32 word) option" where
  "nni_msg_header_trim_u32 m =
     (if m_header_len m < 4 then None
      else Some (m\<lparr>m_header_buf := put_at 0 (take (m_header_len m - 4) (drop 4 (m_header_buf m))) (m_header_buf m),
                   m_header_len := m_header_len m - 4\<rparr>, be32 (m_header_buf m)))"

definition nni_msg_header_append_u32 :: "nng_msg \<Rightarrow> 32 word \<Rightarrow> nng_msg option" where
  "nni_msg_header_append_u32 m v =
     (if m_header_len m + 4 \<ge> header_size then None
      else Some (m\<lparr>m_header_buf := put_at (m_header_len m) (put32 v) (m_header_buf m),
                   m_header_len := m_header_len m + 4\<rparr>))"

definition nni_msg_header_peek_u32 :: "nng_msg \<Rightarrow> 32 word" where
  "nni_msg_header_peek_u32 m = be32 (m_header_buf m)"

definition nni_msg_header_poke_u32 :: "nng_msg \<Rightarrow> 32 word \<Rightarrow> nng_msg" where
  "nni_msg_header_poke_u32 m v = m\<lparr>m_header_buf := put_at 0 (put32 v) (m_header_buf m)\<rparr>"

definition nni_msg_set_pipe :: "nng_msg \<Rightarrow> 32 word \<Rightarrow> nng_msg" where
  "nni_msg_set_pipe m pid = m\<lparr>m_pipe := pid\<rparr>"

section \<open>What the operations do to a body\<close>

definition chunk_ok :: "nng_chunk \<Rightarrow> bool" where
  "chunk_ok ch \<longleftrightarrow> ch_ptr ch + ch_len ch \<le> ch_cap ch \<and> ch_cap ch \<le> length (ch_buf ch)"

lemma length_chunk_body [simp]: "chunk_ok ch \<Longrightarrow> length (chunk_body ch) = ch_len ch"
  by (auto simp: chunk_ok_def chunk_body_def min_def)

lemma put_at_inside [simp]: "length (put_at p bs buf) = max (p + length bs) (length buf)" if "p \<le> length buf"
  using that by (simp add: put_at_def)

lemma take_drop_put_at: "p \<le> length buf \<Longrightarrow> take (length bs) (drop p (put_at p bs buf)) = bs"
  by (simp add: put_at_def)

lemma take_drop_put_behind:
  "p + n \<le> length buf \<Longrightarrow> take (n + length bs) (drop p (put_at (p + n) bs buf)) = take n (drop p buf) @ bs"
  by (simp add: put_at_def drop_take)

lemma drop_put_before:
  "p + length bs \<le> length buf \<Longrightarrow> take (length bs + n) (drop p (put_at p bs buf)) = bs @ take n (drop (p + length bs) buf)"
  by (simp add: put_at_def)

lemma chunk_empty: "chunk_ok ch \<Longrightarrow> \<not> ch_ptr ch < ch_cap ch \<Longrightarrow> ch_len ch = 0 \<and> ch_ptr ch = ch_cap ch"
  by (simp add: chunk_ok_def)

lemma zalloc_Some: "nni_zalloc mem n = Some buf \<longleftrightarrow> n > 0 \<and> mem n \<and> buf = replicate n 0"
  by (auto simp: nni_zalloc_def)

lemma grow_ok:
  assumes "chunk_ok ch" "nni_chunk_grow mem ch newsz hw = (ch', 0)" "ch_cap ch + newsz + hw < 2 ^ 64"
  shows "chunk_ok ch' \<and> chunk_body ch' = chunk_body ch \<and> ch_len ch' = ch_len ch
    \<and> ch_ptr ch' + max newsz (ch_len ch) \<le> ch_cap ch' \<and> ch_ptr ch' \<ge> hw
    \<and> ch_ptr ch' + ch_cap ch' \<le> ch_cap ch + ch_ptr ch + newsz + 2 * hw"
proof (cases "ch_ptr ch < ch_cap ch")
  case True
  define n where "n = (if newsz < ch_len ch then ch_len ch else newsz)"
  define h where "h = (if hw < ch_ptr ch then ch_ptr ch else hw)"
  define m where "m = (if n < ch_cap ch - ch_ptr ch then ch_cap ch - ch_ptr ch else n)"
  have len: "ch_ptr ch + ch_len ch \<le> ch_cap ch" "ch_cap ch \<le> length (ch_buf ch)"
    using assms(1) by (simp_all add: chunk_ok_def)
  have szt: "szt (n + h) = n + h" "szt (m + h) = m + h"
    using assms(3) len by (auto simp: n_def h_def m_def)
  show ?thesis
  proof (cases "n + h \<le> ch_cap ch \<and> h \<le> ch_ptr ch")
    case fits: True
    then have "ch' = ch"
      using assms(2) True unfolding nni_chunk_grow_def Let_def n_def [symmetric] h_def [symmetric] szt by simp
    then show ?thesis
      using fits assms(1) by (auto simp: n_def h_def split: if_splits)
  next
    case False
    then have m: "mem (m + h)" "m + h > 0" and ch': "ch' = ch\<lparr>ch_buf := (if ch_len ch > 0 then put_at h (chunk_body ch) (replicate (m + h) 0)
          else replicate (m + h) 0), ch_ptr := h, ch_cap := m + h\<rparr>"
      using assms(2) True unfolding nni_chunk_grow_def Let_def n_def [symmetric] h_def [symmetric] m_def [symmetric] szt
      by (auto simp: zalloc_Some NNG_ENOMEM_def split: option.splits if_splits)
    have "ch_len ch \<le> m" "newsz \<le> m"
      by (auto simp: m_def n_def)
    moreover have "m + 2 * h \<le> ch_cap ch + ch_ptr ch + newsz + 2 * hw"
      using len by (auto simp: m_def n_def h_def)
    moreover have "hw \<le> h"
      by (auto simp: h_def)
    moreover have "chunk_body ch' = chunk_body ch"
      using assms(1) take_drop_put_at [of h "replicate (m + h) 0" "chunk_body ch"]
      by (auto simp: ch' chunk_body_def [of "_\<lparr>ch_buf := _, ch_ptr := _, ch_cap := _\<rparr>"])
    moreover have "chunk_ok ch'"
      unfolding ch' using length_chunk_body [OF assms(1)] \<open>ch_len ch \<le> m\<close> by (auto simp: chunk_ok_def)
    ultimately show ?thesis
      by (simp add: ch')
  qed
next
  case False
  then have len: "ch_len ch = 0" "ch_ptr ch = ch_cap ch"
    using chunk_empty assms(1) by auto
  have szt: "szt (newsz + hw) = newsz + hw"
    using assms(3) by simp
  show ?thesis
    using assms len unfolding nni_chunk_grow_def Let_def
    by (auto simp: len szt zalloc_Some chunk_ok_def chunk_body_def NNG_ENOMEM_def split: option.splits if_splits)
qed

lemma grow_fails: "nni_chunk_grow mem ch newsz hw = (ch', rv) \<Longrightarrow> rv \<noteq> 0 \<Longrightarrow> ch' = ch \<and> rv = NNG_ENOMEM"
  by (auto simp: nni_chunk_grow_def Let_def split: option.splits if_splits)


lemma append_ok:
  assumes "chunk_ok ch" "nni_chunk_append mem ch (Some bs) (length bs) = (ch', 0)"
    and "ch_cap ch + ch_len ch + length bs < 2 ^ 64"
  shows "chunk_ok ch' \<and> chunk_body ch' = chunk_body ch @ bs"
proof (cases "bs = []")
  case True
  then show ?thesis
    using assms by (simp add: nni_chunk_append_def)
next
  case False
  obtain g rv where g: "nni_chunk_grow mem ch (length bs + ch_len ch) 0 = (g, rv)"
    by fastforce
  have szt: "szt (length bs + ch_len ch) = length bs + ch_len ch" "szt (ch_len ch + length bs) = ch_len ch + length bs"
    using assms(3) by simp_all
  have rv: "rv = 0" and ch': "ch' = g\<lparr>ch_buf := put_at (ch_ptr g + ch_len g) bs (ch_buf g), ch_len := szt (ch_len g + length bs)\<rparr>"
    using assms(2) False g unfolding nni_chunk_append_def szt by (auto split: if_splits)
  have ok: "chunk_ok g" "chunk_body g = chunk_body ch" "ch_len g = ch_len ch"
    "ch_ptr g + (length bs + ch_len ch) \<le> ch_cap g"
    using grow_ok [OF assms(1) g [unfolded rv]] assms(3) by auto
  then have len: "ch_ptr g + ch_len g + length bs \<le> length (ch_buf g)"
    by (simp add: chunk_ok_def)
  show ?thesis
    using ok len take_drop_put_behind [of "ch_ptr g" "ch_len g" "ch_buf g" bs]
    unfolding ch' chunk_body_def ok(3) szt by (auto simp: chunk_ok_def)
qed

lemma append_fails:
  "nni_chunk_append mem ch data len = (ch', rv) \<Longrightarrow> rv \<noteq> 0 \<Longrightarrow> ch' = ch \<and> rv = NNG_ENOMEM"
  using grow_fails [of mem ch "szt (len + ch_len ch)" 0]
  by (auto simp: nni_chunk_append_def split: if_splits prod.splits)

text \<open>
  The case in which \<open>nni_chunk_insert\<close> moves the body within its buffer: there is too little room in front
  of it, but enough in all.
\<close>

definition insert_moves :: "nng_chunk \<Rightarrow> nat \<Rightarrow> bool" where
  "insert_moves ch n \<longleftrightarrow> ch_ptr ch < ch_cap ch \<and> ch_ptr ch < n \<and> ch_len ch + n + 8 \<le> ch_cap ch"

lemma insert_ok:
  assumes "chunk_ok ch" "nni_chunk_insert mem ch bs = (ch', 0)" "\<not> insert_moves ch (length bs)"
    and "ch_cap ch + length bs < 2 ^ 64"
  shows "chunk_ok ch' \<and> chunk_body ch' = bs @ chunk_body ch"
proof -
  have put: "chunk_ok c' \<and> chunk_body c' = bs @ chunk_body g"
    if "chunk_ok g" "length bs \<le> ch_ptr g"
      "c' = g\<lparr>ch_ptr := ch_ptr g - length bs, ch_len := ch_len g + length bs, ch_buf := put_at (ch_ptr g - length bs) bs (ch_buf g)\<rparr>"
    for g c'
    using that drop_put_before [of "ch_ptr g - length bs" bs "ch_buf g" "ch_len g"]
    by (auto simp: chunk_ok_def chunk_body_def ac_simps)
  show ?thesis
  proof (cases "ch_ptr ch < ch_cap ch \<and> length bs \<le> ch_ptr ch")
    case True
    then show ?thesis
      using assms(2) put [OF assms(1)] by (simp add: nni_chunk_insert_def Let_def)
  next
    case False
    obtain g rv where g: "nni_chunk_grow mem ch 0 (length bs) = (g, rv)"
      by fastforce
    have rv: "rv = 0" and ch': "ch' = g\<lparr>ch_ptr := ch_ptr g - length bs, ch_len := ch_len g + length bs,
        ch_buf := put_at (ch_ptr g - length bs) bs (ch_buf g)\<rparr>"
      using assms(2,3) False g by (auto simp: nni_chunk_insert_def insert_moves_def Let_def split: if_splits)
    have "chunk_ok g" "chunk_body g = chunk_body ch" "length bs \<le> ch_ptr g"
      using grow_ok [OF assms(1) g [unfolded rv]] assms(4) by auto
    then show ?thesis
      using put [OF _ _ ch'] by simp
  qed
qed

lemma insert_fails:
  "nni_chunk_insert mem ch bs = (ch', rv) \<Longrightarrow> rv \<noteq> 0 \<Longrightarrow> ch' = ch \<and> rv = NNG_ENOMEM"
  using grow_fails [of mem ch 0 "length bs"]
  by (auto simp: nni_chunk_insert_def Let_def split: if_splits prod.splits)

lemma shift_fits: "l + n + 8 \<le> (c :: nat) \<Longrightarrow> ((c - (l + n)) div 2 + 7) div 8 * 8 + n + l \<le> c"
proof -
  assume "l + n + 8 \<le> c"
  then obtain k where k: "c = l + n + 8 + k"
    using le_Suc_ex by blast
  have "((8 + k) div 2 + 7) div 8 * 8 \<le> 8 + k"
  proof (cases "k < 6")
    case True
    then have "((8 + k) div 2 + 7) div 8 < 2"
      by linarith
    then show ?thesis
      by linarith
  qed linarith
  then show ?thesis
    by (simp add: k)
qed

text \<open>
  Then the body is moved to the place where the inserted data are written next: its first bytes are lost,
  and as many bytes of what the buffer held before are exposed at its end.
\<close>

lemma insert_overwrites:
  assumes "chunk_ok ch" "insert_moves ch (length bs)"
  shows "\<exists>ch' old. nni_chunk_insert mem ch bs = (ch', 0) \<and> chunk_ok ch' \<and> length old = min (length bs) (ch_len ch)
    \<and> chunk_body ch' = bs @ drop (length bs) (chunk_body ch) @ old"
proof -
  let ?n = "length bs" and ?s = "insert_shift ch (length bs)"
  have len: "ch_ptr ch + ch_len ch \<le> ch_cap ch" "ch_cap ch \<le> length (ch_buf ch)"
    and s: "?s + ?n + ch_len ch \<le> ch_cap ch"
    using assms shift_fits [of "ch_len ch" ?n "ch_cap ch"] by (simp_all add: chunk_ok_def insert_moves_def insert_shift_def)
  define moved where "moved = put_at ?s (chunk_body ch) (ch_buf ch)"
  have l: "length (chunk_body ch) = ch_len ch" "length moved = length (ch_buf ch)"
    using assms(1) len s by (simp_all add: moved_def)
  let ?c = "ch\<lparr>ch_buf := put_at ?s bs moved, ch_ptr := ?s, ch_len := ch_len ch + ?n\<rparr>"
  have "nni_chunk_insert mem ch bs = (?c, 0)"
    using assms(2) by (simp add: nni_chunk_insert_def insert_moves_def Let_def moved_def)
  moreover have "chunk_ok ?c"
    using len s l by (simp add: chunk_ok_def)
  moreover have "chunk_body ?c = bs @ take (ch_len ch) (drop (?s + ?n) moved)"
    using drop_put_before [of ?s bs moved "ch_len ch"] s len l by (simp add: chunk_body_def add.commute)
  moreover have "take (ch_len ch) (drop (?s + ?n) moved)
      = drop ?n (chunk_body ch) @ take (min ?n (ch_len ch)) (drop (?s + max ?n (ch_len ch)) (ch_buf ch))"
    using s len l(1) by (auto simp: moved_def put_at_def min_def max_def ac_simps simp flip: length_0_conv)
  moreover have "length (take (min ?n (ch_len ch)) (drop (?s + max ?n (ch_len ch)) (ch_buf ch))) = min ?n (ch_len ch)"
    using s len by (auto simp: min_def max_def)
  ultimately show ?thesis
    by (metis (no_types))
qed

section \<open>Messages as header and body\<close>

definition msg_ok :: "nng_msg \<Rightarrow> bool" where
  "msg_ok m \<longleftrightarrow> chunk_ok (m_body m) \<and> length (m_header_buf m) = header_size \<and> m_header_len m \<le> header_size"

lemma msg_ok_lengths [simp]:
  "msg_ok m \<Longrightarrow> length (nni_msg_header m) = m_header_len m" "msg_ok m \<Longrightarrow> length (nni_msg_body m) = nni_msg_len m"
  by (auto simp: msg_ok_def nni_msg_header_def nni_msg_body_def nni_msg_len_def)

lemma alloc_ok:
  assumes "nni_msg_alloc sok mem sz = Inr m"
  shows "msg_ok m \<and> nni_msg_header m = [] \<and> nni_msg_body m = replicate sz 0 \<and> m_refcnt m = 1 \<and> m_pipe m = 0
    \<and> ch_ptr (m_body m) = (if sz < 1024 \<or> \<not> power_of_two sz then 32 else 0)"
proof -
  have sz: "sz \<le> 0x0fffffffffffffff" "sok"
    using assms by (auto simp: nni_msg_alloc_def split: if_splits)
  have szt: "szt (sz + 64) = sz + 64" "szt (sz + 32 + 32) = sz + 64" "szt (sz + 32) = sz + 32" "szt sz = sz"
    "szt (sz + 0) = sz" "szt (0 + sz) = sz"
    using sz(1) by simp_all
  have "\<exists>ch. m = msg_struct\<lparr>m_body := ch, m_refcnt := 1\<rparr> \<and> ch_len ch = sz \<and> ch_buf ch = replicate (ch_cap ch) 0
      \<and> ch_ptr ch + sz \<le> ch_cap ch \<and> ch_ptr ch = (if sz < 1024 \<or> \<not> power_of_two sz then 32 else 0)"
  proof (cases "sz < 1024 \<or> \<not> power_of_two sz")
    case True
    then show ?thesis
      using assms sz unfolding nni_msg_alloc_def nni_chunk_grow_def msg_struct_def nni_chunk_append_def Let_def
      by (auto simp: zalloc_Some szt NNG_ENOMEM_def split: option.splits if_splits)
  next
    case False
    then have "sz > 0"
      by auto
    then show ?thesis
      using assms sz False unfolding nni_msg_alloc_def nni_chunk_grow_def msg_struct_def nni_chunk_append_def Let_def
      by (auto simp: zalloc_Some szt NNG_ENOMEM_def split: option.splits if_splits)
  qed
  then obtain ch where m: "m = msg_struct\<lparr>m_body := ch, m_refcnt := 1\<rparr>" "ch_len ch = sz" "ch_buf ch = replicate (ch_cap ch) 0"
      "ch_ptr ch + sz \<le> ch_cap ch" "ch_ptr ch = (if sz < 1024 \<or> \<not> power_of_two sz then 32 else 0)"
    by blast
  then show ?thesis
    by (simp add: msg_ok_def chunk_ok_def nni_msg_header_def nni_msg_body_def chunk_body_def msg_struct_def
        header_size_def)
qed

text \<open>
  When pulling up a header is safe: the message is copied anyway, or there is room for the header in
  front of the body.
\<close>

definition pull_up_safe :: "nng_msg \<Rightarrow> bool" where
  "pull_up_safe m \<longleftrightarrow> m_refcnt m \<noteq> 1 \<or> nni_chunk_room (m_body m) < m_header_len m
     \<or> (m_header_len m \<le> ch_ptr (m_body m) \<and> ch_ptr (m_body m) < ch_cap (m_body m))"

lemma insert_headroom:
  "length bs \<le> ch_ptr ch \<Longrightarrow> ch_ptr ch < ch_cap ch \<Longrightarrow>
     nni_chunk_insert mem ch bs =
       (ch\<lparr>ch_ptr := ch_ptr ch - length bs, ch_len := ch_len ch + length bs,
           ch_buf := put_at (ch_ptr ch - length bs) bs (ch_buf ch)\<rparr>, 0)"
  by (simp add: nni_chunk_insert_def Let_def)

lemma pull_up_ok:
  assumes "msg_ok m" "pull_up_safe m" "nni_msg_pull_up sok mem m = Some m'"
  shows "msg_ok m' \<and> nni_msg_header m' = [] \<and> nni_msg_body m' = nni_msg_header m @ nni_msg_body m \<and> m_refcnt m' = 1"
proof (cases "nni_chunk_room (m_body m) < m_header_len m \<or> m_refcnt m \<noteq> 1")
  case True
  let ?n = "nni_msg_len m + m_header_len m"
  obtain m2 where m2: "nni_msg_alloc sok mem ?n = Inr m2"
    and m': "m' = m2\<lparr>m_body := (m_body m2)\<lparr>ch_buf :=
       put_at (ch_ptr (m_body m2)) (nni_msg_header m @ nni_msg_body m) (ch_buf (m_body m2))\<rparr>\<rparr>"
    using assms(3) True by (auto simp: nni_msg_pull_up_def split: sum.splits)
  note a = alloc_ok [OF m2]
  have len: "ch_len (m_body m2) = ?n"
    using a by (metis msg_ok_lengths(2) length_replicate nni_msg_len_def)
  have "length (nni_msg_header m @ nni_msg_body m) = ?n"
    using assms(1) by simp
  then show ?thesis
    using a len take_drop_put_at [of "ch_ptr (m_body m2)" "ch_buf (m_body m2)" "nni_msg_header m @ nni_msg_body m"]
    by (auto simp: m' msg_ok_def chunk_ok_def nni_msg_body_def [of "_\<lparr>m_body := _\<rparr>"] nni_msg_header_def [of "_\<lparr>m_body := _\<rparr>"]
        chunk_body_def [of "_\<lparr>ch_buf := _\<rparr>"]) (simp add: nni_msg_header_def)
next
  case False
  then have room: "m_header_len m \<le> ch_ptr (m_body m)" "ch_ptr (m_body m) < ch_cap (m_body m)" and ref: "m_refcnt m = 1"
    using assms(2) by (auto simp: pull_up_safe_def)
  have ok: "chunk_ok (m_body m)" and len: "length (nni_msg_header m) = m_header_len m"
    using assms(1) by (simp_all add: msg_ok_def nni_msg_header_def)
  let ?c = "fst (nni_chunk_insert mem (m_body m) (nni_msg_header m))"
  have m': "m' = m\<lparr>m_body := ?c, m_header_len := 0\<rparr>"
    using assms(3) False by (auto simp: nni_msg_pull_up_def nni_msg_insert_def nni_msg_header_clear_def Let_def
        split: prod.splits)
  have len64: "m_header_len m \<le> 64"
    using assms(1) by (simp add: msg_ok_def header_size_def NNI_MAX_MAX_TTL_def)
  have "chunk_ok ?c \<and> chunk_body ?c = nni_msg_header m @ chunk_body (m_body m)"
    using ok room len drop_put_before [of "ch_ptr (m_body m) - m_header_len m" "nni_msg_header m" "ch_buf (m_body m)"
        "ch_len (m_body m)"]
    by (simp add: insert_headroom) (auto simp: chunk_ok_def chunk_body_def ac_simps)
  then show ?thesis
    using assms(1) ref by (simp add: m' msg_ok_def nni_msg_body_def nni_msg_header_def)
qed

lemma pull_up_returns: "msg_ok m \<Longrightarrow> pull_up_safe m \<Longrightarrow> nni_msg_len m + m_header_len m \<le> 0x0fffffffffffffff \<Longrightarrow>
    \<exists>m'. nni_msg_pull_up True (\<lambda>_. True) m = Some m'"
  by (auto simp: nni_msg_pull_up_def nni_msg_alloc_def nni_chunk_grow_def nni_zalloc_def msg_struct_def Let_def
      split: sum.splits option.splits if_splits)

section \<open>The bodies of nanonext\<close>

text \<open>A buffer that \<open>nano_serialize\<close> has filled.\<close>

lemma serialized_buffer:
  assumes "headroom + 8 \<le> NANONEXT_INIT_BUFSIZE" "\<forall>w \<in> set writes. length w < 2 ^ 31"
    and "nano_serialize True special_marker writes header headroom = Some (Inr b)"
  shows "wbuf_ok b \<and> encoded b = prefix_bytes special_marker header headroom @ concat writes"
proof -
  from serialize_start [OF assms(1)] obtain b1 where
    b1: "nano_serialize True special_marker writes header headroom = write_all True b1 writes" "wbuf_ok b1"
      "encoded b1 = prefix_bytes special_marker header headroom" by blast
  from write_all_step [OF b1(2) assms(2), of True] assms(3) b1 show ?thesis
    by auto
qed

lemma length_encoded: "wbuf_ok b \<Longrightarrow> length (encoded b) = nb_cur b"
  by (simp add: wbuf_ok_def encoded_def)

lemma prefix_headroom: "prefix_bytes mk header headroom = replicate headroom 0 @ prefix_bytes mk header 0"
  by (simp add: prefix_bytes_def)

lemma set_body_safe:
  assumes "wbuf_ok b" "headroom < nb_cur b" "nano_msg_set_body app ch b headroom = (ch', b')"
  shows "chunk_ok ch' \<and> chunk_body ch' = drop headroom (encoded b) \<and> ch_ptr ch' = headroom
     \<and> nni_chunk_room ch' = headroom \<and> ch_ptr ch' < ch_cap ch'"
  using assms by (auto simp: wbuf_ok_def nano_msg_set_body_def chunk_ok_def chunk_body_def encoded_def nni_chunk_room_def
      drop_take)

text \<open>
  C12: A serialized body is installed without a copy, with 32 bytes of room in front of it and none behind.
  Whatever header a protocol puts on the message, pulling it up for the inproc transport gives the receiver
  the header followed by exactly the bytes serialized, and the message has a body of its own again.
\<close>

theorem zero_copy_pulled_up:
  assumes "\<forall>w \<in> set writes. length w < 2 ^ 31" "concat writes \<noteq> []"
    and "nano_serialize True mk writes header NANO_HEADROOM = Some (Inr b)"
    and "nano_msg_set_body app (m_body m0) b NANO_HEADROOM = (ch, b')"
    and "nni_msg_header_append (m0\<lparr>m_body := ch\<rparr>) hdr = (m, 0)" "msg_ok m0" "m_header_len m0 = 0"
    and "nni_msg_pull_up sok mem m = Some m'"
  shows "nni_msg_header m' = [] \<and> nni_msg_body m' = hdr @ prefix_bytes mk header 0 @ concat writes
    \<and> msg_ok m' \<and> m_refcnt m' = 1"
proof -
  have room: "NANO_HEADROOM + 8 \<le> NANONEXT_INIT_BUFSIZE"
    by (simp add: NANO_HEADROOM_def size_consts)
  note b = serialized_buffer [OF room assms(1,3)]
  have cur: "nb_cur b = length (encoded b)"
    using length_encoded [OF conjunct1 [OF b]] by (rule sym)
  also have "\<dots> > NANO_HEADROOM"
    using b assms(2) by (simp add: prefix_headroom [of _ _ NANO_HEADROOM])
  finally have "NANO_HEADROOM < nb_cur b" .
  note ch = set_body_safe [OF conjunct1 [OF b] this assms(4)]
  have body: "chunk_body ch = prefix_bytes mk header 0 @ concat writes"
    using ch b by (simp add: prefix_headroom [of _ _ NANO_HEADROOM])
  have hdr: "length hdr \<le> header_size" and m: "m = m0\<lparr>m_body := ch, m_header_buf := put_at 0 hdr (m_header_buf m0),
      m_header_len := length hdr\<rparr>"
    using assms(5,7) by (auto simp: nni_msg_header_append_def NNG_EINVAL_def split: if_splits)
  have ok: "msg_ok m"
    using assms(6) ch hdr by (simp add: m msg_ok_def)
  have safe: "pull_up_safe m"
    using ch by (auto simp: m pull_up_safe_def)
  have "nni_msg_header m = hdr" "nni_msg_body m = chunk_body ch"
    by (simp_all add: m nni_msg_header_def nni_msg_body_def put_at_def)
  then show ?thesis
    using pull_up_ok [OF ok safe assms(8)] body by simp
qed

definition demo_msg :: nng_msg where
  "demo_msg = msg_struct\<lparr>m_refcnt := 1\<rparr>"

theorem zero_copy_pulled_up_witness:
  "\<exists>b ch b' m m'. nano_serialize True 0 [[0x58, 10], [1, 2]] 0 NANO_HEADROOM = Some (Inr b)
     \<and> nano_msg_set_body (\<lambda>c _. c) (m_body demo_msg) b NANO_HEADROOM = (ch, b')
     \<and> nni_msg_header_append (demo_msg\<lparr>m_body := ch\<rparr>) [0x80, 0, 0, 7] = (m, 0)
     \<and> nni_msg_pull_up True (\<lambda>_. True) m = Some m' \<and> nni_msg_body m' = [0x80, 0, 0, 7, 0x58, 10, 1, 2]"
proof -
  let ?ws = "[[0x58, 10], [1, 2]] :: byte list list"
  have small: "\<forall>w \<in> set ?ws. length w < 2 ^ 31"
    by simp
  have ok: "msg_ok demo_msg" "m_header_len demo_msg = 0"
    by (simp_all add: demo_msg_def msg_struct_def msg_ok_def chunk_ok_def)
  have room: "NANO_HEADROOM + 8 \<le> NANONEXT_INIT_BUFSIZE"
    by (simp add: NANO_HEADROOM_def size_consts)
  obtain b1 where b1: "nano_serialize True 0 ?ws 0 NANO_HEADROOM = write_all True b1 ?ws" "wbuf_ok b1"
      "nb_cur b1 = length (prefix_bytes 0 0 NANO_HEADROOM)"
    using serialize_start [OF room, of 0 ?ws 0] by blast
  have "nb_cur b1 + length (concat ?ws) \<le> R_XLEN_T_MAX"
    by (simp add: b1(3) prefix_bytes_def NANO_HEADROOM_def size_consts)
  then have "\<exists>b. write_all True b1 ?ws = Some (Inr b)"
    using write_all_step [OF b1(2) small, of True] by (fastforce split: sum.splits)
  then obtain b where b: "nano_serialize True 0 ?ws 0 NANO_HEADROOM = Some (Inr b)"
    unfolding b1(1) ..
  obtain ch b' where ch: "nano_msg_set_body (\<lambda>c _. c) (m_body demo_msg) b NANO_HEADROOM = (ch, b')"
    by fastforce
  obtain m where m: "nni_msg_header_append (demo_msg\<lparr>m_body := ch\<rparr>) [0x80, 0, 0, 7] = (m, 0)"
    using ok by (auto simp: nni_msg_header_append_def)
  have sb: "wbuf_ok b" "encoded b = prefix_bytes 0 0 NANO_HEADROOM @ concat ?ws"
    using serialized_buffer [OF room small b] by auto
  have cur: "nb_cur b = 36"
  proof -
    have "nb_cur b = length (encoded b)"
      using sb(1) by (simp add: length_encoded)
    then show ?thesis
      by (simp add: sb(2) prefix_bytes_def NANO_HEADROOM_def)
  qed
  have "ch_ptr ch = 32 \<and> ch_cap ch = 36 \<and> ch_len ch = 4"
    using ch sb(1) cur by (auto simp: nano_msg_set_body_def wbuf_ok_def NANO_HEADROOM_def)
  moreover have "m_body m = ch \<and> m_header_len m = 4 \<and> m_refcnt m = 1"
    using m by (auto simp: nni_msg_header_append_def demo_msg_def msg_struct_def split: if_splits)
  ultimately obtain m' where m': "nni_msg_pull_up True (\<lambda>_. True) m = Some m'"
    by (simp add: nni_msg_pull_up_def nni_chunk_room_def)
  show ?thesis
    using zero_copy_pulled_up [OF small _ b ch m ok m'] b ch m m' by (auto simp: prefix_bytes_def)
qed

section \<open>Where the body is not safe\<close>

text \<open>
  A message made by \<open>nng_msg_alloc (0)\<close>, to which a few bytes have been appended and which has come ten hops,
  loses these bytes when its header is pulled up: there are 32 bytes of room in front of the body, and enough
  behind it for \<open>nni_chunk_insert\<close> to move it.
\<close>

definition far_msg :: nng_msg where
  "far_msg = demo_msg\<lparr>m_header_len := 40,
     m_body := \<lparr>ch_cap = 64, ch_len = 4, ch_buf = put_at 32 [1, 2, 3, 4] (replicate 64 0), ch_ptr = 32\<rparr>\<rparr>"

lemma far_msg_made:
  "\<exists>m. nni_msg_alloc True (\<lambda>_. True) 0 = Inr m \<and>
     far_msg = (fst (nni_msg_append (\<lambda>_. True) m [1, 2, 3, 4]))\<lparr>m_header_len := 40\<rparr>"
proof -
  let ?m = "demo_msg\<lparr>m_body := \<lparr>ch_cap = 64, ch_len = 0, ch_buf = replicate 64 0, ch_ptr = 32\<rparr>\<rparr>"
  have "nni_msg_alloc True (\<lambda>_. True) 0 = Inr ?m"
    by (simp add: nni_msg_alloc_def nni_chunk_grow_def nni_zalloc_def nni_chunk_append_def msg_struct_def demo_msg_def)
  moreover have "nni_chunk_grow (\<lambda>_. True) (m_body ?m) 4 0 = (m_body ?m, 0)"
    by (simp add: nni_chunk_grow_def)
  then have "nni_msg_append (\<lambda>_. True) ?m [1, 2, 3, 4] =
      (demo_msg\<lparr>m_body := \<lparr>ch_cap = 64, ch_len = 4, ch_buf = put_at 32 [1, 2, 3, 4] (replicate 64 0), ch_ptr = 32\<rparr>\<rparr>, 0)"
    by (simp add: nni_msg_append_def nni_chunk_append_def)
  ultimately show ?thesis
    by (simp add: far_msg_def)
qed

lemma pull_up_overwrites:
  "msg_ok far_msg \<and> nni_msg_body far_msg = [1, 2, 3, 4]
   \<and> map_option nni_msg_body (nni_msg_pull_up True (\<lambda>_. True) far_msg) = Some (replicate 44 0)"
proof -
  have "replicate 40 (0 :: byte) @ replicate 4 0 = replicate 44 0"
    by (simp flip: replicate_add)
  moreover have "msg_ok far_msg \<and> nni_msg_body far_msg = [1, 2, 3, 4]"
    by (simp add: far_msg_def demo_msg_def msg_struct_def msg_ok_def chunk_ok_def nni_msg_body_def chunk_body_def
        put_at_def)
  moreover have "map_option nni_msg_body (nni_msg_pull_up True (\<lambda>_. True) far_msg) = Some (replicate 40 0 @ replicate 4 0)"
    by (simp add: nni_msg_pull_up_def far_msg_def demo_msg_def msg_struct_def nni_chunk_room_def nni_msg_insert_def
        nni_chunk_insert_def Let_def nni_msg_header_def nni_msg_body_def chunk_body_def insert_shift_def put_at_def
        nni_msg_header_clear_def)
  ultimately show ?thesis
    by simp
qed

text \<open>The same in a message of 1024 bytes, which has no room in front, shortened and given a prefix.\<close>

lemma insert_after_chop:
  assumes "chunk_ok ch" "ch_ptr ch = 0" "bs \<noteq> []" "ch_len ch + length bs + 8 \<le> ch_cap ch" "length bs \<le> ch_len ch"
  shows "\<exists>ch' old. nni_chunk_insert mem ch bs = (ch', 0) \<and> length old = length bs
    \<and> chunk_body ch' = bs @ drop (length bs) (chunk_body ch) @ old"
proof -
  have "insert_moves ch (length bs)"
    using assms by (auto simp: insert_moves_def)
  from insert_overwrites [OF assms(1) this, of mem] show ?thesis
    using assms(5) by auto
qed

text \<open>
  \<open>nni_msg_realloc\<close> and \<open>nni_msg_reserve\<close> add the room in front to the size without a check: an enormous
  size wraps round and the length is set far beyond the buffer. \<open>nni_msg_alloc\<close> has a limit for that.
\<close>

lemma realloc_wraps:
  "let m = far_msg; (m', rv) = nni_msg_realloc (\<lambda>_. True) m (2 ^ 64 - 1) in
     rv = 0 \<and> nni_msg_len m' = 2 ^ 64 - 1 \<and> ch_cap (m_body m') = 64"
  by (simp add: Let_def nni_msg_realloc_def nni_msg_len_def far_msg_def nni_chunk_append_def nni_chunk_grow_def)

section \<open>Both parts as sequences of bytes\<close>

text \<open>
  What a protocol needs of the header and of the body: to put bytes behind the others and to take some from
  the front. Both parts provide it.
\<close>

locale byte_sequence =
  fixes good :: "'m \<Rightarrow> bool"
    and content :: "'m \<Rightarrow> byte list"
    and push :: "'m \<Rightarrow> byte list \<Rightarrow> 'm \<times> int"
    and trim :: "'m \<Rightarrow> nat \<Rightarrow> 'm \<times> int"
  assumes push_law: "good m \<Longrightarrow> length d < 2 ^ 32 \<Longrightarrow> push m d = (m', 0) \<Longrightarrow> good m' \<and> content m' = content m @ d"
    and push_fails: "push m d = (m', rv) \<Longrightarrow> rv \<noteq> 0 \<Longrightarrow> m' = m"
    and trim_law: "good m \<Longrightarrow> n \<le> length (content m) \<Longrightarrow>
        \<exists>m'. trim m n = (m', 0) \<and> good m' \<and> content m' = drop n (content m)"
    and trim_fails: "good m \<Longrightarrow> length (content m) < n \<Longrightarrow> trim m n = (m, NNG_EINVAL)"
begin

fun push_all :: "'m \<Rightarrow> byte list list \<Rightarrow> 'm \<times> int" where
  "push_all m [] = (m, 0)"
| "push_all m (d # ds) = (case push m d of (m', rv) \<Rightarrow> if rv \<noteq> 0 then (m', rv) else push_all m' ds)"

lemma push_all_content:
  "good m \<Longrightarrow> \<forall>d \<in> set ds. length d < 2 ^ 32 \<Longrightarrow> push_all m ds = (m', 0) \<Longrightarrow>
     good m' \<and> content m' = content m @ concat ds"
proof (induction ds arbitrary: m)
  case (Cons d ds)
  obtain m1 rv where 1: "push m d = (m1, rv)"
    by fastforce
  then have "rv = 0" and 2: "push_all m1 ds = (m', 0)"
    using Cons.prems(3) by (auto split: if_splits)
  then have "good m1 \<and> content m1 = content m @ d"
    using push_law [OF Cons.prems(1), of d m1] Cons.prems(2) 1 by simp
  then show ?case
    using Cons.IH [OF _ _ 2] Cons.prems(2) by simp
qed simp

text \<open>What was put in can be taken out again, from the front, in the same order.\<close>

lemma front_out:
  assumes "good m" "\<forall>d \<in> set ds. length d < 2 ^ 32" "push_all m ds = (m', 0)" "n \<le> length (content m @ concat ds)"
  shows "\<exists>m''. trim m' n = (m'', 0) \<and> good m'' \<and> content m'' = drop n (content m @ concat ds)"
  using push_all_content [OF assms(1-3)] trim_law [of m' n] assms(4) by auto

end

text \<open>A process cannot have a block of \<open>2 ^ 62\<close> bytes.\<close>

definition limited :: "(nat \<Rightarrow> bool) \<Rightarrow> nat \<Rightarrow> bool" where
  "limited mem n \<longleftrightarrow> n < 2 ^ 62 \<and> mem n"

definition body_ok :: "nng_msg \<Rightarrow> bool" where
  "body_ok m \<longleftrightarrow> msg_ok m \<and> ch_cap (m_body m) < 2 ^ 62"

lemma grow_limited:
  "nni_chunk_grow (limited mem) ch n h = (ch', 0) \<Longrightarrow> ch_cap ch < 2 ^ 62 \<Longrightarrow> ch_cap ch' < 2 ^ 62"
  unfolding nni_chunk_grow_def Let_def
  by (simp split: if_split_asm option.split_asm) (auto simp: zalloc_Some limited_def)

lemma msg_append_ok:
  assumes "body_ok m" "length d < 2 ^ 32" "nni_msg_append (limited mem) m d = (m', 0)"
  shows "body_ok m' \<and> nni_msg_body m' = nni_msg_body m @ d \<and> nni_msg_header m' = nni_msg_header m"
proof -
  have ok: "chunk_ok (m_body m)" "ch_cap (m_body m) < 2 ^ 62" "ch_len (m_body m) < 2 ^ 62"
    using assms(1) by (auto simp: body_ok_def msg_ok_def chunk_ok_def)
  obtain c where c: "nni_chunk_append (limited mem) (m_body m) (Some d) (length d) = (c, 0)" "m' = m\<lparr>m_body := c\<rparr>"
    using assms(3) by (auto simp: nni_msg_append_def split: prod.splits)
  have "chunk_ok c \<and> chunk_body c = chunk_body (m_body m) @ d"
    using append_ok [OF ok(1) c(1)] ok assms(2) by simp
  moreover have "ch_cap c < 2 ^ 62"
    using c(1) ok(2) grow_limited [of mem "m_body m"]
    by (auto simp: nni_chunk_append_def split: if_splits prod.splits)
  ultimately show ?thesis
    using assms(1) by (simp add: c(2) body_ok_def msg_ok_def nni_msg_body_def nni_msg_header_def)
qed

lemma msg_trim_ok:
  "body_ok m \<Longrightarrow> n \<le> nni_msg_len m \<Longrightarrow>
     \<exists>m'. nni_msg_trim m n = (m', 0) \<and> body_ok m' \<and> nni_msg_body m' = drop n (nni_msg_body m)
       \<and> nni_msg_header m' = nni_msg_header m \<and> m_header_len m' = m_header_len m \<and> m_pipe m' = m_pipe m"
  by (auto simp: nni_msg_trim_def nni_chunk_trim_def nni_msg_len_def body_ok_def msg_ok_def chunk_ok_def
      nni_msg_body_def nni_msg_header_def chunk_body_def Let_def drop_take add.commute)

lemma msg_chop_ok:
  "msg_ok m \<Longrightarrow> n \<le> nni_msg_len m \<Longrightarrow>
     \<exists>m'. nni_msg_chop m n = (m', 0) \<and> msg_ok m' \<and> nni_msg_body m' = take (nni_msg_len m - n) (nni_msg_body m)"
  by (auto simp: nni_msg_chop_def nni_chunk_chop_def nni_msg_len_def msg_ok_def chunk_ok_def nni_msg_body_def
      chunk_body_def)

lemma take_put_front: "take (length d) (put_at 0 d buf) = d"
  by (simp add: put_at_def)

lemma header_append_ok:
  "msg_ok m \<Longrightarrow> nni_msg_header_append m d = (m', 0) \<Longrightarrow>
     msg_ok m' \<and> nni_msg_header m' = nni_msg_header m @ d \<and> m_body m' = m_body m"
  by (auto simp: nni_msg_header_append_def NNG_EINVAL_def msg_ok_def nni_msg_header_def put_at_def split: if_splits)

lemma header_insert_ok:
  "msg_ok m \<Longrightarrow> nni_msg_header_insert m d = (m', 0) \<Longrightarrow>
     msg_ok m' \<and> nni_msg_header m' = d @ nni_msg_header m \<and> m_body m' = m_body m"
  by (auto simp: nni_msg_header_insert_def NNG_EINVAL_def msg_ok_def nni_msg_header_def put_at_def split: if_splits)

lemma header_trim_ok:
  "msg_ok m \<Longrightarrow> n \<le> m_header_len m \<Longrightarrow>
     \<exists>m'. nni_msg_header_trim m n = (m', 0) \<and> msg_ok m' \<and> nni_msg_header m' = drop n (nni_msg_header m)"
  by (auto simp: nni_msg_header_trim_def msg_ok_def nni_msg_header_def put_at_def drop_take)

interpretation message_body: byte_sequence body_ok nni_msg_body "nni_msg_append (limited mem)" nni_msg_trim for mem
proof
  fix m d m' rv
  show "body_ok m \<Longrightarrow> length d < 2 ^ 32 \<Longrightarrow> nni_msg_append (limited mem) m d = (m', 0) \<Longrightarrow>
      body_ok m' \<and> nni_msg_body m' = nni_msg_body m @ d"
    using msg_append_ok by blast
  show "nni_msg_append (limited mem) m d = (m', rv) \<Longrightarrow> rv \<noteq> 0 \<Longrightarrow> m' = m"
    using append_fails [of "limited mem" "m_body m"] by (auto simp: nni_msg_append_def split: prod.splits)
next
  fix m n
  assume ok: "body_ok m"
  then have len: "length (nni_msg_body m) = nni_msg_len m"
    by (simp add: body_ok_def)
  show "n \<le> length (nni_msg_body m) \<Longrightarrow>
      \<exists>m'. nni_msg_trim m n = (m', 0) \<and> body_ok m' \<and> nni_msg_body m' = drop n (nni_msg_body m)"
    using msg_trim_ok [OF ok] len by metis
  show "length (nni_msg_body m) < n \<Longrightarrow> nni_msg_trim m n = (m, NNG_EINVAL)"
    using len by (simp add: nni_msg_trim_def nni_chunk_trim_def nni_msg_len_def)
qed

interpretation message_header: byte_sequence msg_ok nni_msg_header nni_msg_header_append nni_msg_header_trim
proof
  fix m d m' rv
  show "msg_ok m \<Longrightarrow> length d < 2 ^ 32 \<Longrightarrow> nni_msg_header_append m d = (m', 0) \<Longrightarrow>
      msg_ok m' \<and> nni_msg_header m' = nni_msg_header m @ d"
    using header_append_ok by blast
  show "nni_msg_header_append m d = (m', rv) \<Longrightarrow> rv \<noteq> 0 \<Longrightarrow> m' = m"
    by (auto simp: nni_msg_header_append_def split: if_splits)
next
  fix m n
  assume ok: "msg_ok m"
  show "n \<le> length (nni_msg_header m) \<Longrightarrow>
      \<exists>m'. nni_msg_header_trim m n = (m', 0) \<and> msg_ok m' \<and> nni_msg_header m' = drop n (nni_msg_header m)"
    using header_trim_ok [OF ok] ok by simp
  show "length (nni_msg_header m) < n \<Longrightarrow> nni_msg_header_trim m n = (m, NNG_EINVAL)"
    using ok by (simp add: nni_msg_header_trim_def)
qed

text \<open>Words are stored with the most significant byte first.\<close>

lemma be32_put32: "be32 (put32 v @ bs) = v"
proof -
  let ?b = "\<lambda>k. ucast (ucast (drop_bit k v :: 32 word) :: byte) :: 32 word"
  have "be32 (put32 v @ bs) = ((push_bit 24 (?b 24) + push_bit 16 (?b 16)) + push_bit 8 (?b 8)) + ?b 0"
    by (simp add: be32_def put32_def Let_def nth_Cons')
  also have "push_bit 24 (?b 24) + push_bit 16 (?b 16) = or (push_bit 24 (?b 24)) (push_bit 16 (?b 16))"
    by (rule disjunctive_add) (auto simp: bit_simps)
  also have "\<dots> + push_bit 8 (?b 8) = or \<dots> (push_bit 8 (?b 8))"
    by (rule disjunctive_add) (auto simp: bit_simps)
  also have "\<dots> + ?b 0 = or \<dots> (?b 0)"
    by (rule disjunctive_add) (auto simp: bit_simps)
  also have "\<dots> = v"
  proof (rule bit_word_eqI)
    fix n
    assume "n < LENGTH(32)"
    then consider "n < 8" | "8 \<le> n" "n < 16" | "16 \<le> n" "n < 24" | "24 \<le> n" "n < 32"
      by fastforce
    then show "bit (or (or (or (push_bit 24 (?b 24)) (push_bit 16 (?b 16))) (push_bit 8 (?b 8))) (?b 0)) n = bit v n"
      by cases (auto simp: bit_simps)
  qed
  finally show ?thesis .
qed

end
