(* ===== verification/IdProbe.thy ===== *)
theory IdProbe
  imports Main
begin

text \<open>
  The probe sequence of NNG's id maps: from a slot \<open>j\<close> of a table with \<open>2 ^ k\<close> slots the next one is
  \<open>5 * j + 1\<close>, modulo the size. It is a full cycle: every slot comes once before the first one comes again.
\<close>

definition probe_next :: "nat \<Rightarrow> nat \<Rightarrow> nat" where
  "probe_next c j = (j * 5 + 1) mod c"

definition probe :: "nat \<Rightarrow> nat \<Rightarrow> nat \<Rightarrow> nat" where
  "probe c h i = (probe_next c ^^ i) h"

lemma probe_0 [simp]: "probe c h 0 = h"
  and probe_Suc: "probe c h (Suc i) = probe_next c (probe c h i)"
  and probe_shift: "probe c (probe_next c h) i = probe c h (Suc i)"
  by (simp_all add: probe_def funpow_swap1)

lemma probe_add: "probe c (probe c h i) j = probe c h (i + j)"
  by (simp add: probe_def funpow_add [THEN fun_cong, simplified, symmetric] add.commute)

lemma probe_next_less: "c > 0 \<Longrightarrow> probe_next c j < c"
  by (simp add: probe_next_def)

lemma probe_less: "h < c \<Longrightarrow> probe c h i < c"
  by (cases i) (simp_all add: probe_Suc probe_next_less)

section \<open>The geometric sum\<close>

fun geo :: "nat \<Rightarrow> nat" where
  "geo 0 = 0"
| "geo (Suc n) = 5 * geo n + 1"

lemma geo_power: "4 * geo n + 1 = 5 ^ n"
  by (induction n) simp_all

lemma probe_geo: "h < c \<Longrightarrow> probe c h n = (5 ^ n * h + geo n) mod c"
proof (induction n)
  case (Suc n)
  then have "probe c h (Suc n) = ((5 ^ n * h + geo n) mod c * 5 + 1) mod c"
    by (simp add: probe_Suc probe_next_def)
  also have "\<dots> = ((5 ^ n * h + geo n) * 5 + 1) mod c"
    by (metis mod_add_left_eq mod_mult_left_eq)
  also have "(5 ^ n * h + geo n) * 5 + 1 = 5 ^ Suc n * h + geo (Suc n)"
    by (simp add: algebra_simps)
  finally show ?case .
qed simp

lemma geo_double: "geo (2 * m) = geo m * (5 ^ m + 1)"
proof -
  have "4 * geo (2 * m) + 1 = (4 * geo m + 1) ^ 2"
    unfolding geo_power by (simp add: power_mult [symmetric] mult.commute)
  also have "\<dots> = 4 * (geo m * ((4 * geo m + 1) + 1)) + 1"
    by (simp add: power2_eq_square algebra_simps)
  finally have "geo (2 * m) = geo m * ((4 * geo m + 1) + 1)"
    by linarith
  then show ?thesis
    by (simp only: geo_power)
qed

lemma geo_parity: "2 dvd geo n \<longleftrightarrow> 2 dvd n"
  by (induction n) auto

text \<open>\<open>5 ^ m + 1\<close> is twice an odd number, so that a power of two divides the sum of \<open>n\<close> terms as often as it divides \<open>n\<close>.\<close>

lemma five_half: "\<exists>r. 5 ^ m + 1 = 2 * (2 * r + 1 :: nat)"
proof -
  have "5 ^ m + 1 = 2 * (2 * geo m + 1)"
    using geo_power [of m] by simp
  then show ?thesis ..
qed

lemma geo_dvd: "2 ^ k dvd geo n \<longleftrightarrow> 2 ^ k dvd n"
proof (induction k arbitrary: n)
  case (Suc k)
  show ?case
  proof (cases "2 dvd n")
    case False
    then show ?thesis
      using geo_parity [of n] by (meson dvd_power dvd_trans zero_less_Suc)
  next
    case True
    then obtain m where n: "n = 2 * m"
      by blast
    obtain r where r: "5 ^ m + 1 = 2 * (2 * r + 1 :: nat)"
      using five_half by blast
    have "geo n = 2 * (geo m * (2 * r + 1))"
      unfolding n geo_double r by simp
    then have "2 ^ Suc k dvd geo n \<longleftrightarrow> 2 ^ k dvd geo m * (2 * r + 1)"
      using dvd_times_left_cancel_iff [of 2 "2 ^ k" "geo m * (2 * r + 1)"] by (simp only: power_Suc)
    also have "\<dots> \<longleftrightarrow> 2 ^ k dvd geo m"
      by (rule coprime_dvd_mult_left_iff) simp
    also have "\<dots> \<longleftrightarrow> 2 ^ Suc k dvd n"
      unfolding n by (simp add: Suc)
    finally show ?thesis .
  qed
qed simp

section \<open>The full cycle\<close>

lemma probe_return:
  assumes "h < 2 ^ k" "probe (2 ^ k) h n = h"
  shows "2 ^ k dvd n"
proof -
  have "(5 ^ n * h + geo n) mod 2 ^ k = h mod 2 ^ k"
    using probe_geo [OF assms(1), of n] assms by simp
  moreover have "h \<le> 5 ^ n * h + geo n"
    by (simp add: trans_le_add1)
  ultimately have "2 ^ k dvd (5 ^ n * h + geo n) - h"
    by (simp add: mod_eq_dvd_iff_nat)
  also have "5 ^ n * h + geo n - h = geo n * (4 * h + 1)"
    by (simp add: geo_power [symmetric] algebra_simps)
  finally have "2 ^ k dvd geo n"
    by (subst (asm) coprime_dvd_mult_left_iff) simp_all
  then show ?thesis
    by (simp add: geo_dvd)
qed

lemma probe_cycle: "h < 2 ^ k \<Longrightarrow> probe (2 ^ k) h (2 ^ k) = h"
proof -
  assume h: "h < 2 ^ k"
  have "5 ^ 2 ^ k * h + geo (2 ^ k) = h + geo (2 ^ k) * (4 * h + 1)"
    by (simp add: geo_power [symmetric] algebra_simps)
  moreover have "2 ^ k dvd geo (2 ^ k) * (4 * h + 1)"
    using geo_dvd [of k "2 ^ k"] by simp
  ultimately show ?thesis
    using probe_geo [OF h, of "2 ^ k"] h by (metis mod_add_self2 dvdE mod_less mod_mult_self2)
qed

text \<open>The map is injective on the slots, so that the first slot that comes again is the first one of all.\<close>

lemma probe_next_inj:
  assumes "x < 2 ^ k" "y < 2 ^ k" "probe_next (2 ^ k) x = probe_next (2 ^ k) y"
  shows "x = y"
proof -
  have "x = probe (2 ^ k) x (2 ^ k)" "y = probe (2 ^ k) y (2 ^ k)"
    using probe_cycle assms by simp_all
  moreover have "probe (2 ^ k) x (2 ^ k) = probe (2 ^ k) (probe_next (2 ^ k) x) (2 ^ k - 1)" for x
    by (simp add: probe_shift)
  ultimately show ?thesis
    using assms(3) by metis
qed

lemma probe_inj_step:
  assumes "h < 2 ^ k" "probe (2 ^ k) h i = probe (2 ^ k) h (i + n)"
  shows "probe (2 ^ k) h n = h"
  using assms(2)
proof (induction i)
  case (Suc i)
  then show ?case
    using probe_next_inj [OF probe_less [OF assms(1), of i] probe_less [OF assms(1), of "i + n"]]
    by (simp add: probe_Suc)
qed simp

lemma probe_distinct:
  assumes "h < 2 ^ k" "i < 2 ^ k" "j < 2 ^ k" "probe (2 ^ k) h i = probe (2 ^ k) h j"
  shows "i = j"
proof -
  have "i = j" if "i \<le> j" "j < 2 ^ k" "probe (2 ^ k) h i = probe (2 ^ k) h j" for i j
  proof -
    have "2 ^ k dvd j - i"
      using that probe_inj_step [OF assms(1), of i "j - i"] by (intro probe_return [OF assms(1)]) simp
    then have "\<not> 0 < j - i"
      using that(2) dvd_imp_le [of "2 ^ k" "j - i"] by linarith
    then show ?thesis
      using that(1) by simp
  qed
  then show ?thesis
    using assms by (metis nle_le)
qed

lemma probe_covers:
  assumes "h < 2 ^ k" "p < 2 ^ k"
  shows "\<exists>i < 2 ^ k. probe (2 ^ k) h i = p"
proof -
  have "inj_on (probe (2 ^ k) h) {..<2 ^ k}"
    using probe_distinct [OF assms(1)] by (auto intro: inj_onI)
  then have "card (probe (2 ^ k) h ` {..<2 ^ k}) = 2 ^ k"
    by (simp add: card_image)
  moreover have "probe (2 ^ k) h ` {..<2 ^ k} \<subseteq> {..<2 ^ k}"
    using probe_less [OF assms(1)] by auto
  ultimately have "probe (2 ^ k) h ` {..<2 ^ k} = {..<2 ^ k}"
    by (intro card_subset_eq) auto
  then show ?thesis
    using assms(2) by (metis imageE lessThan_iff)
qed

end
