(* ===== verification/IdHash.thy ===== *)
theory IdHash
  imports IdProbe Effects
begin

text \<open>
  The id maps of the bundled NNG (\<^verbatim>\<open>nng/src/core/idhash.c\<close>), by which sockets, contexts and pipes are found
  from the ids that nanonext holds, and outstanding requests from the ids in replies: an open hash table whose
  slots count the keys that were placed beyond them. Keys are \<open>uint64_t\<close>, kept as \<open>nat\<close>; the table sizes
  and the counters are \<open>uint32_t\<close> and kept unbounded: \<open>load_bound\<close> shows how large they get.

  A loop that does not end, or a failed assertion, has the value \<open>None\<close>.
\<close>

section \<open>The table\<close>

record 'v id_entry =
  ie_key :: nat
  ie_skips :: nat
  ie_val :: "'v option"

record 'v id_map =
  id_entries :: "'v id_entry list"
  id_cap :: nat
  id_count :: nat
  id_load :: nat
  id_min_load :: nat
  id_max_load :: nat
  id_min_val :: nat
  id_max_val :: nat
  id_dyn_val :: nat
  id_random :: bool
  id_static :: bool
  id_registered :: bool

definition empty_entry :: "'v id_entry" where
  "empty_entry = \<lparr>ie_key = 0, ie_skips = 0, ie_val = None\<rparr>"

definition nni_id_map_init :: "nat \<Rightarrow> nat \<Rightarrow> bool \<Rightarrow> 'v id_map option" where
  "nni_id_map_init lo hi randomize =
     (let lo = (if lo = 0 then 1 else lo); hi = (if hi = 0 then 0xffffffff else hi) in
      if \<not> hi > lo then None
      else Some \<lparr>id_entries = [], id_cap = 0, id_count = 0, id_load = 0, id_min_load = 0, id_max_load = 0,
             id_min_val = lo, id_max_val = hi, id_dyn_val = 0, id_random = randomize, id_static = False,
             id_registered = False\<rparr>)"

definition nni_id_map_fini :: "'v id_map \<Rightarrow> 'v id_map" where
  "nni_id_map_fini m =
     (if id_entries m \<noteq> [] then
        m\<lparr>id_entries := [], id_cap := 0, id_count := 0, id_load := 0, id_min_load := 0, id_max_load := 0\<rparr>
      else m)"

definition ID_NEXT :: "nat \<Rightarrow> nat \<Rightarrow> nat" where
  "ID_NEXT cap j = and (j * 5 + 1) (cap - 1)"

definition ID_INDEX :: "nat \<Rightarrow> nat \<Rightarrow> nat" where
  "ID_INDEX cap j = and j (cap - 1)"

partial_function (option) find_loop ::
  "nat \<Rightarrow> 'v id_entry list \<Rightarrow> nat \<Rightarrow> nat \<Rightarrow> nat \<Rightarrow> nat option option" where
  "find_loop cap es key start index =
     (if ie_key (es ! index) = key \<and> ie_val (es ! index) \<noteq> None then Some (Some index)
      else if ie_skips (es ! index) = 0 then Some None
      else (let index = ID_NEXT cap index in
            if index = start then Some None else find_loop cap es key start index))"

definition id_find :: "'v id_map \<Rightarrow> nat \<Rightarrow> nat option option" where
  "id_find m key =
     (if id_count m = 0 then Some None
      else find_loop (id_cap m) (id_entries m) key (ID_INDEX (id_cap m) key) (ID_INDEX (id_cap m) key))"

definition nni_id_get :: "'v id_map \<Rightarrow> nat \<Rightarrow> 'v option option" where
  "nni_id_get m key =
     map_option (\<lambda>r. case r of None \<Rightarrow> None | Some index \<Rightarrow> ie_val (id_entries m ! index)) (id_find m key)"

section \<open>Growing and shrinking\<close>

text \<open>
  A map that was initialized statically is entered in a list before it gets its first table; \<open>reg\<close> says
  whether there is memory for that, \<open>mem\<close> whether there is for the new table.
\<close>

definition id_map_register :: "bool \<Rightarrow> 'v id_map \<Rightarrow> 'v id_map \<times> int" where
  "id_map_register reg m =
     (if \<not> (id_static m \<and> \<not> id_registered m) then (m, 0)
      else if \<not> reg then (m, NNG_ENOMEM)
      else (m\<lparr>id_registered := True\<rparr>, 0))"

partial_function (option) new_cap_loop :: "nat \<Rightarrow> nat \<Rightarrow> nat option" where
  "new_cap_loop n new_cap = (if new_cap < n * 2 then new_cap_loop n (new_cap * 2) else Some new_cap)"

partial_function (option) rehash_loop ::
  "nat \<Rightarrow> nat \<Rightarrow> 'v \<Rightarrow> 'v id_entry list \<Rightarrow> nat \<Rightarrow> nat \<Rightarrow> ('v id_entry list \<times> nat) option" where
  "rehash_loop cap key v es load index =
     (let load = load + 1; e = es ! index in
      if ie_val e = None then
        (if ie_skips e \<noteq> 0 then None
         else Some (es[index := e\<lparr>ie_val := Some v, ie_key := key\<rparr>], load))
      else rehash_loop cap key v (es[index := e\<lparr>ie_skips := ie_skips e + 1\<rparr>]) load (ID_NEXT cap index))"

fun rehash_all :: "nat \<Rightarrow> 'v id_entry list \<Rightarrow> 'v id_entry list \<Rightarrow> nat \<Rightarrow> ('v id_entry list \<times> nat) option" where
  "rehash_all cap [] es load = Some (es, load)"
| "rehash_all cap (old # olds) es load =
     (case ie_val old of
        None \<Rightarrow> rehash_all cap olds es load
      | Some v \<Rightarrow>
          (case rehash_loop cap (ie_key old) v es load (ID_INDEX cap (ie_key old)) of
             None \<Rightarrow> None
           | Some (es, load) \<Rightarrow> rehash_all cap olds es load))"

definition id_resize :: "bool \<Rightarrow> bool \<Rightarrow> 'v id_map \<Rightarrow> ('v id_map \<times> int) option" where
  "id_resize reg mem m =
     (if id_load m < id_max_load m \<and> id_load m \<ge> id_min_load m then Some (m, 0)
      else
        (case id_map_register reg m of (m, rv) \<Rightarrow>
          if rv \<noteq> 0 then Some (m, rv)
          else
            (case new_cap_loop (id_count m) 8 of
               None \<Rightarrow> None
             | Some new_cap \<Rightarrow>
                 (if new_cap = id_cap m then Some (m, 0)
                  else if \<not> mem then Some (m, NNG_ENOMEM)
                  else
                    (case rehash_all new_cap (id_entries m) (replicate new_cap empty_entry) 0 of
                       None \<Rightarrow> None
                     | Some (es, load) \<Rightarrow>
                         Some (m\<lparr>id_entries := es, id_cap := new_cap, id_load := load,
                                 id_min_load := (if new_cap > 8 then new_cap div 8 else 0),
                                 id_max_load := (if new_cap > 8 then new_cap * 2 div 3 else 5)\<rparr>, 0))))))"

section \<open>The operations\<close>

partial_function (option) remove_loop ::
  "nat \<Rightarrow> nat \<Rightarrow> 'v id_entry list \<Rightarrow> nat \<Rightarrow> nat \<Rightarrow> ('v id_entry list \<times> nat) option" where
  "remove_loop cap index es load pos =
     (let load = load - 1; e = es ! pos in
      if pos = index then Some (es[pos := e\<lparr>ie_val := None, ie_key := 0\<rparr>], load)
      else if ie_skips e = 0 then None
      else remove_loop cap index (es[pos := e\<lparr>ie_skips := ie_skips e - 1\<rparr>]) load (ID_NEXT cap pos))"

definition nni_id_remove :: "bool \<Rightarrow> bool \<Rightarrow> 'v id_map \<Rightarrow> nat \<Rightarrow> ('v id_map \<times> int) option" where
  "nni_id_remove reg mem m key =
     (case id_find m key of
        None \<Rightarrow> None
      | Some None \<Rightarrow> Some (m, NNG_ENOENT)
      | Some (Some index) \<Rightarrow>
          (case remove_loop (id_cap m) index (id_entries m) (id_load m) (ID_INDEX (id_cap m) key) of
             None \<Rightarrow> None
           | Some (es, load) \<Rightarrow>
               map_option (\<lambda>(m, _). (m, 0))
                 (id_resize reg mem (m\<lparr>id_entries := es, id_load := load, id_count := id_count m - 1\<rparr>))))"

partial_function (option) set_loop ::
  "nat \<Rightarrow> nat \<Rightarrow> 'v \<Rightarrow> 'v id_entry list \<Rightarrow> nat \<Rightarrow> nat \<Rightarrow> ('v id_entry list \<times> nat) option" where
  "set_loop cap key v es load index =
     (let load = load + 1; ent = es ! index in
      if ie_val ent = None then Some (es[index := ent\<lparr>ie_key := key, ie_val := Some v\<rparr>], load)
      else set_loop cap key v (es[index := ent\<lparr>ie_skips := ie_skips ent + 1\<rparr>]) load (ID_NEXT cap index))"

definition nni_id_set :: "bool \<Rightarrow> bool \<Rightarrow> 'v id_map \<Rightarrow> nat \<Rightarrow> 'v \<Rightarrow> ('v id_map \<times> int) option" where
  "nni_id_set reg mem m key v =
     (case id_resize reg mem m of
        None \<Rightarrow> None
      | Some (m, rv) \<Rightarrow>
          (if rv \<noteq> 0 then Some (m, NNG_ENOMEM)
           else
             (case id_find m key of
                None \<Rightarrow> None
              | Some (Some index) \<Rightarrow>
                  Some (m\<lparr>id_entries := (id_entries m)[index := (id_entries m ! index)\<lparr>ie_val := Some v\<rparr>]\<rparr>, 0)
              | Some None \<Rightarrow>
                  map_option
                    (\<lambda>(es, load). (m\<lparr>id_entries := es, id_load := load, id_count := id_count m + 1\<rparr>, 0))
                    (set_loop (id_cap m) key v (id_entries m) (id_load m) (ID_INDEX (id_cap m) key)))))"

text \<open>
  A new id: the next one that is not taken, from where the last search ended. \<open>rnd\<close> is the random number
  that a randomized map starts from.
\<close>

partial_function (option) alloc_loop :: "'v id_map \<Rightarrow> ('v id_map \<times> nat) option" where
  "alloc_loop m =
     (let key = id_dyn_val m;
          dyn = (id_dyn_val m + 1) mod 2 ^ 64;
          m = m\<lparr>id_dyn_val := (if dyn > id_max_val m then id_min_val m else dyn)\<rparr>
      in case id_find m key of
           None \<Rightarrow> None
         | Some None \<Rightarrow> Some (m, key)
         | Some (Some _) \<Rightarrow> alloc_loop m)"

definition nni_id_alloc ::
  "bool \<Rightarrow> bool \<Rightarrow> nat \<Rightarrow> 'v id_map \<Rightarrow> 'v \<Rightarrow> ('v id_map \<times> (int + nat)) option" where
  "nni_id_alloc reg mem rnd m v =
     (if id_count m > id_max_val m - id_min_val m then Some (m, Inl NNG_ENOMEM)
      else
        (let m = (if id_dyn_val m = 0 then
                    m\<lparr>id_dyn_val := (if id_random m then rnd mod (id_max_val m - id_min_val m + 1) + id_min_val m
                                    else id_min_val m)\<rparr>
                  else m)
         in case alloc_loop m of
              None \<Rightarrow> None
            | Some (m, key) \<Rightarrow>
                map_option (\<lambda>(m, rv). (m, if rv = 0 then Inr key else Inl rv)) (nni_id_set reg mem m key v)))"

text \<open>One step of a walk over the map: the key and value of the next entry, and the new cursor.\<close>

fun visit_loop :: "'v id_entry list \<Rightarrow> nat \<Rightarrow> (nat \<times> 'v) option \<times> nat" where
  "visit_loop [] index = (None, index)"
| "visit_loop (e # es) index =
     (case ie_val e of Some v \<Rightarrow> (Some (ie_key e, v), index + 1) | None \<Rightarrow> visit_loop es (index + 1))"

definition nni_id_visit :: "'v id_map \<Rightarrow> nat \<Rightarrow> (nat \<times> 'v) option \<times> nat" where
  "nni_id_visit m cursor = visit_loop (drop cursor (take (id_cap m) (id_entries m))) cursor"

section \<open>What a table holds\<close>

definition occ :: "'v id_entry list \<Rightarrow> nat set" where
  "occ es = {p. p < length es \<and> ie_val (es ! p) \<noteq> None}"

definition id_pairs :: "'v id_entry list \<Rightarrow> (nat \<times> 'v) list" where
  "id_pairs es = map (\<lambda>e. (ie_key e, the (ie_val e))) (filter (\<lambda>e. ie_val e \<noteq> None) es)"

definition id_alpha :: "'v id_entry list \<Rightarrow> nat \<Rightarrow> 'v option" where
  "id_alpha es = map_of (id_pairs es)"

lemma keys_distinct_iff:
  "distinct (map f (filter P xs)) \<longleftrightarrow> inj_on (\<lambda>i. f (xs ! i)) {i. i < length xs \<and> P (xs ! i)}"
proof (induction xs)
  case (Cons x xs)
  let ?I = "\<lambda>xs. {i. i < length xs \<and> P (xs ! i)}"
  have split: "?I (x # xs) = (if P x then {0} else {}) \<union> Suc ` ?I xs"
  proof (rule set_eqI)
    fix j
    show "j \<in> ?I (x # xs) \<longleftrightarrow> j \<in> (if P x then {0} else {}) \<union> Suc ` ?I xs"
      by (cases j) auto
  qed
  have "f x \<in> f ` set (filter P xs) \<longleftrightarrow> (\<exists>i \<in> ?I xs. f x = f (xs ! i))"
    by (auto simp: in_set_conv_nth image_iff)
  moreover have "inj_on (\<lambda>i. f ((x # xs) ! i)) (Suc ` ?I xs) \<longleftrightarrow> inj_on (\<lambda>i. f (xs ! i)) (?I xs)"
    by (auto simp: inj_on_def)
  ultimately show ?case
    using Cons unfolding split by (auto simp: inj_on_insert image_iff)
qed simp

lemma id_pairs_set: "set (id_pairs es) = (\<lambda>p. (ie_key (es ! p), the (ie_val (es ! p)))) ` occ es"
  by (auto simp: id_pairs_def occ_def in_set_conv_nth image_iff)

lemma length_id_pairs: "length (id_pairs es) = card (occ es)"
  by (simp add: id_pairs_def occ_def length_filter_conv_card)

lemma id_keys_iff: "distinct (map fst (id_pairs es)) \<longleftrightarrow> inj_on (\<lambda>p. ie_key (es ! p)) (occ es)"
  using keys_distinct_iff [of ie_key "\<lambda>e. ie_val e \<noteq> None" es] by (simp add: id_pairs_def occ_def comp_def)

lemma finite_occ [simp]: "finite (occ es)"
  by (simp add: occ_def)

text \<open>How far a key lies from its first slot, and the keys that were placed beyond a slot.\<close>

definition home :: "nat \<Rightarrow> 'v id_entry list \<Rightarrow> nat \<Rightarrow> nat" where
  "home c es p = ie_key (es ! p) mod c"

definition dist :: "nat \<Rightarrow> 'v id_entry list \<Rightarrow> nat \<Rightarrow> nat" where
  "dist c es p = (LEAST d. probe c (home c es p) d = p)"

definition passes :: "nat \<Rightarrow> 'v id_entry list \<Rightarrow> nat \<Rightarrow> nat set" where
  "passes c es q = {p \<in> occ es. \<exists>i < dist c es p. probe c (home c es p) i = q}"

definition wf_table :: "nat \<Rightarrow> 'v id_entry list \<Rightarrow> nat \<Rightarrow> bool" where
  "wf_table c es load \<longleftrightarrow> length es = c \<and> (\<exists>k. c = 2 ^ k) \<and> inj_on (\<lambda>p. ie_key (es ! p)) (occ es)
     \<and> (\<forall>q < c. ie_skips (es ! q) = card (passes c es q)) \<and> load = (\<Sum>p \<in> occ es. dist c es p + 1)"

lemma finite_passes [simp]: "finite (passes c es q)"
  by (simp add: passes_def)

lemma ID_INDEX_mod: "c = 2 ^ k \<Longrightarrow> ID_INDEX c j = j mod c"
  by (simp add: ID_INDEX_def take_bit_eq_mod [symmetric] take_bit_eq_mask mask_eq_exp_minus_1)

lemma ID_NEXT_probe: "c = 2 ^ k \<Longrightarrow> ID_NEXT c j = probe_next c j"
  by (simp add: ID_NEXT_def probe_next_def take_bit_eq_mod [symmetric] take_bit_eq_mask mask_eq_exp_minus_1)

lemma dist_eq:
  assumes "c = 2 ^ k" "d < c" "probe c (home c es p) d = p"
  shows "dist c es p = d"
  unfolding dist_def
proof (rule Least_equality)
  fix e
  assume e: "probe c (home c es p) e = p"
  show "d \<le> e"
  proof (rule ccontr)
    assume "\<not> d \<le> e"
    then show False
      using probe_distinct [of "home c es p" k d e] assms e by (simp add: home_def)
  qed
qed (fact assms(3))

lemma dist_at:
  assumes "c = 2 ^ k" "p < c"
  shows "dist c es p < c \<and> probe c (home c es p) (dist c es p) = p"
proof -
  obtain i where "i < c" "probe c (home c es p) i = p"
    using probe_covers [of "home c es p" k p] assms by (auto simp: home_def)
  then show ?thesis
    using dist_eq [OF assms(1)] by blast
qed

lemma id_alpha_iff:
  assumes "inj_on (\<lambda>p. ie_key (es ! p)) (occ es)"
  shows "id_alpha es key = Some v \<longleftrightarrow> (key, v) \<in> set (id_pairs es)"
  using assms unfolding id_alpha_def id_keys_iff [symmetric] by simp

section \<open>Finding\<close>

lemma find_to:
  assumes "c = 2 ^ k" "h < c" "d < c"
    and "\<forall>i < d. \<not> (ie_key (es ! probe c h i) = key \<and> ie_val (es ! probe c h i) \<noteq> None) \<and> ie_skips (es ! probe c h i) \<noteq> 0"
  shows "find_loop c es key h h = find_loop c es key h (probe c h d)"
  using assms(3,4)
proof (induction d)
  case (Suc d)
  have "probe c h (Suc d) \<noteq> h"
    using probe_distinct [of h k "Suc d" 0] Suc.prems(1) assms(1,2) by auto
  then have "find_loop c es key h (probe c h d) = find_loop c es key h (probe c h (Suc d))"
    using Suc.prems(2) by (subst find_loop.simps) (auto simp: ID_NEXT_probe [OF assms(1)] probe_Suc Let_def)
  then show ?case
    using Suc by simp
qed simp

lemma find_present:
  assumes "wf_table c es load" "p \<in> occ es" "ie_key (es ! p) = key"
  shows "find_loop c es key (key mod c) (key mod c) = Some (Some p)"
proof -
  obtain k where c: "c = 2 ^ k" and len: "length es = c"
    using assms(1) by (auto simp: wf_table_def)
  have p: "p < c"
    using assms(2) len by (simp add: occ_def)
  have h: "home c es p = key mod c" "key mod c < c"
    using assms(3) c by (simp_all add: home_def)
  define d where "d = dist c es p"
  have d: "d < c" "probe c (key mod c) d = p"
    using dist_at [OF c p, of es] h by (simp_all add: d_def)
  have "\<forall>i < d. \<not> (ie_key (es ! probe c (key mod c) i) = key \<and> ie_val (es ! probe c (key mod c) i) \<noteq> None)
      \<and> ie_skips (es ! probe c (key mod c) i) \<noteq> 0"
  proof (intro allI impI conjI)
    fix i
    assume i: "i < d"
    let ?q = "probe c (key mod c) i"
    have q: "?q < c" "?q \<noteq> p"
      using probe_less h(2) probe_distinct [of "key mod c" k i d] i d c by auto
    show "\<not> (ie_key (es ! ?q) = key \<and> ie_val (es ! ?q) \<noteq> None)"
      using assms q len by (auto simp: wf_table_def inj_on_def occ_def)
    have "p \<in> passes c es ?q"
      using assms(2) i h(1) by (auto simp: passes_def d_def)
    then show "ie_skips (es ! ?q) \<noteq> 0"
      using assms(1) q(1) by (auto simp: wf_table_def)
  qed
  from find_to [OF c h(2) d(1) this] have "find_loop c es key (key mod c) (key mod c) = find_loop c es key (key mod c) p"
    by (simp add: d(2))
  then show ?thesis
    using assms(2,3) by (simp add: find_loop.simps [of c es key "key mod c" p] occ_def)
qed

lemma find_absent:
  assumes "wf_table c es load" "\<forall>p \<in> occ es. ie_key (es ! p) \<noteq> key"
  shows "find_loop c es key (key mod c) (key mod c) = Some None"
proof -
  obtain k where c: "c = 2 ^ k" and len: "length es = c"
    using assms(1) by (auto simp: wf_table_def)
  let ?h = "key mod c"
  have h: "?h < c"
    by (simp add: c)
  have no: "\<not> (ie_key (es ! probe c ?h i) = key \<and> ie_val (es ! probe c ?h i) \<noteq> None)" for i
    using assms(2) probe_less [OF h, of i] len by (auto simp: occ_def)
  show ?thesis
  proof (cases "\<exists>d < c. ie_skips (es ! probe c ?h d) = 0")
    case True
    define d where "d = (LEAST d. ie_skips (es ! probe c ?h d) = 0)"
    have d: "ie_skips (es ! probe c ?h d) = 0" "\<forall>i < d. ie_skips (es ! probe c ?h i) \<noteq> 0"
      using LeastI_ex [of "\<lambda>d. ie_skips (es ! probe c ?h d) = 0"] True not_less_Least
      unfolding d_def by blast+
    have "d < c"
      using True Least_le [of "\<lambda>d. ie_skips (es ! probe c ?h d) = 0"] unfolding d_def by (meson le_less_trans)
    then have "find_loop c es key ?h ?h = find_loop c es key ?h (probe c ?h d)"
      using no d by (intro find_to [OF c h]) auto
    then show ?thesis
      using no [of d] d(1) by (simp add: find_loop.simps [of c es key ?h "probe c ?h d"])
  next
    case False
    have "find_loop c es key ?h ?h = find_loop c es key ?h (probe c ?h (c - 1))"
      using no False h by (intro find_to [OF c h]) auto
    moreover have "ID_NEXT c (probe c ?h (c - 1)) = ?h"
    proof -
      have "ID_NEXT c (probe c ?h (c - 1)) = probe c ?h (Suc (c - 1))"
        by (simp only: ID_NEXT_probe [OF c] probe_Suc)
      then show ?thesis
        using probe_cycle [of ?h k] h c by simp
    qed
    ultimately show ?thesis
      using no [of "c - 1"] False h by (simp add: find_loop.simps [of c es key ?h "probe c ?h (c - Suc 0)"] Let_def)
  qed
qed

section \<open>Placing and removing a key\<close>

text \<open>
  What a loop leaves that walks \<open>d\<close> slots from \<open>h\<close>, changing each by \<open>f\<close>, and the one it ends at by \<open>g\<close>.
\<close>

definition walked :: "nat \<Rightarrow> nat \<Rightarrow> nat \<Rightarrow> ('e \<Rightarrow> 'e) \<Rightarrow> ('e \<Rightarrow> 'e) \<Rightarrow> 'e list \<Rightarrow> 'e list" where
  "walked c h d f g es =
     map (\<lambda>q. if q = probe c h d then g (es ! q)
              else if \<exists>i < d. probe c h i = q then f (es ! q) else es ! q) [0..<length es]"

lemma walked_0: "h < length es \<Longrightarrow> walked c h 0 f g es = es[h := g (es ! h)]"
  by (auto simp: walked_def nth_list_update intro!: nth_equalityI)

lemma walked_Suc:
  assumes "c = 2 ^ k" "h < c" "Suc d < c" "length es = c"
  shows "walked c h (Suc d) f g es = walked c (probe_next c h) d f g (es[h := f (es ! h)])"
proof (rule nth_equalityI)
  fix q
  assume "q < length (walked c h (Suc d) f g es)"
  then have q: "q < c"
    by (simp add: walked_def assms(4))
  have away: "probe c h (Suc i) \<noteq> h" if "i \<le> d" for i
    using probe_distinct [of h k "Suc i" 0] that assms by auto
  have "(\<exists>i < Suc d. probe c h i = q) \<longleftrightarrow> q = h \<or> (\<exists>i < d. probe c h (Suc i) = q)"
    by (auto simp: less_Suc_eq_0_disj)
  then show "walked c h (Suc d) f g es ! q = walked c (probe_next c h) d f g (es[h := f (es ! h)]) ! q"
    using q away away [THEN not_sym] assms(2,4) by (auto simp: walked_def probe_shift nth_list_update)
qed (simp add: walked_def)

lemma entry_order: "e\<lparr>ie_val := w, ie_key := n\<rparr> = e\<lparr>ie_key := n, ie_val := w\<rparr>"
  by (cases e) simp

lemma set_loop_run:
  assumes "c = 2 ^ k" "h < c" "d < c" "length es = c"
    and "\<forall>i < d. ie_val (es ! probe c h i) \<noteq> None" "ie_val (es ! probe c h d) = None"
  shows "set_loop c key v es load h =
    Some (walked c h d (\<lambda>e. e\<lparr>ie_skips := ie_skips e + 1\<rparr>) (\<lambda>e. e\<lparr>ie_key := key, ie_val := Some v\<rparr>) es, load + (d + 1))"
  using assms(2-6)
proof (induction d arbitrary: h es load)
  case 0
  then show ?case
    by (simp add: set_loop.simps [of c key v es load h] walked_0)
next
  case (Suc d)
  let ?es = "es[h := (es ! h)\<lparr>ie_skips := ie_skips (es ! h) + 1\<rparr>]"
  have h: "ie_val (es ! h) \<noteq> None"
    using Suc.prems(4) by (metis probe_0 zero_less_Suc)
  have val: "ie_val (?es ! q) = ie_val (es ! q)" for q
    by (cases "q = h"; cases "h < length es") (simp_all add: not_less list_update_beyond)
  have "set_loop c key v ?es (load + 1) (probe_next c h) =
    Some (walked c (probe_next c h) d (\<lambda>e. e\<lparr>ie_skips := ie_skips e + 1\<rparr>) (\<lambda>e. e\<lparr>ie_key := key, ie_val := Some v\<rparr>) ?es,
      load + 1 + (d + 1))"
    using Suc.prems by (intro Suc.IH) (auto simp: val [simplified] probe_shift probe_next_less)
  then show ?case
    using h walked_Suc [OF assms(1) Suc.prems(1,2,3)]
    by (simp add: set_loop.simps [of c key v es load h] ID_NEXT_probe [OF assms(1)] Let_def)
qed

lemma rehash_loop_run:
  assumes "c = 2 ^ k" "h < c" "d < c" "length es = c"
    and "\<forall>i < d. ie_val (es ! probe c h i) \<noteq> None" "ie_val (es ! probe c h d) = None" "ie_skips (es ! probe c h d) = 0"
  shows "rehash_loop c key v es load h =
    Some (walked c h d (\<lambda>e. e\<lparr>ie_skips := ie_skips e + 1\<rparr>) (\<lambda>e. e\<lparr>ie_key := key, ie_val := Some v\<rparr>) es, load + (d + 1))"
  using assms(2-7)
proof (induction d arbitrary: h es load)
  case 0
  then show ?case
    by (simp add: rehash_loop.simps [of c key v es load h] walked_0 entry_order)
next
  case (Suc d)
  let ?es = "es[h := (es ! h)\<lparr>ie_skips := ie_skips (es ! h) + 1\<rparr>]"
  have h: "ie_val (es ! h) \<noteq> None"
    using Suc.prems(4) by (metis probe_0 zero_less_Suc)
  have away: "probe c h (Suc d) \<noteq> h"
    using probe_distinct [of h k "Suc d" 0] Suc.prems assms(1) by auto
  have val: "ie_val (?es ! q) = ie_val (es ! q)" for q
    by (cases "q = h"; cases "h < length es") (simp_all add: not_less list_update_beyond)
  have "rehash_loop c key v ?es (load + 1) (probe_next c h) =
    Some (walked c (probe_next c h) d (\<lambda>e. e\<lparr>ie_skips := ie_skips e + 1\<rparr>) (\<lambda>e. e\<lparr>ie_key := key, ie_val := Some v\<rparr>) ?es,
      load + 1 + (d + 1))"
    using Suc.prems away by (intro Suc.IH) (auto simp: val [simplified] probe_shift probe_next_less)
  then show ?case
    using h walked_Suc [OF assms(1) Suc.prems(1,2,3)]
    by (simp add: rehash_loop.simps [of c key v es load h] ID_NEXT_probe [OF assms(1)] Let_def)
qed

lemma remove_loop_run:
  assumes "c = 2 ^ k" "h < c" "d < c" "length es = c" "\<forall>i < d. ie_skips (es ! probe c h i) \<noteq> 0"
  shows "remove_loop c (probe c h d) es load h =
    Some (walked c h d (\<lambda>e. e\<lparr>ie_skips := ie_skips e - 1\<rparr>) (\<lambda>e. e\<lparr>ie_val := None, ie_key := 0\<rparr>) es, load - (d + 1))"
  using assms(2-5)
proof (induction d arbitrary: h es load)
  case 0
  then show ?case
    by (simp add: remove_loop.simps [of c h es load h] walked_0)
next
  case (Suc d)
  let ?es = "es[h := (es ! h)\<lparr>ie_skips := ie_skips (es ! h) - 1\<rparr>]"
  have h: "ie_skips (es ! h) \<noteq> 0"
    using Suc.prems(4) by (metis probe_0 zero_less_Suc)
  have away: "probe c h (Suc i) \<noteq> h" if "i \<le> d" for i
    using probe_distinct [of h k "Suc i" 0] that Suc.prems assms(1) by auto
  have "ie_skips (?es ! probe c (probe_next c h) i) \<noteq> 0" if "i < d" for i
    using away [of i] Suc.prems(4) that by (simp add: probe_shift)
  moreover have "remove_loop c (probe c (probe_next c h) d) ?es (load - 1) (probe_next c h) =
    Some (walked c (probe_next c h) d (\<lambda>e. e\<lparr>ie_skips := ie_skips e - 1\<rparr>) (\<lambda>e. e\<lparr>ie_val := None, ie_key := 0\<rparr>) ?es,
      load - 1 - (d + 1))"
    using Suc.prems calculation by (intro Suc.IH) (auto simp: probe_next_less)
  ultimately show ?case
    using h away [of d] walked_Suc [OF assms(1) Suc.prems(1,2,3)]
    by (simp add: remove_loop.simps [of c _ es load h] ID_NEXT_probe [OF assms(1)] probe_shift Let_def)
qed

lemma nth_walked: "q < length es \<Longrightarrow> walked c h d f g es ! q =
    (if q = probe c h d then g (es ! q) else if \<exists>i < d. probe c h i = q then f (es ! q) else es ! q)"
  by (auto simp: walked_def)

lemma length_walked [simp]: "length (walked c h d f g es) = length es"
  by (simp add: walked_def)

lemma wf_tableD:
  assumes "wf_table c es load"
  shows "length es = c" "inj_on (\<lambda>p. ie_key (es ! p)) (occ es)" "q < c \<Longrightarrow> ie_skips (es ! q) = card (passes c es q)"
    "load = (\<Sum>p \<in> occ es. dist c es p + 1)" "p \<in> occ es \<Longrightarrow> p < c"
  using assms by (auto simp: wf_table_def occ_def)

lemma probe_earlier: "c = 2 ^ k \<Longrightarrow> h < c \<Longrightarrow> d < c \<Longrightarrow> i < d \<Longrightarrow> probe c h i \<noteq> probe c h d"
  using probe_distinct [of h k i d] by auto

lemma free_slot:
  assumes "wf_table c es load" "card (occ es) < c"
  shows "\<exists>d < c. (\<forall>i < d. ie_val (es ! probe c (key mod c) i) \<noteq> None) \<and> ie_val (es ! probe c (key mod c) d) = None"
proof -
  obtain k where c: "c = 2 ^ k" and len: "length es = c"
    using assms(1) by (auto simp: wf_table_def)
  have "\<exists>q < c. ie_val (es ! q) = None"
  proof (rule ccontr)
    assume "\<not> (\<exists>q < c. ie_val (es ! q) = None)"
    then have "occ es = {..<c}"
      using len by (auto simp: occ_def)
    then show False
      using assms(2) by simp
  qed
  then obtain q where q: "q < c" "ie_val (es ! q) = None"
    by blast
  obtain i where i: "i < c" "ie_val (es ! probe c (key mod c) i) = None"
    using probe_covers [of "key mod c" k q] q by (auto simp: c)
  define d where "d = (LEAST i. ie_val (es ! probe c (key mod c) i) = None)"
  have "ie_val (es ! probe c (key mod c) d) = None" "d \<le> i" "\<forall>i < d. ie_val (es ! probe c (key mod c) i) \<noteq> None"
    unfolding d_def using i(2) by (auto intro: LeastI Least_le dest: not_less_Least)
  then show ?thesis
    using i(1) by (intro exI [of _ d]) auto
qed

text \<open>A key that is not in the table is placed.\<close>

lemma place_wf:
  fixes es :: "'v id_entry list" and v :: 'v
  assumes wf: "wf_table c es load" and new: "\<forall>p \<in> occ es. ie_key (es ! p) \<noteq> key"
    and d: "d < c" "\<forall>i < d. ie_val (es ! probe c (key mod c) i) \<noteq> None" "ie_val (es ! probe c (key mod c) d) = None"
  defines "es' \<equiv> walked c (key mod c) d (\<lambda>e. e\<lparr>ie_skips := ie_skips e + 1\<rparr>) (\<lambda>e. e\<lparr>ie_key := key, ie_val := Some v\<rparr>) es"
  shows "wf_table c es' (load + (d + 1)) \<and> set (id_pairs es') = insert (key, v) (set (id_pairs es))
    \<and> card (occ es') = card (occ es) + 1"
proof -
  obtain k where c: "c = 2 ^ k"
    using wf by (auto simp: wf_table_def)
  note es = wf_tableD [OF wf]
  define P where "P = probe c (key mod c) d"
  have P: "P < c" "P \<notin> occ es"
    using probe_less [of "key mod c" c d] d(3) by (simp_all add: P_def c occ_def)
  have nth: "es' ! q = (if q = P then (es ! q)\<lparr>ie_key := key, ie_val := Some v\<rparr>
      else if \<exists>i < d. probe c (key mod c) i = q then (es ! q)\<lparr>ie_skips := ie_skips (es ! q) + 1\<rparr> else es ! q)"
    if "q < c" for q
    using that es(1) by (simp add: es'_def nth_walked P_def)
  have len: "length es' = c"
    by (simp add: es'_def es(1))
  have same: "ie_key (es' ! p) = ie_key (es ! p)" "ie_val (es' ! p) = ie_val (es ! p)" if "p < c" "p \<noteq> P" for p
    using that by (auto simp: nth)
  have occ: "occ es' = insert P (occ es)"
    using P(1) same by (auto simp: occ_def len es(1) nth split: if_splits)
  have dist: "dist c es' p = dist c es p" "home c es' p = home c es p" if "p \<in> occ es" for p
  proof -
    have "p \<noteq> P"
      using that P(2) by auto
    then show "dist c es' p = dist c es p" "home c es' p = home c es p"
      using same [OF es(5) [OF that]] by (simp_all add: dist_def home_def)
  qed
  have "home c es' P = key mod c"
    using P by (simp add: home_def nth)
  then have distP: "dist c es' P = d" "home c es' P = key mod c"
    using dist_eq [OF c d(1), of es' P] by (simp_all add: P_def)
  have passes: "passes c es' q = passes c es q \<union> (if \<exists>i < d. probe c (key mod c) i = q then {P} else {})" for q
    using P(2) dist distP by (auto simp: passes_def occ)
  have notin: "P \<notin> passes c es q" for q
    using P(2) by (simp add: passes_def)
  have "ie_skips (es' ! q) = card (passes c es' q)" if q: "q < c" for q
  proof (cases "q = P")
    case True
    have "\<not> (\<exists>i < d. probe c (key mod c) i = P)"
      using probe_earlier [OF c, of "key mod c" d] d(1) by (auto simp: P_def)
    then show ?thesis
      unfolding nth [OF q] passes using True es(3) [OF q] by auto
  next
    case False
    then show ?thesis
      using es(3) [OF q] notin by (auto simp: nth [OF q] passes)
  qed
  moreover have "inj_on (\<lambda>p. ie_key (es' ! p)) (occ es')"
  proof -
    have "ie_key (es' ! p) = ie_key (es ! p)" if "p \<in> occ es" for p
      using that same(1) [OF es(5) [OF that]] P(2) by metis
    then have "inj_on (\<lambda>p. ie_key (es' ! p)) (occ es)"
      using es(2) by (simp add: inj_on_def)
    moreover have "ie_key (es' ! P) = key" "\<forall>p \<in> occ es. ie_key (es' ! p) \<noteq> key"
      using new P same es(5) by (auto simp: nth)
    ultimately show ?thesis
      unfolding occ by (auto simp: inj_on_def)
  qed
  moreover have "load + (d + 1) = (\<Sum>p \<in> occ es'. dist c es' p + 1)"
    using P(2) dist by (simp add: occ distP es(4))
  ultimately have "wf_table c es' (load + (d + 1))"
    using len c by (auto simp: wf_table_def)
  moreover have "set (id_pairs es') = insert (key, v) (set (id_pairs es))"
  proof -
    have "(ie_key (es' ! p), the (ie_val (es' ! p))) = (ie_key (es ! p), the (ie_val (es ! p)))" if "p \<in> occ es" for p
      using that P(2) same es(5) by metis
    moreover have "(ie_key (es' ! P), the (ie_val (es' ! P))) = (key, v)"
      using P by (simp add: nth)
    ultimately show ?thesis
      unfolding id_pairs_set occ image_insert by (metis (no_types, lifting) image_cong)
  qed
  moreover have "card (occ es') = card (occ es) + 1"
    using P(2) by (simp add: occ)
  ultimately show ?thesis
    by blast
qed

text \<open>A key that is in the table is taken out.\<close>

lemma remove_wf:
  fixes es :: "'v id_entry list"
  assumes wf: "wf_table c es load" and P: "P \<in> occ es" and key: "ie_key (es ! P) = key"
  defines "d \<equiv> dist c es P"
  defines "es' \<equiv> walked c (key mod c) d (\<lambda>e. e\<lparr>ie_skips := ie_skips e - 1\<rparr>) (\<lambda>e. e\<lparr>ie_val := None, ie_key := 0\<rparr>) es"
  shows "d < c \<and> probe c (key mod c) d = P \<and> (\<forall>i < d. ie_skips (es ! probe c (key mod c) i) \<noteq> 0)
    \<and> wf_table c es' (load - (d + 1)) \<and> set (id_pairs es') = {(k, v) \<in> set (id_pairs es). k \<noteq> key}
    \<and> card (occ es') = card (occ es) - 1"
proof -
  obtain k where c: "c = 2 ^ k"
    using wf by (auto simp: wf_table_def)
  note es = wf_tableD [OF wf]
  have home: "home c es P = key mod c"
    by (simp add: home_def key)
  have d: "d < c" "probe c (key mod c) d = P"
    using dist_at [OF c, of P es] es(5) [OF P] by (simp_all add: d_def home)
  have nth: "es' ! q = (if q = P then (es ! q)\<lparr>ie_val := None, ie_key := 0\<rparr>
      else if \<exists>i < d. probe c (key mod c) i = q then (es ! q)\<lparr>ie_skips := ie_skips (es ! q) - 1\<rparr> else es ! q)"
    if "q < c" for q
    using that es(1) d(2) by (auto simp: es'_def nth_walked)
  have len: "length es' = c"
    by (simp add: es'_def es(1))
  have same: "ie_key (es' ! p) = ie_key (es ! p)" "ie_val (es' ! p) = ie_val (es ! p)" if "p < c" "p \<noteq> P" for p
    using that by (auto simp: nth)
  have occ: "occ es' = occ es - {P}"
    using es(5) [OF P] same by (auto simp: occ_def len es(1) nth split: if_splits)
  have dist: "dist c es' p = dist c es p" "home c es' p = home c es p" if "p \<in> occ es" "p \<noteq> P" for p
    using same [OF es(5) [OF that(1)] that(2)] by (simp_all add: dist_def home_def)
  have passes: "passes c es' q = passes c es q - {P}" for q
    using dist by (auto simp: passes_def occ)
  have inP: "P \<in> passes c es q \<longleftrightarrow> (\<exists>i < d. probe c (key mod c) i = q)" for q
    using P by (simp add: passes_def d_def home)
  have skips: "\<forall>i < d. ie_skips (es ! probe c (key mod c) i) \<noteq> 0"
  proof (intro allI impI)
    fix i
    assume "i < d"
    then have "P \<in> passes c es (probe c (key mod c) i)"
      using inP by blast
    moreover have "probe c (key mod c) i < c"
      by (rule probe_less) (simp add: c)
    ultimately show "ie_skips (es ! probe c (key mod c) i) \<noteq> 0"
      using es(3) by (metis card_0_eq empty_iff finite_passes)
  qed
  have "ie_skips (es' ! q) = card (passes c es' q)" if q: "q < c" for q
  proof (cases "q = P")
    case True
    have "\<not> (\<exists>i < d. probe c (key mod c) i = P)"
      using probe_earlier [OF c, of "key mod c" d] d by auto
    then show ?thesis
      unfolding nth [OF q] passes using True es(3) [OF q] inP [of q] by simp
  next
    case False
    then show ?thesis
      using es(3) [OF q] inP [of q] by (auto simp: nth [OF q] passes card_Diff_singleton)
  qed
  moreover have "inj_on (\<lambda>p. ie_key (es' ! p)) (occ es')"
    using es(2,5) same by (auto simp: inj_on_def occ)
  moreover have "load - (d + 1) = (\<Sum>p \<in> occ es'. dist c es' p + 1)"
  proof -
    have "load = (\<Sum>p \<in> occ es - {P}. dist c es p + 1) + (d + 1)"
      using sum.remove [OF finite_occ P, of "\<lambda>p. dist c es p + 1"] by (simp add: es(4) d_def)
    then show ?thesis
      using dist by (simp add: occ)
  qed
  ultimately have wf': "wf_table c es' (load - (d + 1))"
    using len c by (auto simp: wf_table_def)
  have "(ie_key (es' ! p), the (ie_val (es' ! p))) = (ie_key (es ! p), the (ie_val (es ! p)))"
    if "p \<in> occ es - {P}" for p
    using that same es(5) by (metis DiffD1 DiffD2 insertI1)
  moreover have "ie_key (es ! p) \<noteq> key" if "p \<in> occ es - {P}" for p
    using that es(2) P key by (auto simp: inj_on_def)
  moreover from calculation(1) have "set (id_pairs es') = (\<lambda>p. (ie_key (es ! p), the (ie_val (es ! p)))) ` (occ es - {P})"
    unfolding id_pairs_set occ by (intro image_cong) auto
  ultimately have "set (id_pairs es') = {(k, v) \<in> set (id_pairs es). k \<noteq> key}"
    unfolding id_pairs_set [of es] using key by auto
  moreover have "card (occ es') = card (occ es) - 1"
    using P by (simp add: occ)
  ultimately show ?thesis
    using d skips wf' by blast
qed

text \<open>A new value for a key that is there.\<close>

lemma replace_wf:
  fixes es :: "'v id_entry list" and v :: 'v
  assumes wf: "wf_table c es load" and P: "P \<in> occ es"
  defines "es' \<equiv> es[P := (es ! P)\<lparr>ie_val := Some v\<rparr>]"
  shows "wf_table c es' load \<and> set (id_pairs es') = insert (ie_key (es ! P), v) {(k, w) \<in> set (id_pairs es). k \<noteq> ie_key (es ! P)}
    \<and> card (occ es') = card (occ es)"
proof -
  note es = wf_tableD [OF wf]
  have len: "P < length es"
    using P by (simp add: occ_def)
  have keys: "ie_key (es' ! p) = ie_key (es ! p)" "ie_skips (es' ! p) = ie_skips (es ! p)" for p
    by (cases "p = P"; simp add: es'_def len)+
  have vals: "ie_val (es' ! p) = (if p = P then Some v else ie_val (es ! p))" for p
    by (cases "p = P"; simp add: es'_def len)
  have occ: "occ es' = occ es"
    using P by (auto simp: occ_def vals) (simp_all add: es'_def)
  have dist: "dist c es' p = dist c es p" "home c es' p = home c es p" for p
    by (simp_all add: dist_def home_def keys)
  have "passes c es' q = passes c es q" for q
    by (simp add: passes_def occ dist)
  then have "wf_table c es' load"
    using wf by (simp add: wf_table_def keys occ dist) (simp add: es'_def)
  moreover have "ie_key (es ! p) \<noteq> ie_key (es ! P)" if "p \<in> occ es" "p \<noteq> P" for p
    using that es(2) P by (auto simp: inj_on_def)
  then have "(\<lambda>p. (ie_key (es ! p), the (ie_val (es ! p)))) ` (occ es - {P})
      = {(k, w) \<in> set (id_pairs es). k \<noteq> ie_key (es ! P)}"
    unfolding id_pairs_set by auto
  moreover have "set (id_pairs es') = insert (ie_key (es ! P), v) ((\<lambda>p. (ie_key (es ! p), the (ie_val (es ! p)))) ` (occ es - {P}))"
    unfolding id_pairs_set keys occ vals using P by auto
  ultimately have "set (id_pairs es') = insert (ie_key (es ! P), v) {(k, w) \<in> set (id_pairs es). k \<noteq> ie_key (es ! P)}"
    by simp
  then show ?thesis
    using \<open>wf_table c es' load\<close> by (simp add: occ)
qed

section \<open>Resizing\<close>

lemma new_cap_pow: "\<exists>j. new_cap_loop n (8 * 2 ^ i) = Some (8 * 2 ^ j) \<and> 2 * n \<le> 8 * 2 ^ j \<and> (j = i \<or> 8 * 2 ^ j < 4 * n)"
proof (induction "2 * n - 8 * 2 ^ i" arbitrary: i rule: less_induct)
  case less
  show ?case
  proof (cases "8 * 2 ^ i < n * 2")
    case False
    then show ?thesis
      by (intro exI [of _ i]) (simp add: new_cap_loop.simps [of n "8 * 2 ^ i"])
  next
    case True
    have "8 * 2 ^ i < 8 * (2 :: nat) ^ Suc i"
      by simp
    then have "2 * n - 8 * 2 ^ Suc i < 2 * n - 8 * 2 ^ i"
      using True by linarith
    from less [OF this] obtain j where j: "new_cap_loop n (8 * 2 ^ Suc i) = Some (8 * 2 ^ j)" "2 * n \<le> 8 * 2 ^ j"
        "j = Suc i \<or> 8 * 2 ^ j < 4 * n"
      by blast
    moreover have "8 * 2 ^ Suc i = 8 * 2 ^ i * (2 :: nat)"
      by simp
    moreover have "8 * 2 ^ j < 4 * n"
      using j(3) True by auto
    ultimately show ?thesis
      using True by (intro exI [of _ j]) (simp add: new_cap_loop.simps [of n "8 * 2 ^ i"])
  qed
qed

definition clean :: "'v id_entry list \<Rightarrow> bool" where
  "clean es \<longleftrightarrow> (\<forall>q < length es. ie_val (es ! q) = None \<longrightarrow> ie_skips (es ! q) = 0)"

lemma empty_table:
  fixes k and es :: "'v id_entry list"
  defines "es \<equiv> replicate (2 ^ k) empty_entry"
  shows "wf_table (2 ^ k) es 0 \<and> clean es \<and> id_pairs es = [] \<and> occ es = {}"
proof -
  have occ: "occ es = {}"
    by (auto simp: occ_def empty_entry_def es_def)
  then have "passes (2 ^ k) es q = {}" for q
    by (simp add: passes_def)
  moreover have "id_pairs es = []"
    using occ length_id_pairs by (metis card.empty length_0_conv)
  ultimately show ?thesis
    using occ by (auto simp: wf_table_def clean_def) (auto simp: empty_entry_def es_def)
qed

lemma id_pairs_Nil: "id_pairs [] = []"
  by (simp add: id_pairs_def)

lemma id_pairs_Cons: "id_pairs (e # es) = (case ie_val e of None \<Rightarrow> id_pairs es | Some v \<Rightarrow> (ie_key e, v) # id_pairs es)"
  by (auto simp: id_pairs_def split: option.splits)

lemma rehash_all_wf:
  assumes "wf_table c es load" "clean es" "distinct (map fst (id_pairs olds))"
    and "fst ` set (id_pairs es) \<inter> fst ` set (id_pairs olds) = {}" "card (occ es) + length (id_pairs olds) \<le> c"
  shows "\<exists>es' load'. rehash_all c olds es load = Some (es', load') \<and> wf_table c es' load'
    \<and> set (id_pairs es') = set (id_pairs es) \<union> set (id_pairs olds) \<and> card (occ es') = card (occ es) + length (id_pairs olds)"
  using assms
proof (induction olds arbitrary: es load)
  case Nil
  then show ?case
    by (simp add: id_pairs_def)
next
  case (Cons old olds)
  show ?case
  proof (cases "ie_val old")
    case None
    then show ?thesis
      using Cons by (simp add: id_pairs_Cons)
  next
    case (Some v)
    let ?key = "ie_key old"
    have pairs: "id_pairs (old # olds) = (?key, v) # id_pairs olds"
      by (simp add: id_pairs_Cons Some)
    obtain k where c: "c = 2 ^ k" and len: "length es = c"
      using Cons.prems(1) by (auto simp: wf_table_def)
    have new: "\<forall>p \<in> occ es. ie_key (es ! p) \<noteq> ?key"
      using Cons.prems(4) by (force simp: pairs id_pairs_set [of es])
    have "card (occ es) < c"
      using Cons.prems(5) by (simp add: pairs)
    then obtain d where d: "d < c" "\<forall>i < d. ie_val (es ! probe c (?key mod c) i) \<noteq> None" "ie_val (es ! probe c (?key mod c) d) = None"
      using free_slot [OF Cons.prems(1)] by blast
    have h: "?key mod c < c"
      by (simp add: c)
    have skip: "ie_skips (es ! probe c (?key mod c) d) = 0"
      using Cons.prems(2) d(3) probe_less [OF h] len by (simp add: clean_def)
    define es1 where "es1 = walked c (?key mod c) d (\<lambda>e. e\<lparr>ie_skips := ie_skips e + 1\<rparr>) (\<lambda>e. e\<lparr>ie_key := ?key, ie_val := Some v\<rparr>) es"
    have 1: "rehash_loop c ?key v es load (ID_INDEX c ?key) = Some (es1, load + (d + 1))"
      unfolding es1_def ID_INDEX_mod [OF c] by (rule rehash_loop_run [OF c h d(1) len d(2,3) skip])
    have 2: "wf_table c es1 (load + (d + 1))" "set (id_pairs es1) = insert (?key, v) (set (id_pairs es))" "card (occ es1) = card (occ es) + 1"
      using place_wf [OF Cons.prems(1) new d, of v] unfolding es1_def by auto
    have 3: "clean es1"
      using Cons.prems(2) d(2) by (auto simp: clean_def es1_def nth_walked)
    have "\<exists>es' load'. rehash_all c olds es1 (load + (d + 1)) = Some (es', load') \<and> wf_table c es' load'
        \<and> set (id_pairs es') = set (id_pairs es1) \<union> set (id_pairs olds) \<and> card (occ es') = card (occ es1) + length (id_pairs olds)"
      using Cons.prems(3-5) by (intro Cons.IH 2(1) 3) (auto simp: pairs 2(2,3))
    then show ?thesis
      using 1 by (auto simp: Some 2 pairs)
  qed
qed

section \<open>The map\<close>

definition id_abs :: "'v id_map \<Rightarrow> nat \<Rightarrow> 'v option" where
  "id_abs m = id_alpha (id_entries m)"

text \<open>\<open>id_same\<close>: what the table operations leave alone.\<close>

definition id_same :: "'v id_map \<Rightarrow> 'v id_map \<Rightarrow> bool" where
  "id_same m m' \<longleftrightarrow> id_min_val m' = id_min_val m \<and> id_max_val m' = id_max_val m \<and> id_dyn_val m' = id_dyn_val m
     \<and> id_random m' = id_random m"

definition id_ok :: "'v id_map \<Rightarrow> bool" where
  "id_ok m \<longleftrightarrow> id_count m = card (occ (id_entries m))
     \<and> (if id_cap m = 0 then id_entries m = [] \<and> id_load m = 0 \<and> id_max_load m = 0
        else wf_table (id_cap m) (id_entries m) (id_load m) \<and> 8 \<le> id_cap m \<and> id_max_load m \<le> id_cap m)"

lemma count_le_load: "wf_table c es load \<Longrightarrow> card (occ es) \<le> load"
  using sum_mono [of "occ es" "\<lambda>_. 1" "\<lambda>p. dist c es p + 1"] by (simp add: wf_table_def)

lemma wf_pairs: "wf_table c es load \<Longrightarrow> distinct (map fst (id_pairs es))"
  by (simp add: wf_table_def id_keys_iff)

lemma alpha_eq:
  assumes "distinct (map fst (id_pairs es))" "distinct (map fst (id_pairs es'))" "set (id_pairs es') = set (id_pairs es)"
  shows "id_alpha es' = id_alpha es"
  using assms map_of_eqI by (metis id_alpha_def map_of_inject_set)

lemma id_resize_ok:
  fixes m :: "'v id_map"
  assumes "id_ok m"
  shows "\<exists>m' rv. id_resize reg mem m = Some (m', rv) \<and> id_ok m' \<and> id_abs m' = id_abs m \<and> id_count m' = id_count m
    \<and> id_same m m' \<and> (rv = 0 \<longrightarrow> id_count m < id_cap m') \<and> (rv \<noteq> 0 \<longrightarrow> rv = NNG_ENOMEM) \<and> (reg \<and> mem \<longrightarrow> rv = 0)"
proof (cases "id_load m < id_max_load m \<and> id_load m \<ge> id_min_load m")
  case True
  then have "id_count m < id_cap m"
    using assms count_le_load [of "id_cap m" "id_entries m" "id_load m"] by (auto simp: id_ok_def split: if_splits)
  then show ?thesis
    using True assms by (simp add: id_resize_def id_same_def)
next
  case False
  obtain m1 rv1 where r: "id_map_register reg m = (m1, rv1)"
    by fastforce
  then have m1: "m1 = m\<lparr>id_registered := id_registered m1\<rparr>" "rv1 \<noteq> 0 \<longrightarrow> rv1 = NNG_ENOMEM" "reg \<longrightarrow> rv1 = 0"
    by (auto simp: id_map_register_def split: if_splits)
  have ok1: "id_ok m1" "id_abs m1 = id_abs m" "id_count m1 = id_count m" "id_same m m1"
    using assms by (subst m1(1), simp add: id_ok_def id_abs_def id_same_def)+
  obtain j where j: "new_cap_loop (id_count m1) 8 = Some (8 * 2 ^ j)" "2 * id_count m1 \<le> 8 * 2 ^ j"
    using new_cap_pow [of "id_count m1" 0] by auto
  define c where "c = (8 :: nat) * 2 ^ j"
  have c: "c = 2 ^ (j + 3)" "8 \<le> c"
    by (auto simp: c_def power_add)
  then have "id_count m1 < c"
    using j(2) unfolding c_def [symmetric] by linarith
  note c = c this
  show ?thesis
  proof (cases "rv1 \<noteq> 0 \<or> c = id_cap m1 \<or> \<not> mem")
    case True
    then show ?thesis
      using False r j(1) m1(2,3) ok1 c(3) unfolding id_resize_def c_def [symmetric] by (auto simp: NNG_ENOMEM_def)
  next
    case grow: False
    have olds: "distinct (map fst (id_pairs (id_entries m1)))" "length (id_pairs (id_entries m1)) \<le> c"
      using ok1(1) c(3) by (auto simp: id_ok_def length_id_pairs id_pairs_Nil wf_pairs split: if_splits)
    have new: "wf_table c (replicate c empty_entry :: 'v id_entry list) 0" "clean (replicate c empty_entry :: 'v id_entry list)"
      "id_pairs (replicate c empty_entry :: 'v id_entry list) = []" "occ (replicate c empty_entry :: 'v id_entry list) = {}"
      using empty_table [of "j + 3"] unfolding c(1) by blast+
    obtain es load where es: "rehash_all c (id_entries m1) (replicate c empty_entry) 0 = Some (es, load)" "wf_table c es load"
        "set (id_pairs es) = set (id_pairs (id_entries m1))" "card (occ es) = length (id_pairs (id_entries m1))"
      using rehash_all_wf [OF new(1,2) olds(1)] olds(2) by (auto simp: new(3,4))
    let ?m = "m1\<lparr>id_entries := es, id_cap := c, id_load := load, id_min_load := (if c > 8 then c div 8 else 0),
      id_max_load := (if c > 8 then c * 2 div 3 else 5)\<rparr>"
    have "id_resize reg mem m = Some (?m, 0)"
      using False r j grow es(1) by (auto simp: id_resize_def c_def)
    moreover have "id_ok ?m"
      using es(2,4) ok1(1) c(2) by (auto simp: id_ok_def length_id_pairs)
    moreover have "id_abs ?m = id_abs m"
      using alpha_eq [OF olds(1) wf_pairs [OF es(2)] es(3)] ok1(2) by (simp add: id_abs_def)
    ultimately show ?thesis
      using ok1(3,4) c(3) by (auto simp: id_same_def)
  qed
qed

section \<open>The operations on the map\<close>

lemma alpha_wf: "wf_table c es load \<Longrightarrow> id_alpha es key = Some v \<longleftrightarrow> (key, v) \<in> set (id_pairs es)"
  by (simp add: id_alpha_iff wf_table_def)

lemma alpha_set:
  assumes "wf_table c es load" "wf_table c' es' load'"
    and "set (id_pairs es') = insert (key, v) {(k, w) \<in> set (id_pairs es). k \<noteq> key}"
  shows "id_alpha es' = (id_alpha es)(key \<mapsto> v)"
proof
  fix k
  have "id_alpha es' k = Some w \<longleftrightarrow> ((id_alpha es)(key \<mapsto> v)) k = Some w" for w
    unfolding alpha_wf [OF assms(2)] assms(3) by (auto simp: alpha_wf [OF assms(1)])
  then show "id_alpha es' k = ((id_alpha es)(key \<mapsto> v)) k"
    by (metis option.exhaust)
qed

lemma alpha_remove:
  assumes "wf_table c es load" "wf_table c' es' load'" "set (id_pairs es') = {(k, w) \<in> set (id_pairs es). k \<noteq> key}"
  shows "id_alpha es' = (id_alpha es)(key := None)"
proof
  fix k
  have "id_alpha es' k = Some w \<longleftrightarrow> ((id_alpha es)(key := None)) k = Some w" for w
    unfolding alpha_wf [OF assms(2)] assms(3) by (auto simp: alpha_wf [OF assms(1)])
  then show "id_alpha es' k = ((id_alpha es)(key := None)) k"
    by (metis option.exhaust)
qed

text \<open>The position at which a key stands.\<close>

lemma id_find_ok:
  assumes "id_ok m"
  shows "case id_abs m key of None \<Rightarrow> id_find m key = Some None \<and> (\<forall>p \<in> occ (id_entries m). ie_key (id_entries m ! p) \<noteq> key)
    | Some v \<Rightarrow> \<exists>p \<in> occ (id_entries m). id_find m key = Some (Some p) \<and> ie_key (id_entries m ! p) = key
        \<and> ie_val (id_entries m ! p) = Some v"
proof (cases "id_count m = 0")
  case True
  then have none: "occ (id_entries m) = {}"
    using assms by (simp add: id_ok_def)
  then have "id_abs m key = None"
    using length_id_pairs [of "id_entries m"] by (simp add: id_abs_def id_alpha_def)
  then show ?thesis
    using none True by (simp add: id_find_def)
next
  case False
  then have wf: "wf_table (id_cap m) (id_entries m) (id_load m)"
    using assms by (auto simp: id_ok_def occ_def split: if_splits)
  then obtain k where c: "id_cap m = 2 ^ k"
    by (auto simp: wf_table_def)
  have find: "id_find m key = find_loop (id_cap m) (id_entries m) key (key mod id_cap m) (key mod id_cap m)"
    using False by (simp add: id_find_def ID_INDEX_mod [OF c])
  show ?thesis
  proof (cases "id_abs m key")
    case None
    then have "\<forall>p \<in> occ (id_entries m). ie_key (id_entries m ! p) \<noteq> key"
      using alpha_wf [OF wf, of key] by (auto simp: id_abs_def id_pairs_set)
    then show ?thesis
      using find_absent [OF wf] None find by simp
  next
    case (Some v)
    then obtain p where p: "p \<in> occ (id_entries m)" "ie_key (id_entries m ! p) = key" "v = the (ie_val (id_entries m ! p))"
      using alpha_wf [OF wf, of key] by (auto simp: id_abs_def id_pairs_set)
    then have "ie_val (id_entries m ! p) = Some v"
      by (auto simp: occ_def)
    then show ?thesis
      using find_present [OF wf p(1,2)] p(1,2) find unfolding Some by auto
  qed
qed

lemma id_get_ok: "id_ok m \<Longrightarrow> nni_id_get m key = Some (id_abs m key)"
  using id_find_ok [of m key] by (auto simp: nni_id_get_def split: option.splits)

lemma id_set_ok:
  assumes "id_ok m"
  shows "\<exists>m' rv. nni_id_set reg mem m key v = Some (m', rv) \<and> id_ok m' \<and> id_same m m'
    \<and> id_abs m' = (if rv = 0 then (id_abs m)(key \<mapsto> v) else id_abs m) \<and> (rv \<noteq> 0 \<longrightarrow> rv = NNG_ENOMEM) \<and> (reg \<and> mem \<longrightarrow> rv = 0)"
proof -
  obtain m1 rv where 1: "id_resize reg mem m = Some (m1, rv)" "id_ok m1" "id_abs m1 = id_abs m" "id_same m m1"
      "id_count m1 = id_count m" "rv = 0 \<longrightarrow> id_count m1 < id_cap m1" "rv \<noteq> 0 \<longrightarrow> rv = NNG_ENOMEM" "reg \<and> mem \<longrightarrow> rv = 0"
    using id_resize_ok [OF assms, of reg mem] by metis
  show ?thesis
  proof (cases "rv = 0")
    case False
    then show ?thesis
      using 1 by (intro exI [of _ m1] exI [of _ NNG_ENOMEM]) (auto simp: nni_id_set_def)
  next
    case ok: True
    then have cap: "id_count m1 < id_cap m1" and wf: "wf_table (id_cap m1) (id_entries m1) (id_load m1)"
      using 1 by (auto simp: id_ok_def split: if_splits)
    obtain k where c: "id_cap m1 = 2 ^ k" and len: "length (id_entries m1) = id_cap m1"
      using wf by (auto simp: wf_table_def)
    show ?thesis
    proof (cases "id_abs m1 key")
      case None
      then have find: "id_find m1 key = Some None" and new: "\<forall>p \<in> occ (id_entries m1). ie_key (id_entries m1 ! p) \<noteq> key"
        using id_find_ok [OF 1(2), of key] by auto
      have "card (occ (id_entries m1)) < id_cap m1"
        using cap 1(2) by (simp add: id_ok_def)
      then obtain d where d: "d < id_cap m1" "\<forall>i < d. ie_val (id_entries m1 ! probe (id_cap m1) (key mod id_cap m1) i) \<noteq> None"
          "ie_val (id_entries m1 ! probe (id_cap m1) (key mod id_cap m1) d) = None"
        using free_slot [OF wf] by blast
      define es where "es = walked (id_cap m1) (key mod id_cap m1) d (\<lambda>e. e\<lparr>ie_skips := ie_skips e + 1\<rparr>)
        (\<lambda>e. e\<lparr>ie_key := key, ie_val := Some v\<rparr>) (id_entries m1)"
      have run: "set_loop (id_cap m1) key v (id_entries m1) (id_load m1) (ID_INDEX (id_cap m1) key) = Some (es, id_load m1 + (d + 1))"
        unfolding es_def ID_INDEX_mod [OF c] using set_loop_run [OF c _ d(1) len d(2,3)] c by simp
      have es: "wf_table (id_cap m1) es (id_load m1 + (d + 1))" "set (id_pairs es) = insert (key, v) (set (id_pairs (id_entries m1)))"
          "card (occ es) = card (occ (id_entries m1)) + 1"
        using place_wf [OF wf new d, of v] unfolding es_def by auto
      have "set (id_pairs es) = insert (key, v) {(k, w) \<in> set (id_pairs (id_entries m1)). k \<noteq> key}"
      proof -
        have "{(k, w) \<in> set (id_pairs (id_entries m1)). k \<noteq> key} = set (id_pairs (id_entries m1))"
          using new by (auto simp: id_pairs_set)
        then show ?thesis
          by (simp add: es(2))
      qed
      then have "id_alpha es = (id_alpha (id_entries m1))(key \<mapsto> v)"
        by (rule alpha_set [OF wf es(1)])
      then show ?thesis
        using 1 ok find run es cap by (auto simp: nni_id_set_def id_ok_def id_abs_def id_same_def)
    next
      case (Some w)
      then obtain p where p: "p \<in> occ (id_entries m1)" "id_find m1 key = Some (Some p)" "ie_key (id_entries m1 ! p) = key"
        using id_find_ok [OF 1(2), of key] by auto
      define es where "es = (id_entries m1)[p := (id_entries m1 ! p)\<lparr>ie_val := Some v\<rparr>]"
      have es: "wf_table (id_cap m1) es (id_load m1)" "card (occ es) = card (occ (id_entries m1))"
          "set (id_pairs es) = insert (key, v) {(k, w) \<in> set (id_pairs (id_entries m1)). k \<noteq> key}"
        using replace_wf [OF wf p(1), of v] unfolding es_def p(3) by auto
      then have "id_alpha es = (id_alpha (id_entries m1))(key \<mapsto> v)"
        by (intro alpha_set [OF wf])
      then show ?thesis
        using 1 ok p(2) es(1,2) cap by (auto simp: nni_id_set_def id_ok_def id_abs_def id_same_def es_def [symmetric])
    qed
  qed
qed

lemma id_remove_ok:
  assumes "id_ok m"
  shows "\<exists>m'. nni_id_remove reg mem m key = Some (m', if id_abs m key = None then NNG_ENOENT else 0) \<and> id_ok m' \<and> id_same m m'
    \<and> id_abs m' = (id_abs m)(key := None)"
proof (cases "id_abs m key")
  case None
  then show ?thesis
    using id_find_ok [OF assms, of key] assms by (auto simp: nni_id_remove_def id_same_def fun_upd_idem)
next
  case (Some v)
  then obtain p where p: "p \<in> occ (id_entries m)" "id_find m key = Some (Some p)" "ie_key (id_entries m ! p) = key"
    using id_find_ok [OF assms, of key] by auto
  then have wf: "wf_table (id_cap m) (id_entries m) (id_load m)" and cap: "8 \<le> id_cap m" "id_max_load m \<le> id_cap m"
    using assms by (auto simp: id_ok_def occ_def split: if_splits)
  obtain k where c: "id_cap m = 2 ^ k" and len: "length (id_entries m) = id_cap m"
    using wf by (auto simp: wf_table_def)
  define d where "d = dist (id_cap m) (id_entries m) p"
  define es where "es = walked (id_cap m) (key mod id_cap m) d (\<lambda>e. e\<lparr>ie_skips := ie_skips e - 1\<rparr>)
    (\<lambda>e. e\<lparr>ie_val := None, ie_key := 0\<rparr>) (id_entries m)"
  have d: "d < id_cap m" "probe (id_cap m) (key mod id_cap m) d = p"
      "\<forall>i < d. ie_skips (id_entries m ! probe (id_cap m) (key mod id_cap m) i) \<noteq> 0"
    and es: "wf_table (id_cap m) es (id_load m - (d + 1))" "set (id_pairs es) = {(k, w) \<in> set (id_pairs (id_entries m)). k \<noteq> key}"
      "card (occ es) = card (occ (id_entries m)) - 1"
    using remove_wf [OF wf p(1,3)] unfolding d_def es_def by blast+
  have run: "remove_loop (id_cap m) p (id_entries m) (id_load m) (ID_INDEX (id_cap m) key) = Some (es, id_load m - (d + 1))"
    using remove_loop_run [OF c _ d(1) len d(3)] c unfolding es_def ID_INDEX_mod [OF c] d(2) by simp
  let ?m = "m\<lparr>id_entries := es, id_load := id_load m - (d + 1), id_count := id_count m - 1\<rparr>"
  have "id_ok ?m"
    using assms es cap by (auto simp: id_ok_def)
  moreover have "id_abs ?m = (id_abs m)(key := None)"
    using alpha_remove [OF wf es(1,2)] by (simp add: id_abs_def)
  moreover have "id_same m ?m"
    by (simp add: id_same_def)
  ultimately show ?thesis
    using id_resize_ok [of ?m reg mem] p(2) run Some by (auto simp: nni_id_remove_def id_same_def)
qed

section \<open>New ids\<close>

definition id_range :: "'v id_map \<Rightarrow> bool" where
  "id_range m \<longleftrightarrow> 1 \<le> id_min_val m \<and> id_min_val m \<le> id_max_val m \<and> id_max_val m < 2 ^ 64 - 1
     \<and> (id_dyn_val m = 0 \<or> id_min_val m \<le> id_dyn_val m \<and> id_dyn_val m \<le> id_max_val m)"

definition next_id :: "nat \<Rightarrow> nat \<Rightarrow> nat \<Rightarrow> nat" where
  "next_id lo hi j = (if j + 1 > hi then lo else j + 1)"

lemma next_id_up: "j + n \<le> hi \<Longrightarrow> (next_id lo hi ^^ n) j = j + n"
  by (induction n) (auto simp: next_id_def)

lemma next_id_reaches:
  assumes "lo \<le> j" "j \<le> hi" "lo \<le> x" "x \<le> hi"
  shows "\<exists>n. (next_id lo hi ^^ n) j = x"
proof (cases "j \<le> x")
  case True
  then show ?thesis
    using next_id_up [of j "x - j" hi lo] assms by (intro exI [of _ "x - j"]) simp
next
  case False
  have "(next_id lo hi ^^ Suc (hi - j)) j = lo"
    using next_id_up [of j "hi - j" hi lo] assms by (simp add: next_id_def)
  then have "(next_id lo hi ^^ ((x - lo) + Suc (hi - j))) j = x"
    using next_id_up [of lo "x - lo" hi lo] assms by (simp only: funpow_add comp_def)
  then show ?thesis ..
qed

lemma id_find_dyn: "id_find (m\<lparr>id_dyn_val := d\<rparr>) key = id_find m key"
  by (simp add: id_find_def)

lemma alloc_loop_run:
  assumes "id_ok m" "id_min_val m \<le> id_dyn_val m" "id_dyn_val m \<le> id_max_val m" "id_max_val m < 2 ^ 64 - 1"
    and "id_abs m ((next_id (id_min_val m) (id_max_val m) ^^ n) (id_dyn_val m)) = None"
  shows "\<exists>d key. alloc_loop m = Some (m\<lparr>id_dyn_val := d\<rparr>, key) \<and> id_abs m key = None
    \<and> id_min_val m \<le> key \<and> key \<le> id_max_val m \<and> id_min_val m \<le> d \<and> d \<le> id_max_val m"
  using assms
proof (induction n arbitrary: m)
  case (0 m)
  let ?d = "if (id_dyn_val m + 1) mod 2 ^ 64 > id_max_val m then id_min_val m else (id_dyn_val m + 1) mod 2 ^ 64"
  have "id_find m (id_dyn_val m) = Some None"
    using id_find_ok [OF 0(1), of "id_dyn_val m"] 0(5) by simp
  then have "alloc_loop m = Some (m\<lparr>id_dyn_val := ?d\<rparr>, id_dyn_val m)"
    by (subst alloc_loop.simps) (simp add: id_find_dyn Let_def)
  moreover have "id_min_val m \<le> ?d" "?d \<le> id_max_val m"
    using 0(2-4) by auto
  ultimately show ?case
    using 0(2,3) 0(5) [unfolded funpow_0] by blast
next
  case (Suc n m)
  let ?d = "if (id_dyn_val m + 1) mod 2 ^ 64 > id_max_val m then id_min_val m else (id_dyn_val m + 1) mod 2 ^ 64"
  have d: "?d = next_id (id_min_val m) (id_max_val m) (id_dyn_val m)"
    using Suc.prems(3,4) by (simp add: next_id_def)
  show ?case
  proof (cases "id_abs m (id_dyn_val m)")
    case None
    then have "id_find m (id_dyn_val m) = Some None"
      using id_find_ok [OF Suc.prems(1), of "id_dyn_val m"] by simp
    then have "alloc_loop m = Some (m\<lparr>id_dyn_val := ?d\<rparr>, id_dyn_val m)"
      by (subst alloc_loop.simps) (simp add: id_find_dyn Let_def)
    moreover have "id_min_val m \<le> ?d" "?d \<le> id_max_val m"
      using Suc.prems(2-4) by auto
    ultimately show ?thesis
      using Suc.prems None by blast
  next
    case (Some v)
    let ?m = "m\<lparr>id_dyn_val := ?d\<rparr>"
    have "alloc_loop m = alloc_loop ?m"
      using id_find_ok [OF Suc.prems(1), of "id_dyn_val m"] Some
      by (subst alloc_loop.simps) (auto simp: id_find_dyn Let_def)
    moreover have "\<exists>d key. alloc_loop ?m = Some (?m\<lparr>id_dyn_val := d\<rparr>, key) \<and> id_abs ?m key = None
        \<and> id_min_val ?m \<le> key \<and> key \<le> id_max_val ?m \<and> id_min_val ?m \<le> d \<and> d \<le> id_max_val ?m"
    proof (rule Suc.IH)
      have "(next_id (id_min_val m) (id_max_val m) ^^ n) (next_id (id_min_val m) (id_max_val m) (id_dyn_val m))
          = (next_id (id_min_val m) (id_max_val m) ^^ Suc n) (id_dyn_val m)"
        by (simp add: funpow_swap1)
      then show "id_abs ?m ((next_id (id_min_val ?m) (id_max_val ?m) ^^ n) (id_dyn_val ?m)) = None"
        using Suc.prems(5) unfolding d by (simp add: id_abs_def)
    qed (use Suc.prems(1-4) d in \<open>auto simp: id_ok_def next_id_def\<close>)
    ultimately show ?thesis
      by (simp add: id_abs_def)
  qed
qed

lemma dom_abs: "id_ok m \<Longrightarrow> dom (id_abs m) = fst ` set (id_pairs (id_entries m)) \<and> card (dom (id_abs m)) \<le> id_count m"
  using card_image_le [of "set (id_pairs (id_entries m))" fst] card_length [of "id_pairs (id_entries m)"]
  by (auto simp: id_abs_def id_alpha_def dom_map_of_conv_image_fst id_ok_def length_id_pairs)

lemma id_alloc_ok:
  assumes "id_ok m" "id_range m"
  shows "\<exists>m' r. nni_id_alloc reg mem rnd m v = Some (m', r) \<and> id_ok m' \<and> id_range m'
    \<and> id_min_val m' = id_min_val m \<and> id_max_val m' = id_max_val m
    \<and> (case r of
        Inl rv \<Rightarrow> rv = NNG_ENOMEM \<and> id_abs m' = id_abs m
          \<and> (reg \<and> mem \<longrightarrow> id_count m > id_max_val m - id_min_val m)
      | Inr key \<Rightarrow> id_min_val m \<le> key \<and> key \<le> id_max_val m \<and> id_abs m key = None \<and> id_abs m' = (id_abs m)(key \<mapsto> v))"
proof (cases "id_count m > id_max_val m - id_min_val m")
  case True
  then show ?thesis
    using assms by (simp add: nni_id_alloc_def)
next
  case False
  let ?lo = "id_min_val m" and ?hi = "id_max_val m"
  define m1 where "m1 = (if id_dyn_val m = 0 then m\<lparr>id_dyn_val := (if id_random m then rnd mod (?hi - ?lo + 1) + ?lo else ?lo)\<rparr> else m)"
  have range: "1 \<le> ?lo" "?lo \<le> ?hi" "?hi < 2 ^ 64 - 1"
    using assms(2) by (auto simp: id_range_def)
  have "rnd mod Suc (?hi - ?lo) < Suc (?hi - ?lo)"
    by simp
  then have "rnd mod Suc (?hi - ?lo) + ?lo \<le> ?hi"
    using range(2) by linarith
  then have "?lo \<le> id_dyn_val m1" "id_dyn_val m1 \<le> ?hi"
    using assms(2) range by (auto simp: m1_def id_range_def)
  then have m1: "id_ok m1" "id_abs m1 = id_abs m" "id_min_val m1 = ?lo" "id_max_val m1 = ?hi"
      "?lo \<le> id_dyn_val m1" "id_dyn_val m1 \<le> ?hi"
    using assms(1) by (auto simp: m1_def id_ok_def id_abs_def)
  have "\<not> {?lo..?hi} \<subseteq> dom (id_abs m)"
  proof
    assume "{?lo..?hi} \<subseteq> dom (id_abs m)"
    then have "?hi - ?lo + 1 \<le> card (dom (id_abs m))"
      using card_mono [of "dom (id_abs m)" "{?lo..?hi}"] conjunct1 [OF dom_abs [OF assms(1)]] range(2) by simp
    then show False
      using False conjunct2 [OF dom_abs [OF assms(1)]] by linarith
  qed
  then obtain x where "?lo \<le> x" "x \<le> ?hi" "id_abs m x = None"
    by (meson atLeastAtMost_iff domIff subsetI)
  then obtain n where "id_abs m1 ((next_id ?lo ?hi ^^ n) (id_dyn_val m1)) = None"
    using next_id_reaches [of ?lo "id_dyn_val m1" ?hi x] m1 by metis
  then obtain d key where a: "alloc_loop m1 = Some (m1\<lparr>id_dyn_val := d\<rparr>, key)" "id_abs m key = None" "?lo \<le> key" "key \<le> ?hi"
      "?lo \<le> d" "d \<le> ?hi"
    using alloc_loop_run [OF m1(1)] m1 range(3) by (metis (no_types, lifting))
  let ?m2 = "m1\<lparr>id_dyn_val := d\<rparr>"
  have m2: "id_ok ?m2" "id_abs ?m2 = id_abs m"
    using m1(1,2) by (simp_all add: id_ok_def id_abs_def)
  obtain m' rv where s: "nni_id_set reg mem ?m2 key v = Some (m', rv)" "id_ok m'" "id_same ?m2 m'"
      "id_abs m' = (if rv = 0 then (id_abs ?m2)(key \<mapsto> v) else id_abs ?m2)" "rv \<noteq> 0 \<longrightarrow> rv = NNG_ENOMEM"
      "reg \<and> mem \<longrightarrow> rv = 0"
    using id_set_ok [OF m2(1), of reg mem key v] by blast
  have "nni_id_alloc reg mem rnd m v = Some (m', if rv = 0 then Inr key else Inl rv)"
    using False a(1) s(1) unfolding nni_id_alloc_def Let_def m1_def [symmetric] by simp
  moreover have "id_range m'"
    using s(3) a(5,6) range m1(3,4) by (simp add: id_same_def id_range_def)
  ultimately show ?thesis
    using s a(2-4) m1(3,4) m2(2) by (auto simp: id_same_def)
qed

section \<open>The map as its users see it\<close>

datatype 'v id_op = IdGet nat | IdSet bool bool nat 'v | IdRemove bool bool nat | IdAlloc bool bool nat 'v

datatype 'v id_res = Found "'v option" | Code int | NewId nat

definition id_exec :: "'v id_op \<Rightarrow> 'v id_map \<Rightarrow> ('v id_map \<times> 'v id_res) option" where
  "id_exec op m =
     (case op of
        IdGet key \<Rightarrow> map_option (\<lambda>r. (m, Found r)) (nni_id_get m key)
      | IdSet reg mem key v \<Rightarrow> map_option (\<lambda>(m, rv). (m, Code rv)) (nni_id_set reg mem m key v)
      | IdRemove reg mem key \<Rightarrow> map_option (\<lambda>(m, rv). (m, Code rv)) (nni_id_remove reg mem m key)
      | IdAlloc reg mem rnd v \<Rightarrow>
          map_option (\<lambda>(m, r). (m, case r of Inl rv \<Rightarrow> Code rv | Inr key \<Rightarrow> NewId key)) (nni_id_alloc reg mem rnd m v))"

fun id_run :: "'v id_op list \<Rightarrow> 'v id_map \<Rightarrow> ('v id_map \<times> 'v id_res list) option" where
  "id_run [] m = Some (m, [])"
| "id_run (op # ops) m =
     (case id_exec op m of
        None \<Rightarrow> None
      | Some (m, r) \<Rightarrow> map_option (\<lambda>(m, rs). (m, r # rs)) (id_run ops m))"

text \<open>
  The specification: a finite map, on which an operation that needs memory may be refused, and may not if
  there is memory.
\<close>

fun id_spec :: "nat \<Rightarrow> nat \<Rightarrow> 'v id_op \<Rightarrow> 'v id_res \<Rightarrow> (nat \<Rightarrow> 'v option) \<Rightarrow> (nat \<Rightarrow> 'v option) \<Rightarrow> bool" where
  "id_spec lo hi (IdGet key) r f f' \<longleftrightarrow> r = Found (f key) \<and> f' = f"
| "id_spec lo hi (IdSet reg mem key v) r f f' \<longleftrightarrow>
     r = Code 0 \<and> f' = f(key \<mapsto> v) \<or> r = Code NNG_ENOMEM \<and> f' = f \<and> \<not> (reg \<and> mem)"
| "id_spec lo hi (IdRemove reg mem key) r f f' \<longleftrightarrow> r = Code (if f key = None then NNG_ENOENT else 0) \<and> f' = f(key := None)"
| "id_spec lo hi (IdAlloc reg mem rnd v) r f f' \<longleftrightarrow>
     (\<exists>key. r = NewId key \<and> lo \<le> key \<and> key \<le> hi \<and> f key = None \<and> f' = f(key \<mapsto> v))
     \<or> r = Code NNG_ENOMEM \<and> f' = f"

fun id_spec_run :: "nat \<Rightarrow> nat \<Rightarrow> 'v id_op list \<Rightarrow> 'v id_res list \<Rightarrow> (nat \<Rightarrow> 'v option) \<Rightarrow> (nat \<Rightarrow> 'v option) \<Rightarrow> bool" where
  "id_spec_run lo hi [] rs f f' \<longleftrightarrow> rs = [] \<and> f' = f"
| "id_spec_run lo hi (op # ops) rs f f' \<longleftrightarrow>
     (\<exists>r rs' g. rs = r # rs' \<and> id_spec lo hi op r f g \<and> id_spec_run lo hi ops rs' g f')"

lemma id_range_same: "id_range m \<Longrightarrow> id_same m m' \<Longrightarrow> id_range m'"
  by (auto simp: id_range_def id_same_def)

lemma id_exec_ok:
  assumes "id_ok m" "id_range m"
  shows "\<exists>m' r. id_exec op m = Some (m', r) \<and> id_ok m' \<and> id_range m' \<and> id_min_val m' = id_min_val m
    \<and> id_max_val m' = id_max_val m \<and> id_spec (id_min_val m) (id_max_val m) op r (id_abs m) (id_abs m')"
proof (cases op)
  case (IdGet key)
  then show ?thesis
    using assms id_get_ok by (auto simp: id_exec_def)
next
  case (IdSet reg mem key v)
  then show ?thesis
    using id_set_ok [OF assms(1), of reg mem key v] id_range_same [OF assms(2)] by (auto simp: id_exec_def id_same_def)
next
  case (IdRemove reg mem key)
  then show ?thesis
    using id_remove_ok [OF assms(1), of reg mem key] id_range_same [OF assms(2)] by (auto simp: id_exec_def id_same_def)
next
  case (IdAlloc reg mem rnd v)
  obtain m' r where "nni_id_alloc reg mem rnd m v = Some (m', r)" "id_ok m'" "id_range m'"
      "id_min_val m' = id_min_val m" "id_max_val m' = id_max_val m"
      "case r of Inl rv \<Rightarrow> rv = NNG_ENOMEM \<and> id_abs m' = id_abs m
          \<and> (reg \<and> mem \<longrightarrow> id_count m > id_max_val m - id_min_val m)
        | Inr key \<Rightarrow> id_min_val m \<le> key \<and> key \<le> id_max_val m \<and> id_abs m key = None \<and> id_abs m' = (id_abs m)(key \<mapsto> v)"
    using id_alloc_ok [OF assms, of reg mem rnd v] by blast
  then show ?thesis
    using IdAlloc by (cases r) (auto simp: id_exec_def)
qed

lemma id_run_ok:
  "id_ok m \<Longrightarrow> id_range m \<Longrightarrow>
     \<exists>m' rs. id_run ops m = Some (m', rs) \<and> id_ok m' \<and> id_range m'
       \<and> id_spec_run (id_min_val m) (id_max_val m) ops rs (id_abs m) (id_abs m')"
proof (induction ops arbitrary: m)
  case (Cons op ops)
  obtain m1 r where 1: "id_exec op m = Some (m1, r)" "id_ok m1" "id_range m1" "id_min_val m1 = id_min_val m"
      "id_max_val m1 = id_max_val m" "id_spec (id_min_val m) (id_max_val m) op r (id_abs m) (id_abs m1)"
    using id_exec_ok [OF Cons.prems] by blast
  then show ?case
    using Cons.IH [OF 1(2,3)] by auto
qed simp

lemma init_ok:
  assumes "nni_id_map_init lo hi rand = Some m" "hi < 2 ^ 64 - 1"
  shows "id_ok m \<and> id_range m \<and> id_abs m = (\<lambda>_. None) \<and> id_min_val m = (if lo = 0 then 1 else lo)
    \<and> id_max_val m = (if hi = 0 then 0xffffffff else hi)"
  using assms by (auto simp: nni_id_map_init_def Let_def id_ok_def id_range_def id_abs_def id_alpha_def id_pairs_def occ_def
      split: if_splits)

text \<open>The counters: no key is further than the size of the table from its first slot.\<close>

lemma load_bound:
  assumes "wf_table c es load"
  shows "load \<le> card (occ es) * c"
proof -
  obtain k where c: "c = 2 ^ k"
    using assms by (auto simp: wf_table_def)
  have "dist c es p + 1 \<le> c" if "p \<in> occ es" for p
    using dist_at [OF c, of p es] wf_tableD(5) [OF assms that] by simp
  then have "(\<Sum>p \<in> occ es. dist c es p + 1) \<le> (\<Sum>p \<in> occ es. c)"
    by (rule sum_mono)
  then show ?thesis
    using wf_tableD(4) [OF assms] by simp
qed

lemma fini_ok: "id_ok m \<Longrightarrow> id_ok (nni_id_map_fini m) \<and> id_abs (nni_id_map_fini m) = (\<lambda>_. None)"
  by (auto simp: nni_id_map_fini_def id_ok_def id_abs_def id_alpha_def id_pairs_def occ_def)

text \<open>A walk by \<open>nni_id_visit\<close> from the cursor 0 meets the pairs of the map in the order of the table.\<close>

lemma visit_loop_step:
  "visit_loop es i = (r, j) \<Longrightarrow>
     (case r of None \<Rightarrow> id_pairs es = []
      | Some kv \<Rightarrow> i < j \<and> j \<le> i + length es \<and> id_pairs es = kv # id_pairs (drop (j - i) es))"
proof (induction es arbitrary: i)
  case (Cons e es)
  show ?case
  proof (cases "ie_val e")
    case None
    then have "visit_loop es (i + 1) = (r, j)"
      using Cons.prems by simp
    note ih = Cons.IH [OF this]
    show ?thesis
    proof (cases r)
      case None
      then show ?thesis
        using ih \<open>ie_val e = None\<close> by (simp add: id_pairs_Cons)
    next
      case (Some kv)
      then have "i + 1 < j"
        using ih by simp
      then have "drop (j - i) (e # es) = drop (j - (i + 1)) es"
        by (simp add: drop_Cons')
      then show ?thesis
        using ih Some \<open>ie_val e = None\<close> by (simp add: id_pairs_Cons)
    qed
  next
    case (Some v)
    then show ?thesis
      using Cons.prems by (auto simp: id_pairs_Cons)
  qed
qed (auto simp: id_pairs_Nil)

lemma visit_step:
  assumes "id_ok m" "cursor \<le> id_cap m" "nni_id_visit m cursor = (r, cursor')"
  shows "case r of None \<Rightarrow> id_pairs (drop cursor (id_entries m)) = []
    | Some kv \<Rightarrow> cursor < cursor' \<and> cursor' \<le> id_cap m
        \<and> id_pairs (drop cursor (id_entries m)) = kv # id_pairs (drop cursor' (id_entries m))"
proof -
  have "length (id_entries m) = id_cap m"
    using assms(1) by (auto simp: id_ok_def wf_table_def split: if_splits)
  then show ?thesis
    using visit_loop_step [of "drop cursor (id_entries m)" cursor r cursor'] assms(2,3)
    by (auto simp: nni_id_visit_def split: option.splits)
qed



end
