(* ===== verification/Lmq.thy ===== *)
theory Lmq
  imports Effects
begin

text \<open>
  The light message queue of the bundled NNG (\<^verbatim>\<open>nng/src/core/lmq.c\<close>), the buffer behind the send and receive
  buffers of nanonext's sockets: a ring whose size is a power of two, with a capacity that need not be one.
\<close>

section \<open>The ring\<close>

text \<open>
  Slots that have not been written are \<open>None\<close>. \<open>lmq_alloc\<close> is 0 while the two slots inside the structure
  are used. Operations that free messages return them. A write past the end of the slots has the value
  \<open>None\<close>.
\<close>

record 'm lmq =
  lmq_cap :: nat
  lmq_alloc :: nat
  lmq_mask :: nat
  lmq_len :: nat
  lmq_get :: nat
  lmq_put :: nat
  lmq_msgs :: "'m option list"

definition nni_lmq_full :: "'m lmq \<Rightarrow> bool" where
  "nni_lmq_full q \<longleftrightarrow> lmq_len q \<ge> lmq_cap q"

definition nni_lmq_empty :: "'m lmq \<Rightarrow> bool" where
  "nni_lmq_empty q \<longleftrightarrow> lmq_len q = 0"

definition nni_lmq_put :: "'m lmq \<Rightarrow> 'm \<Rightarrow> ('m lmq \<times> int) option" where
  "nni_lmq_put q msg =
     (if lmq_len q \<ge> lmq_cap q then Some (q, NNG_EAGAIN)
      else if lmq_put q \<ge> length (lmq_msgs q) then None
      else Some (q\<lparr>lmq_msgs := (lmq_msgs q)[lmq_put q := Some msg], lmq_len := lmq_len q + 1,
                   lmq_put := and (lmq_put q + 1) (lmq_mask q)\<rparr>, 0))"

definition nni_lmq_get :: "'m lmq \<Rightarrow> 'm lmq \<times> (int + 'm option)" where
  "nni_lmq_get q =
     (if lmq_len q = 0 then (q, Inl NNG_EAGAIN)
      else (q\<lparr>lmq_get := and (lmq_get q + 1) (lmq_mask q), lmq_len := lmq_len q - 1\<rparr>,
            Inr (lmq_msgs q ! lmq_get q)))"

function flush_loop :: "'m lmq \<Rightarrow> 'm lmq \<times> 'm option list" where
  "flush_loop q =
     (if lmq_len q > 0 then
        (let msg = lmq_msgs q ! lmq_get q;
             (q', freed) = flush_loop (q\<lparr>lmq_get := and (lmq_get q + 1) (lmq_mask q), lmq_len := lmq_len q - 1\<rparr>)
         in (q', msg # freed))
      else (q, []))"
  by auto
termination by (relation "measure lmq_len") auto

declare flush_loop.simps [simp del]

definition nni_lmq_flush :: "'m lmq \<Rightarrow> 'm lmq \<times> 'm option list" where
  "nni_lmq_flush q = flush_loop q"

definition nni_lmq_fini :: "'m lmq \<Rightarrow> 'm option list" where
  "nni_lmq_fini q = snd (flush_loop q)"

partial_function (option) alloc_size :: "nat \<Rightarrow> nat \<Rightarrow> nat option" where
  "alloc_size cap alloc = (if alloc < cap then alloc_size cap (alloc * 2) else Some alloc)"

text \<open>The messages are moved until the new queue is full, the oldest first.\<close>

function move_loop :: "nat \<Rightarrow> 'm lmq \<Rightarrow> 'm option list \<Rightarrow> 'm lmq \<times> 'm option list" where
  "move_loop cap q moved =
     (if length moved < cap then
        (case nni_lmq_get q of
           (q, Inl _) \<Rightarrow> (q, moved)
         | (q, Inr msg) \<Rightarrow> move_loop cap q (moved @ [msg]))
      else (q, moved))"
  by pat_completeness auto
termination by (relation "measure (\<lambda>(cap, q, moved). cap - length moved)") auto

declare move_loop.simps [simp del]

definition nni_lmq_resize :: "bool \<Rightarrow> 'm lmq \<Rightarrow> nat \<Rightarrow> ('m lmq \<times> int \<times> 'm option list) option" where
  "nni_lmq_resize mem q cap =
     (case alloc_size cap 2 of
        None \<Rightarrow> None
      | Some alloc \<Rightarrow>
          (if \<not> mem then Some (q, NNG_ENOMEM, [])
           else
             (let (q', moved) = move_loop cap q [];
                  (q'', freed) = nni_lmq_flush q'
              in Some (q''\<lparr>lmq_msgs := moved @ replicate (alloc - length moved) None, lmq_cap := cap, lmq_alloc := alloc,
                    lmq_mask := alloc - 1, lmq_len := length moved, lmq_put := length moved, lmq_get := 0\<rparr>, 0, freed))))"

definition nni_lmq_init :: "bool \<Rightarrow> nat \<Rightarrow> 'm lmq option" where
  "nni_lmq_init mem cap =
     (let q = \<lparr>lmq_cap = 2, lmq_alloc = 0, lmq_mask = 1, lmq_len = 0, lmq_get = 0, lmq_put = 0, lmq_msgs = [None, None]\<rparr> in
      if cap > 2 then map_option fst (nni_lmq_resize mem q cap) else Some (q\<lparr>lmq_cap := cap\<rparr>))"

section \<open>What it holds\<close>

definition ring_at :: "'m lmq \<Rightarrow> nat \<Rightarrow> 'm option" where
  "ring_at q i = lmq_msgs q ! ((lmq_get q + i) mod length (lmq_msgs q))"

definition lmq_list :: "'m lmq \<Rightarrow> 'm option list" where
  "lmq_list q = map (ring_at q) [0..<lmq_len q]"

definition lmq_ok :: "'m lmq \<Rightarrow> bool" where
  "lmq_ok q \<longleftrightarrow> (\<exists>k. length (lmq_msgs q) = 2 ^ k) \<and> lmq_mask q = length (lmq_msgs q) - 1
     \<and> lmq_get q < length (lmq_msgs q) \<and> lmq_len q \<le> lmq_cap q \<and> lmq_cap q \<le> length (lmq_msgs q)
     \<and> lmq_put q = (lmq_get q + lmq_len q) mod length (lmq_msgs q)
     \<and> (\<forall>i < lmq_len q. ring_at q i \<noteq> None)"

lemma and_mask: "n = 2 ^ k \<Longrightarrow> and j (n - 1) = j mod (n :: nat)"
  by (simp add: take_bit_eq_mod [symmetric] take_bit_eq_mask mask_eq_exp_minus_1)

lemma length_lmq_list [simp]: "length (lmq_list q) = lmq_len q"
  by (simp add: lmq_list_def)

lemma put_ok:
  assumes "lmq_ok q"
  shows "\<exists>q'. nni_lmq_put q m = Some (q', if lmq_len q \<ge> lmq_cap q then NNG_EAGAIN else 0) \<and> lmq_ok q'
    \<and> lmq_cap q' = lmq_cap q \<and> lmq_list q' = (if lmq_len q \<ge> lmq_cap q then lmq_list q else lmq_list q @ [Some m])"
proof (cases "lmq_len q \<ge> lmq_cap q")
  case True
  then show ?thesis
    using assms by (simp add: nni_lmq_put_def)
next
  case False
  let ?n = "length (lmq_msgs q)"
  obtain k where k: "?n = 2 ^ k"
    using assms by (auto simp: lmq_ok_def)
  have get: "lmq_get q < ?n" and len: "lmq_len q < ?n" and put: "lmq_put q = (lmq_get q + lmq_len q) mod ?n"
    using assms False by (auto simp: lmq_ok_def)
  then have inside: "lmq_put q < ?n"
    by (metis mod_less_divisor gr_implies_not_zero neq0_conv)
  let ?q = "q\<lparr>lmq_msgs := (lmq_msgs q)[lmq_put q := Some m], lmq_len := lmq_len q + 1,
    lmq_put := and (lmq_put q + 1) (lmq_mask q)\<rparr>"
  have step: "nni_lmq_put q m = Some (?q, 0)"
    using False inside by (simp add: nni_lmq_put_def)
  have away: "(lmq_get q + i) mod ?n \<noteq> lmq_put q" if "i < lmq_len q" for i
  proof
    assume "(lmq_get q + i) mod ?n = lmq_put q"
    then have "(lmq_get q + i) mod ?n = (lmq_get q + lmq_len q) mod ?n"
      by (simp add: put)
    then have "?n dvd (lmq_get q + lmq_len q) - (lmq_get q + i)"
      using that by (metis mod_eq_dvd_iff_nat nat_add_left_cancel_le less_imp_le)
    then show False
      using that len by (simp add: dvd_imp_le nat_dvd_not_less)
  qed
  have old: "ring_at ?q i = ring_at q i" if "i < lmq_len q" for i
    using away [OF that] by (simp add: ring_at_def)
  have new: "ring_at ?q (lmq_len q) = Some m"
    using inside by (simp add: ring_at_def put)
  have list: "lmq_list ?q = lmq_list q @ [Some m]"
    using old new by (simp add: lmq_list_def)
  have "and (lmq_put q + 1) (lmq_mask q) = (lmq_get q + (lmq_len q + 1)) mod ?n"
    using assms and_mask [OF k] by (simp add: lmq_ok_def mod_Suc_eq)
  then have "lmq_ok ?q"
    using assms False old new by (auto simp: lmq_ok_def less_Suc_eq)
  then show ?thesis
    using step list False by auto
qed

lemma get_ok:
  assumes "lmq_ok q"
  shows "case lmq_list q of
      [] \<Rightarrow> nni_lmq_get q = (q, Inl NNG_EAGAIN)
    | m # ms \<Rightarrow> \<exists>q'. nni_lmq_get q = (q', Inr m) \<and> lmq_ok q' \<and> lmq_list q' = ms \<and> lmq_cap q' = lmq_cap q \<and> m \<noteq> None"
proof (cases "lmq_len q")
  case 0
  then show ?thesis
    by (simp add: nni_lmq_get_def lmq_list_def)
next
  case (Suc l)
  let ?n = "length (lmq_msgs q)"
  obtain k where k: "?n = 2 ^ k"
    using assms by (auto simp: lmq_ok_def)
  define g where "g = (lmq_get q + 1) mod ?n"
  let ?q = "q\<lparr>lmq_get := g, lmq_len := l\<rparr>"
  have get: "and (lmq_get q + 1) (lmq_mask q) = g"
    using assms and_mask [OF k] by (simp add: lmq_ok_def g_def)
  have shift: "ring_at ?q i = ring_at q (Suc i)" for i
  proof -
    have "(g + i) mod ?n = (lmq_get q + Suc i) mod ?n"
      unfolding g_def mod_add_left_eq by simp
    then show ?thesis
      unfolding ring_at_def by simp
  qed
  have first: "lmq_msgs q ! lmq_get q = ring_at q 0"
    using assms by (simp add: lmq_ok_def ring_at_def)
  have list: "lmq_list q = ring_at q 0 # lmq_list ?q"
  proof -
    have "lmq_list ?q = map (\<lambda>i. ring_at ?q i) [0..<l]"
      by (simp add: lmq_list_def Suc)
    also have "\<dots> = map (\<lambda>i. ring_at q (Suc i)) [0..<l]"
      by (simp only: shift)
    finally show ?thesis
      by (simp add: lmq_list_def [of q] Suc map_upt_Suc del: upt_Suc)
  qed
  have "(g + l) mod ?n = (lmq_get q + lmq_len q) mod ?n"
    unfolding g_def mod_add_left_eq by (simp add: Suc)
  moreover have all: "\<forall>i < lmq_len q. ring_at q i \<noteq> None" and "0 < ?n"
    and "lmq_mask q = ?n - 1" "lmq_len q \<le> lmq_cap q" "lmq_cap q \<le> ?n" "lmq_put q = (lmq_get q + lmq_len q) mod ?n"
    using assms by (auto simp: lmq_ok_def)
  moreover have "\<forall>i < l. ring_at ?q i \<noteq> None"
    using all by (simp add: shift Suc)
  ultimately have ok: "lmq_ok ?q"
    using k unfolding lmq_ok_def by (simp add: Suc) (simp add: g_def)
  have some: "ring_at q 0 \<noteq> None"
    using all Suc by simp
  have "nni_lmq_get q = (?q, Inr (ring_at q 0))"
    using first Suc get by (simp add: nni_lmq_get_def)
  then show ?thesis
    unfolding list list.case using ok some by (intro exI [of _ ?q]) simp
qed

lemma flush_ok:
  "lmq_ok q \<Longrightarrow> \<exists>q'. nni_lmq_flush q = (q', lmq_list q) \<and> lmq_ok q' \<and> lmq_list q' = [] \<and> lmq_cap q' = lmq_cap q
     \<and> lmq_alloc q' = lmq_alloc q"
proof (induction "lmq_len q" arbitrary: q)
  case 0
  then show ?case
    by (simp add: nni_lmq_flush_def flush_loop.simps [of q] lmq_list_def)
next
  case (Suc l)
  let ?q = "q\<lparr>lmq_get := and (lmq_get q + 1) (lmq_mask q), lmq_len := lmq_len q - 1\<rparr>"
  have get: "nni_lmq_get q = (?q, Inr (lmq_msgs q ! lmq_get q))"
    using Suc(2) by (simp add: nni_lmq_get_def)
  have q: "lmq_ok ?q" "lmq_list q = lmq_msgs q ! lmq_get q # lmq_list ?q"
    using get_ok [OF Suc(3)] get Suc(2) length_lmq_list [of q] by (auto split: list.splits)
  obtain q' where "flush_loop ?q = (q', lmq_list ?q)" "lmq_ok q'" "lmq_list q' = []" "lmq_cap q' = lmq_cap q" "lmq_alloc q' = lmq_alloc q"
    using Suc(1) [of ?q] Suc(2) [symmetric] q(1) by (auto simp: nni_lmq_flush_def)
  then show ?case
    using Suc(2) q(2) by (simp add: nni_lmq_flush_def flush_loop.simps [of q] Let_def)
qed

lemma alloc_size_pow: "i > 0 \<Longrightarrow> \<exists>j > 0. alloc_size cap (2 ^ i) = Some (2 ^ j) \<and> cap \<le> 2 ^ j"
proof (induction "cap - 2 ^ i" arbitrary: i rule: less_induct)
  case less
  show ?case
  proof (cases "2 ^ i < cap")
    case True
    have "2 ^ i < (2 :: nat) ^ Suc i"
      by simp
    then have "cap - 2 ^ Suc i < cap - 2 ^ i"
      using True by linarith
    from less(1) [OF this] show ?thesis
      using True by (subst alloc_size.simps) (simp add: mult.commute)
  next
    case False
    then show ?thesis
      using less(2) by (subst alloc_size.simps) auto
  qed
qed

lemma move_ok:
  "lmq_ok q \<Longrightarrow> \<exists>q'. move_loop cap q moved = (q', moved @ take (cap - length moved) (lmq_list q)) \<and> lmq_ok q'
     \<and> lmq_list q' = drop (cap - length moved) (lmq_list q)"
proof (induction "cap - length moved" arbitrary: q moved)
  case 0
  then show ?case
    by (subst move_loop.simps) simp
next
  case (Suc n)
  then have more: "length moved < cap"
    by linarith
  show ?case
  proof (cases "lmq_list q")
    case Nil
    then have "nni_lmq_get q = (q, Inl NNG_EAGAIN)"
      using get_ok [OF Suc(3)] by simp
    then show ?thesis
      using more Nil Suc(3) by (subst move_loop.simps) simp
  next
    case (Cons m ms)
    then obtain q1 where q1: "nni_lmq_get q = (q1, Inr m)" "lmq_ok q1" "lmq_list q1 = ms"
      using get_ok [OF Suc(3)] by auto
    have "n = cap - length (moved @ [m])"
      using Suc(2) by simp
    then obtain q' where "move_loop cap q1 (moved @ [m]) = (q', (moved @ [m]) @ take (cap - length (moved @ [m])) ms)"
        "lmq_ok q'" "lmq_list q' = drop (cap - length (moved @ [m])) ms"
      using Suc(1) [of "moved @ [m]" q1] q1(2,3) by auto
    moreover have "cap - length moved = Suc (cap - length (moved @ [m]))"
      using more by simp
    ultimately show ?thesis
      using more q1(1) by (subst move_loop.simps) (simp add: Cons)
  qed
qed

text \<open>A resize keeps the oldest messages and frees the others.\<close>

lemma resize_ok:
  assumes "lmq_ok q"
  shows "\<exists>alloc q'. alloc_size cap 2 = Some alloc \<and>
    nni_lmq_resize mem q cap = Some (q', if mem then 0 else NNG_ENOMEM, if mem then drop cap (lmq_list q) else [])
    \<and> lmq_list q' = (if mem then take cap (lmq_list q) else lmq_list q)
    \<and> lmq_cap q' = (if mem then cap else lmq_cap q)
    \<and> (\<not> mem \<or> lmq_len q < cap \<or> cap \<noteq> alloc \<longrightarrow> lmq_ok q')
    \<and> (mem \<longrightarrow> lmq_put q' = lmq_len q' \<and> lmq_len q' = min cap (lmq_len q) \<and> length (lmq_msgs q') = alloc)"
proof -
  obtain j where j: "alloc_size cap 2 = Some (2 ^ j)" "cap \<le> 2 ^ j"
    using alloc_size_pow [of 1 cap] by auto
  show ?thesis
  proof (cases mem)
    case False
    then show ?thesis
      using j assms by (simp add: nni_lmq_resize_def)
  next
    case True
    obtain q1 where 1: "move_loop cap q [] = (q1, take cap (lmq_list q))" "lmq_ok q1" "lmq_list q1 = drop cap (lmq_list q)"
      using move_ok [OF assms, of cap "[]"] by auto
    obtain q2 where 2: "nni_lmq_flush q1 = (q2, drop cap (lmq_list q))"
      using flush_ok [OF 1(2)] 1(3) by auto
    let ?moved = "take cap (lmq_list q)"
    let ?q = "q2\<lparr>lmq_msgs := ?moved @ replicate (2 ^ j - length ?moved) None, lmq_cap := cap, lmq_alloc := 2 ^ j,
      lmq_mask := 2 ^ j - 1, lmq_len := length ?moved, lmq_put := length ?moved, lmq_get := 0\<rparr>"
    have r: "nni_lmq_resize mem q cap = Some (?q, 0, drop cap (lmq_list q))"
      using True j 1(1) 2 by (simp add: nni_lmq_resize_def)
    have n: "length ?moved \<le> 2 ^ j" "length (lmq_msgs ?q) = 2 ^ j"
      using j(2) by auto
    have ring: "ring_at ?q i = ?moved ! i" if "i < length ?moved" for i
      using that n by (auto simp: ring_at_def nth_append)
    have list: "lmq_list ?q = ?moved"
      using ring by (intro nth_equalityI) (auto simp: lmq_list_def)
    have "lmq_list q ! i \<noteq> None" if "i < lmq_len q" for i
      using assms that by (simp add: lmq_ok_def lmq_list_def)
    then have some: "\<forall>i < length ?moved. ring_at ?q i \<noteq> None"
      using ring by auto
    have "lmq_ok ?q" if "lmq_len q < cap \<or> cap \<noteq> 2 ^ j"
    proof -
      have "length ?moved < 2 ^ j"
        using that j(2) by auto
      then show ?thesis
        using n(2) some j(2) unfolding lmq_ok_def by auto
    qed
    then show ?thesis
      using r list True j n by (intro exI [of _ "2 ^ j"] exI [of _ ?q]) (auto simp: min_def)
  qed
qed

lemma init_lmq: "\<exists>q :: 'm lmq. nni_lmq_init mem cap = Some q \<and> lmq_ok q \<and> lmq_list q = []
    \<and> lmq_cap q = (if cap > 2 \<and> \<not> mem then 2 else cap)"
proof -
  define e :: "'m lmq" where
    "e = \<lparr>lmq_cap = 2, lmq_alloc = 0, lmq_mask = 1, lmq_len = 0, lmq_get = 0, lmq_put = 0, lmq_msgs = [None, None]\<rparr>"
  have init: "nni_lmq_init mem cap = (if cap > 2 then map_option fst (nni_lmq_resize mem e cap) else Some (e\<lparr>lmq_cap := cap\<rparr>))"
    by (simp add: nni_lmq_init_def e_def)
  have e: "lmq_ok e" "lmq_list e = []" "lmq_cap e = 2" "lmq_len e = 0"
    by (auto simp: lmq_ok_def lmq_list_def e_def intro: exI [of _ 1])
  show ?thesis
  proof (cases "cap > 2")
    case True
    then show ?thesis
      using resize_ok [OF e(1), of cap mem] e by (auto simp: init)
  next
    case False
    then have "lmq_ok (e\<lparr>lmq_cap := cap\<rparr>)" "lmq_list (e\<lparr>lmq_cap := cap\<rparr>) = []"
      by (auto simp: lmq_ok_def lmq_list_def e_def intro: exI [of _ 1])
    then show ?thesis
      using False by (simp add: init)
  qed
qed

section \<open>The queue as its users see it\<close>

datatype 'm lmq_op = QPut 'm | QGet | QResize bool nat | QFlush | QFull | QEmpty

datatype 'm lmq_res = QCode int "'m option list" | QMsg "'m option" | QBool bool

definition lmq_exec :: "'m lmq_op \<Rightarrow> 'm lmq \<Rightarrow> ('m lmq \<times> 'm lmq_res) option" where
  "lmq_exec op q =
     (case op of
        QPut m \<Rightarrow> map_option (\<lambda>(q, rv). (q, QCode rv [])) (nni_lmq_put q m)
      | QGet \<Rightarrow> Some (case nni_lmq_get q of (q, Inl rv) \<Rightarrow> (q, QCode rv []) | (q, Inr m) \<Rightarrow> (q, QMsg m))
      | QResize mem cap \<Rightarrow> map_option (\<lambda>(q, rv, freed). (q, QCode rv freed)) (nni_lmq_resize mem q cap)
      | QFlush \<Rightarrow> Some (case nni_lmq_flush q of (q, freed) \<Rightarrow> (q, QCode 0 freed))
      | QFull \<Rightarrow> Some (q, QBool (nni_lmq_full q))
      | QEmpty \<Rightarrow> Some (q, QBool (nni_lmq_empty q)))"

fun lmq_run :: "'m lmq_op list \<Rightarrow> 'm lmq \<Rightarrow> ('m lmq \<times> 'm lmq_res list) option" where
  "lmq_run [] q = Some (q, [])"
| "lmq_run (op # ops) q =
     (case lmq_exec op q of
        None \<Rightarrow> None
      | Some (q, r) \<Rightarrow> map_option (\<lambda>(q, rs). (q, r # rs)) (lmq_run ops q))"

text \<open>The specification: a list and a capacity.\<close>

fun queue_exec :: "'m lmq_op \<Rightarrow> nat \<times> 'm option list \<Rightarrow> (nat \<times> 'm option list) \<times> 'm lmq_res" where
  "queue_exec (QPut m) (cap, ms) =
     (if length ms \<ge> cap then ((cap, ms), QCode NNG_EAGAIN []) else ((cap, ms @ [Some m]), QCode 0 []))"
| "queue_exec QGet (cap, ms) =
     (case ms of [] \<Rightarrow> ((cap, []), QCode NNG_EAGAIN []) | m # ms \<Rightarrow> ((cap, ms), QMsg m))"
| "queue_exec (QResize mem cap') (cap, ms) =
     (if mem then ((cap', take cap' ms), QCode 0 (drop cap' ms)) else ((cap, ms), QCode NNG_ENOMEM []))"
| "queue_exec QFlush (cap, ms) = ((cap, []), QCode 0 ms)"
| "queue_exec QFull (cap, ms) = ((cap, ms), QBool (length ms \<ge> cap))"
| "queue_exec QEmpty (cap, ms) = ((cap, ms), QBool (ms = []))"

text \<open>
  The resizes that work: not to a power of two, from two on, that the messages fill.
\<close>

fun resize_fits :: "'m lmq_op \<Rightarrow> nat \<times> 'm option list \<Rightarrow> bool" where
  "resize_fits (QResize mem cap') (cap, ms) \<longleftrightarrow> \<not> mem \<or> length ms < cap' \<or> alloc_size cap' 2 \<noteq> Some cap'"
| "resize_fits _ _ \<longleftrightarrow> True"

fun queue_run :: "'m lmq_op list \<Rightarrow> nat \<times> 'm option list \<Rightarrow> (nat \<times> 'm option list) \<times> 'm lmq_res list" where
  "queue_run [] s = (s, [])"
| "queue_run (op # ops) s = (let (s, r) = queue_exec op s; (s, rs) = queue_run ops s in (s, r # rs))"

fun fits :: "'m lmq_op list \<Rightarrow> nat \<times> 'm option list \<Rightarrow> bool" where
  "fits [] s \<longleftrightarrow> True"
| "fits (op # ops) s \<longleftrightarrow> resize_fits op s \<and> fits ops (fst (queue_exec op s))"

definition lmq_abs :: "'m lmq \<Rightarrow> nat \<times> 'm option list" where
  "lmq_abs q = (lmq_cap q, lmq_list q)"

lemma lmq_step:
  assumes "lmq_ok q" "resize_fits op (lmq_abs q)"
  shows "\<exists>q' r. lmq_exec op q = Some (q', r) \<and> lmq_ok q' \<and> queue_exec op (lmq_abs q) = (lmq_abs q', r)"
proof (cases op)
  case (QPut m)
  then show ?thesis
    using put_ok [OF assms(1), of m] by (auto simp: lmq_exec_def lmq_abs_def)
next
  case QGet
  then show ?thesis
    using get_ok [OF assms(1)] assms(1) by (cases "lmq_list q") (auto simp: lmq_exec_def lmq_abs_def)
next
  case (QResize mem cap)
  then show ?thesis
    using resize_ok [OF assms(1), of cap mem] assms(2) by (auto simp: lmq_exec_def lmq_abs_def)
next
  case QFlush
  then show ?thesis
    using flush_ok [OF assms(1)] by (auto simp: lmq_exec_def lmq_abs_def)
next
  case QFull
  then show ?thesis
    using assms(1) by (auto simp: lmq_exec_def lmq_abs_def nni_lmq_full_def)
next
  case QEmpty
  then show ?thesis
    using assms(1) length_lmq_list [of q] by (auto simp: lmq_exec_def lmq_abs_def nni_lmq_empty_def simp flip: length_0_conv)
qed

lemma lmq_run_ok:
  "lmq_ok q \<Longrightarrow> fits ops (lmq_abs q) \<Longrightarrow>
     \<exists>q' rs. lmq_run ops q = Some (q', rs) \<and> lmq_ok q' \<and> queue_run ops (lmq_abs q) = (lmq_abs q', rs)"
proof (induction ops arbitrary: q)
  case (Cons op ops)
  obtain q1 r where 1: "lmq_exec op q = Some (q1, r)" "lmq_ok q1" "queue_exec op (lmq_abs q) = (lmq_abs q1, r)"
    using lmq_step [OF Cons.prems(1), of op] Cons.prems(2) by auto
  then obtain q2 rs where "lmq_run ops q1 = Some (q2, rs)" "lmq_ok q2" "queue_run ops (lmq_abs q1) = (lmq_abs q2, rs)"
    using Cons.IH [of q1] Cons.prems(2) by auto
  then show ?case
    using 1 by simp
qed simp

text \<open>
  C13: From its initialization on, the ring is a bounded first-in first-out queue: every operation gives what
  it gives on a list with a capacity, with and without memory for a resize, as long as no resize is to a power
  of two that the messages in the queue fill.
\<close>

theorem lmq_refines_queue:
  fixes q0 :: "'m lmq"
  assumes "nni_lmq_init mem cap = Some q0" "fits ops (if cap > 2 \<and> \<not> mem then 2 else cap, [])"
  shows "\<exists>q rs. lmq_run ops q0 = Some (q, rs)
    \<and> queue_run ops (if cap > 2 \<and> \<not> mem then 2 else cap, []) = (lmq_abs q, rs)"
proof -
  obtain q :: "'m lmq" where q: "nni_lmq_init mem cap = Some q" "lmq_ok q" "lmq_list q = []" "lmq_cap q = (if cap > 2 \<and> \<not> mem then 2 else cap)"
    using init_lmq by blast
  then have "q = q0" "lmq_abs q = (if cap > 2 \<and> \<not> mem then 2 else cap, [])"
    using assms(1) by (simp_all add: lmq_abs_def)
  then show ?thesis
    using lmq_run_ok [OF q(2), of ops] assms(2) by auto
qed

theorem lmq_refines_queue_witness:
  "\<exists>q0 q. nni_lmq_init True 3 = Some q0 \<and>
     lmq_run [QPut ''a'', QPut ''b'', QPut ''c'', QPut ''d'', QGet, QPut ''e'', QResize True 1, QGet, QGet] q0
       = Some (q, [QCode 0 [], QCode 0 [], QCode 0 [], QCode NNG_EAGAIN [], QMsg (Some ''a''), QCode 0 [],
           QCode 0 [Some ''c'', Some ''e''], QMsg (Some ''b''), QCode NNG_EAGAIN []])"
proof -
  let ?ops = "[QPut ''a'', QPut ''b'', QPut ''c'', QPut ''d'', QGet, QPut ''e'', QResize True 1, QGet, QGet]"
  obtain q0 :: "string lmq" where q0: "nni_lmq_init True 3 = Some q0"
    using init_lmq by blast
  have "alloc_size 1 2 = Some 2"
    by (simp add: alloc_size.simps)
  then have "fits ?ops (3, [])"
    by simp
  then show ?thesis
    using lmq_refines_queue [OF q0, of ?ops] q0 by auto
qed

text \<open>
  The other resizes: the ring has the size of its messages, and the put index stands behind its end. The next
  message, once another has been taken, is written there.
\<close>

lemma resize_overruns:
  assumes "lmq_ok q" "alloc_size cap 2 = Some cap" "cap \<le> lmq_len q"
  shows "\<exists>q1 q2 m. nni_lmq_resize True q cap = Some (q1, 0, drop cap (lmq_list q)) \<and> nni_lmq_get q1 = (q2, Inr m)
    \<and> nni_lmq_put q2 x = None"
proof -
  have pos: "cap > 0"
    using alloc_size_pow [of 1 cap] assms(2) by auto
  obtain q1 where q1: "nni_lmq_resize True q cap = Some (q1, 0, drop cap (lmq_list q))" "lmq_cap q1 = cap" "lmq_put q1 = cap"
      "lmq_len q1 = cap" "length (lmq_msgs q1) = cap"
    using resize_ok [OF assms(1), of cap True] assms(2,3) by (auto simp: min_def)
  then show ?thesis
    using pos by (auto simp: nni_lmq_get_def nni_lmq_put_def)
qed

end
