(* ===== verification/Spec2Isabelle.thy ===== *)
theory Spec2Isabelle
  imports Prelude Codec Serial Rng RngPower Dispatcher DispLemmas DispInv DispCore DispSteps DispProps
    Queues InQueue Registry SendList Effects Aio AioProps AioOps AioLife Cv CvProps Request RequestProps Promise
    HttpText HttpProps Server ServerInv ServerRun ServerSteps ServerProps Chains ServerCreate
    Stdin WaitThread Forwarder Endpoint SendRecv Proto Streams Utils Ncurl Tls DispStart NngMsg IdProbe IdHash Lmq
begin

text \<open>
  A verification development for the C core of nanonext, the R binding to the messaging library NNG:
  the files \<^verbatim>\<open>src/src/*.c\<close> of the repository, named without their directory below. The R functions of
  the package are thin wrappers around the entry points \<open>rnng_...\<close> of these files.

  \<^bold>\<open>The program.\<close> R values are encoded or serialized into messages (\<^verbatim>\<open>core.c\<close>) and sent and received
  through sockets, contexts and byte streams (\<^verbatim>\<open>proto.c\<close>, \<^verbatim>\<open>comms.c\<close>), either while R waits or by an
  \<open>aio\<close>, an operation that NNG completes on a thread of its own (\<^verbatim>\<open>aio.c\<close>). Completions may signal
  condition variables, on which R waits, or post promises to the event loop of R; requests are pairs of
  aios that can be cancelled (\<^verbatim>\<open>sync.c\<close>). Threads wait for aios so that R stays interruptible, forward
  signals and read standard input (\<^verbatim>\<open>thread.c\<close>). The dispatcher, run by NNG's callbacks, gives requests
  from a host to daemons (\<^verbatim>\<open>dispatcher.c\<close>). There are an HTTP client (\<^verbatim>\<open>ncurl.c\<close>), an HTTP and WebSocket
  server whose callbacks run in the event loop (\<^verbatim>\<open>server.c\<close>), options and utilities (\<^verbatim>\<open>utils.c\<close>), and
  helpers around TLS and the network (\<^verbatim>\<open>tls.c\<close>, \<^verbatim>\<open>net.c\<close>).

  \<^bold>\<open>How it is modelled.\<close> Definitions carry the names of the C functions; where a definition is a part of
  a function it has a name of its own, and where C mutates a structure the definition returns the
  changed record. There are four ways in which a function appears:
  \<^item> as a pure function, where C computes (codec, serialization, random streams, text formats);
  \<^item> as a state transformer on a record with the fields of the C structure, where callbacks share state
    (dispatcher, aios, condition variables, server, threads). A section that runs under one mutex is
    one step, and an \<open>inductive\<close> relation collects the steps in any order;
  \<^item> as a trace of effects with a result, where a function allocates, calls NNG and may fail half way
    (creation of everything). \<open>Acq\<close>, \<open>Rel\<close>, \<open>Move\<close> and \<open>Do\<close> are an allocation, a free, a hand-over
    and a call, and \<open>owns es xs\<close> says that nothing was freed twice and exactly \<open>xs\<close> is left;
  \<^item> as a pointer structure in a heap given by maps, where the code links nodes by hand.
  NNG (but for the parts named last below), Mbed TLS, the allocator, R's serializer and the event loop are parameters: their answers are
  arguments of the definitions (an \<open>int\<close> result of which 0 is success, a boolean for an allocation),
  so that a theorem holds for every combination of failures. Failures with a code are values, errors
  of R are values with their message.

  \<^bold>\<open>The parts.\<close>
  \<^item> \<open>Prelude\<close>: bytes, C strings, decimal text, \<open>snprintf\<close>; the collections of simplification rules.
    \<open>Effects\<close>, \<open>Chains\<close>: traces, the C idiom of a chain of calls that jumps to \<^verbatim>\<open>fail:\<close>, and the locale
    \<open>unwinding\<close>, the contract of a constructor: what it has to respect so that nothing is left
    behind wherever it fails. It is interpreted on the streams and on the HTTP client.
  \<^item> \<open>Codec\<close>, \<open>Serial\<close> (\<^verbatim>\<open>core.c\<close>): \<open>nano_encode\<close>, \<open>nano_decode\<close>, \<open>nano_matcharg\<close>; the growing buffer, hooks
    and header of \<open>nano_serialize\<close>, the hand-over of a buffer to a message. Round trips, and that what
    is sent is header and blocks in order.
  \<^item> \<open>Rng\<close>, \<open>RngPower\<close> (\<^verbatim>\<open>dispatcher.c\<close>, the first part): the jump of a random stream in 64-bit arithmetic is
    \<open>2 ^ 127\<close> steps of the generator.
  \<^item> \<open>Dispatcher\<close> and \<open>Disp...\<close> (\<^verbatim>\<open>dispatcher.c\<close>): the record of the state, every handler; \<open>DispInv\<close> and
    \<open>DispCore\<close> prove that each keeps the invariants, \<open>DispSteps\<close> is the transition system, \<open>DispProps\<close>
    has its properties: contexts are answered once, no request waits while a daemon could take it, sends
    never wait, order, broadcasts, cancelling, reports. \<open>Queues\<close> and \<open>InQueue\<close> show that the pointer chain
    of the input queue refines the list used there. \<open>DispStart\<close> is the start as calls, with every failing path, and
    the ways a dispatcher is stopped and released.
  \<^item> \<open>Registry\<close>, \<open>SendList\<close>: the list of preserved R objects, the intrusive lists of the server, and who
    frees a send aio.
  \<^item> \<open>Aio\<close>, \<open>AioProps\<close>, \<open>AioOps\<close>, \<open>AioLife\<close> (\<^verbatim>\<open>aio.c\<close>): completion callbacks, reading, waiting, collecting and
    racing; creation with every failure; a vector's way from sender to receiver.
  \<^item> \<open>Cv\<close>, \<open>CvProps\<close>, \<open>Request\<close>, \<open>RequestProps\<close>, \<open>Promise\<close> (\<^verbatim>\<open>sync.c\<close>): the four waits, which answer one contract
    (the locale \<open>waiting\<close>), pipe events and monitors; requests from creation to cancellation; the race
    of a completion with setting a promise, access by access.
  \<^item> \<open>Stdin\<close>, \<open>WaitThread\<close>, \<open>Forwarder\<close> (\<^verbatim>\<open>thread.c\<close>): the reader of standard input, the hand-shake with the
    thread that waits for aios, the forwarder of signals.
  \<^item> \<open>Endpoint\<close>, \<open>Proto\<close>, \<open>Streams\<close>, \<open>SendRecv\<close> (\<^verbatim>\<open>comms.c\<close>, \<^verbatim>\<open>proto.c\<close>): contexts, dialers and listeners; opening
    sockets by abbreviated protocol name; byte streams; blocking sends and receives, which hand NNG what
    the asynchronous ones do.
  \<^item> \<open>HttpText\<close>, \<open>HttpProps\<close>, \<open>Server\<close>, \<open>ServerInv\<close>, \<open>ServerRun\<close>, \<open>ServerSteps\<close>, \<open>ServerProps\<close>, \<open>ServerCreate\<close>
    (\<^verbatim>\<open>server.c\<close>): text formats; the record of the server, its callbacks, the transition system, the life
    of connections and requests in every interleaving; creation and responses.
  \<^item> \<open>Ncurl\<close> (\<^verbatim>\<open>ncurl.c\<close>): requests with redirects, as aios, and in sessions. \<open>Utils\<close> (\<^verbatim>\<open>utils.c\<close>): options and
    the rest. \<open>Tls\<close> (\<^verbatim>\<open>tls.c\<close>, \<^verbatim>\<open>net.c\<close>): encoders, certificates, configurations, interface addresses.
  \<^item> Three parts of the bundled NNG on which the rest stands (\<^verbatim>\<open>nng/src/core\<close>): \<open>NngMsg\<close> (\<^verbatim>\<open>message.c\<close>), the messages
    into which nanonext puts its own buffers, whose body and header answer one contract (the locale
    \<open>byte_sequence\<close>); \<open>IdProbe\<close> and \<open>IdHash\<close> (\<^verbatim>\<open>idhash.c\<close>), the hash tables of pipes, sockets and requests,
    which refine a finite map; \<open>Lmq\<close> (\<^verbatim>\<open>lmq.c\<close>), the ring buffers of the protocols, which refine a bounded queue.

  \<^bold>\<open>Loops and bounds.\<close> Loops over data end by structure or with a measure. A loop that waits takes what it
  sees as an argument, a list of observations, and says what it does for every such list: the sliced
  waits have a bound on their slices that is proved; the redirects of a request have none, and the
  theorem says exactly for which hops it returns. Draining the dispatcher's queue recurs on the queue.
  The probing loops of the id maps need not end on any table; that they do on every table the operations
  build is part of the theorem.
  Machine integers are words of their width where the code relies on it or goes wrong without it
  (indices, sizes, options, times); counts that are bounded by memory are naturals, and then the
  absence of wrap-around is proved from that bound. Bytes that C leaves uninitialised are 0 and never read.

  \<^bold>\<open>What is assumed.\<close> Of NNG: a callback runs once per operation; a pipe's events come in order; a call
  that fails has not acquired its result; \<open>nng_aio_stop\<close> returns when the callback has run;
  \<open>nng_msg_append\<close> appends. Of the event loop: callbacks run one at a time, in the order queued. Memory
  accesses outside a mutex are sequentially consistent. R's garbage collector runs each finalizer once.

  \<^bold>\<open>What goes wrong.\<close> The properties hold of the code as it is. Where it does not do what it means to, a
  lemma shows it by a run or an input, next to the model it concerns: for instance
  \<open>promise_unlocked_posts\<close>, \<open>stream_message_hidden\<close>, \<open>reset_disarms_flag\<close>, \<open>negative_period_wraps\<close>,
  \<open>text_frame_underflow\<close>, \<open>stop_frees_stream_early\<close>, \<open>message_behind_close\<close>, \<open>empty_send_terminates\<close>,
  \<open>header_array_dangles\<close>, \<open>atomic_result_escapes\<close>, \<open>shutdown_hangs\<close>, \<open>stop_lost\<close>, \<open>wait_init_frees_twice\<close>,
  \<open>stdin_thread_leak\<close>, \<open>tls_dialer_stranded\<close>, \<open>stream_send_dangles\<close>, \<open>recv_leaks_aio\<close>, \<open>subscribe_leaks\<close>,
  \<open>empty_topic_wraps\<close>, \<open>status_truncated\<close>, \<open>endless_redirects\<close>, and in NNG \<open>insert_overwrites\<close>,
  \<open>pull_up_overwrites\<close>, \<open>realloc_wraps\<close>, \<open>resize_overruns\<close>.

  \<^bold>\<open>Not modelled.\<close> Mbed TLS and the rest of NNG (vendored under \<^verbatim>\<open>src/src\<close>), the R code, tests and documents; the
  registration of the package (\<^verbatim>\<open>init.c\<close>), which is a table; R attributes and classes that only display;
  the code for Windows; the delay of signals and the
  interrupt switch, which are effects without a result; the clock and the version texts.
\<close>

end
